(* ===== verification/Sponge_Prelude.thy ===== *)
theory Sponge_Prelude
  imports Main "HOL-Library.Word" "HOL-Library.Monad_Syntax"
begin

text \<open>
  Shared vocabulary of the development: the machine integers of the C++ code, the
  partial operations of the language (assertions, integer remainder, memcpy), the
  list lemmas on ring buffers that ByteStream and UnAssembleBuffer rest on, and the
  interface of a component driven by a sequence of events.

  Widths. uint8_t, uint16_t and uint32_t are words. size_t and uint64_t (the same
  width, as the static\_assert of stream\_reassembler.hh demands) are natural numbers,
  because they count and index lists; every C++ sum, difference and product on them is
  written with \<open>add64\<close>, \<open>sub64\<close> and \<open>mul64\<close>, which wrap at 2 to the 64.

  Failure. An operation that can reach undefined behaviour (a copy outside an array, a
  remainder by zero), a failing assert or an uncaught exception returns an option;
  \<open>None\<close> is the run that has no defined result.
\<close>

section \<open>Machine integers\<close>

type_synonym u8 = "8 word"
type_synonym u16 = "16 word"
type_synonym u32 = "32 word"
type_synonym u64 = nat
type_synonym bytes = "u8 list"

named_theorems u64_simps \<open>64-bit arithmetic that does not wrap\<close>
named_theorems sponge_eval \<open>definitions to unfold when a run is evaluated on concrete inputs\<close>

definition add64 :: "u64 \<Rightarrow> u64 \<Rightarrow> u64" where
  "add64 a b = (a + b) mod 2 ^ 64"

definition sub64 :: "u64 \<Rightarrow> u64 \<Rightarrow> u64" where
  "sub64 a b = (a + (2 ^ 64 - b mod 2 ^ 64)) mod 2 ^ 64"

definition mul64 :: "u64 \<Rightarrow> u64 \<Rightarrow> u64" where
  "mul64 a b = (a * b) mod 2 ^ 64"

lemma add64_exact [u64_simps]: "a + b < 2 ^ 64 \<Longrightarrow> add64 a b = a + b"
  by (simp add: add64_def)

lemma sub64_exact [u64_simps]:
  assumes "b \<le> a" and "a < 2 ^ 64"
  shows "sub64 a b = a - b"
proof -
  have "b mod 2 ^ 64 = b" using assms by simp
  then have "sub64 a b = ((a - b) + 2 ^ 64) mod 2 ^ 64"
    using assms by (simp add: sub64_def)
  also have "\<dots> = (a - b) mod 2 ^ 64" by (rule mod_add_self2)
  finally show ?thesis using assms by simp
qed

lemma sub64_wraps:
  assumes "a < b" and "b < 2 ^ 64"
  shows "sub64 a b = a + (2 ^ 64 - b)"
proof -
  have "a + (2 ^ 64 - b) < 2 ^ 64" using assms by linarith
  with assms show ?thesis by (simp add: sub64_def)
qed

lemma add64_less [simp]: "add64 a b < 18446744073709551616"
  by (simp add: add64_def)

lemma sub64_less [simp]: "sub64 a b < 18446744073709551616"
  by (simp add: sub64_def)

lemma add64_add64: "add64 (add64 a b) c = add64 a (b + c)"
  by (simp add: add64_def mod_simps add.assoc)

lemma sub64_add64 [u64_simps]:
  assumes "b \<le> c" and "b < 2 ^ 64" and "a + (c - b) < 2 ^ 64"
  shows "sub64 (add64 a c) b = a + (c - b)"
proof -
  have "sub64 (add64 a c) b = ((a + c) mod 2 ^ 64 + (2 ^ 64 - b)) mod 2 ^ 64"
    using assms(2) by (simp add: sub64_def add64_def)
  also have "\<dots> = (a + c + (2 ^ 64 - b)) mod 2 ^ 64" by (rule mod_add_left_eq)
  also have "a + c + (2 ^ 64 - b) = (a + (c - b)) + 2 ^ 64" using assms by simp
  also have "\<dots> mod 2 ^ 64 = (a + (c - b)) mod 2 ^ 64" by (rule mod_add_self2)
  finally show ?thesis using assms(3) by simp
qed

lemma add64_zero [simp]: "a < 2 ^ 64 \<Longrightarrow> add64 a 0 = a"
  by (simp add: add64_def)

lemma sub64_zero [simp]: "a < 2 ^ 64 \<Longrightarrow> sub64 a 0 = a"
  by (simp add: sub64_def)

lemma mul64_exact [u64_simps]: "a * b < 2 ^ 64 \<Longrightarrow> mul64 a b = a * b"
  by (simp add: mul64_def)

section \<open>Partial operations of the language\<close>

text \<open>\<open>assert(b)\<close>: the run ends when the condition fails.\<close>

definition cpp_assert :: "bool \<Rightarrow> unit option" where
  "cpp_assert b = (if b then Some () else None)"

text \<open>\<open>a % b\<close> on unsigned integers: undefined for a zero divisor.\<close>

definition rem64 :: "u64 \<Rightarrow> u64 \<Rightarrow> u64 option" where
  "rem64 a b = (if b = 0 then None else Some (a mod b))"

text \<open>\<open>memcpy(dst + doff, src + soff, n)\<close>: undefined outside either array.\<close>

definition memcpy :: "'a list \<Rightarrow> nat \<Rightarrow> 'a list \<Rightarrow> nat \<Rightarrow> nat \<Rightarrow> 'a list option" where
  "memcpy dst doff src soff n =
     (if doff + n \<le> length dst \<and> soff + n \<le> length src
      then Some (take doff dst @ take n (drop soff src) @ drop (doff + n) dst)
      else None)"

lemma cpp_assert_True [simp]: "cpp_assert True = Some ()"
  by (simp add: cpp_assert_def)

lemma cpp_assert_False [simp]: "cpp_assert False = None"
  by (simp add: cpp_assert_def)

lemma rem64_pos [simp]: "0 < b \<Longrightarrow> rem64 a b = Some (a mod b)"
  by (simp add: rem64_def)

lemma rem64_zero [simp]: "rem64 a 0 = None"
  by (simp add: rem64_def)

lemma memcpy_Some:
  assumes "doff + n \<le> length dst" and "soff + n \<le> length src"
  obtains dst' where "memcpy dst doff src soff n = Some dst'"
    and "length dst' = length dst"
    and "\<And>i. i < length dst \<Longrightarrow>
      dst' ! i = (if doff \<le> i \<and> i < doff + n then src ! (soff + (i - doff)) else dst ! i)"
proof -
  let ?d = "take doff dst @ take n (drop soff src) @ drop (doff + n) dst"
  have "memcpy dst doff src soff n = Some ?d"
    using assms by (simp add: memcpy_def)
  moreover have "length ?d = length dst" using assms by simp
  moreover have "?d ! i = (if doff \<le> i \<and> i < doff + n then src ! (soff + (i - doff)) else dst ! i)"
    if "i < length dst" for i
    using that assms by (auto simp: nth_append min_absorb2 diff_diff_eq)
  ultimately show ?thesis by (rule that)
qed

section \<open>Ring buffers\<close>

text \<open>The \<open>n\<close> elements of a ring buffer from position \<open>start\<close> on.\<close>

definition ring_get :: "'a list \<Rightarrow> nat \<Rightarrow> nat \<Rightarrow> 'a list" where
  "ring_get buf start n = map (\<lambda>i. buf ! ((start + i) mod length buf)) [0..<n]"

text \<open>\<open>buf'\<close> is \<open>buf\<close> with the first \<open>n\<close> bytes of \<open>data\<close> stored from position \<open>pos\<close> on.\<close>

definition ring_stored :: "'a list \<Rightarrow> nat \<Rightarrow> 'a list \<Rightarrow> nat \<Rightarrow> 'a list \<Rightarrow> bool" where
  "ring_stored buf pos data n buf' \<longleftrightarrow> length buf' = length buf \<and>
     (\<forall>i < length buf. buf' ! ((pos + i) mod length buf) =
        (if i < n then data ! i else buf ! ((pos + i) mod length buf)))"

lemma length_ring_get [simp]: "length (ring_get buf start n) = n"
  by (simp add: ring_get_def)

lemma nth_ring_get [simp]:
  "i < n \<Longrightarrow> ring_get buf start n ! i = buf ! ((start + i) mod length buf)"
  by (simp add: ring_get_def)

lemma ring_get_0 [simp]: "ring_get buf start 0 = []"
  by (simp add: ring_get_def)

lemma take_ring_get: "take m (ring_get buf start n) = ring_get buf start (min m n)"
  by (rule nth_equalityI) auto

lemma drop_ring_get:
  "drop m (ring_get buf start n) = ring_get buf ((start + m) mod length buf) (n - m)"
  by (rule nth_equalityI) (auto simp: mod_simps add.assoc)

lemma ring_get_start_mod: "ring_get buf (start mod length buf) n = ring_get buf start n"
  by (rule nth_equalityI) (auto simp: mod_simps)

lemma ring_mod:
  "p < c \<Longrightarrow> i < c \<Longrightarrow> (p + i) mod c = (if p + i < c then p + i else p + i - (c::nat))"
  by (auto simp: mod_if)

text \<open>A copy that does not pass the end of the array.\<close>

lemma ring_store_one:
  assumes "pos < length buf" and "pos + n \<le> length buf" and "n \<le> length data"
  obtains buf' where "memcpy buf pos data 0 n = Some buf'" and "ring_stored buf pos data n buf'"
proof -
  have "0 + n \<le> length data" using assms by simp
  with assms(2) obtain b where b: "memcpy buf pos data 0 n = Some b" "length b = length buf"
    "\<And>i. i < length buf \<Longrightarrow>
      b ! i = (if pos \<le> i \<and> i < pos + n then data ! (0 + (i - pos)) else buf ! i)"
    by (rule memcpy_Some) blast
  have "b ! ((pos + i) mod length buf) =
      (if i < n then data ! i else buf ! ((pos + i) mod length buf))" if "i < length buf" for i
    using that assms b(3) [of "(pos + i) mod length buf"] by (auto simp: ring_mod)
  with b(1,2) show ?thesis by (intro that [of b]) (auto simp: ring_stored_def)
qed

text \<open>A copy in two parts: up to the end of the array, then on from its beginning.\<close>

lemma ring_store_two:
  assumes "pos < length buf" and "length buf < pos + n" and "n \<le> length buf" and "n \<le> length data"
  obtains b1 b2 where "memcpy buf pos data 0 (length buf - pos) = Some b1"
    and "memcpy b1 0 data (length buf - pos) (n - (length buf - pos)) = Some b2"
    and "ring_stored buf pos data n b2"
proof -
  let ?c = "length buf - pos"
  have "pos + ?c \<le> length buf" and "0 + ?c \<le> length data" using assms by auto
  then obtain b1 where b1: "memcpy buf pos data 0 ?c = Some b1" "length b1 = length buf"
    "\<And>i. i < length buf \<Longrightarrow>
      b1 ! i = (if pos \<le> i \<and> i < pos + ?c then data ! (0 + (i - pos)) else buf ! i)"
    by (rule memcpy_Some) blast
  have "0 + (n - ?c) \<le> length b1" and "?c + (n - ?c) \<le> length data" using assms b1(2) by auto
  then obtain b2 where b2: "memcpy b1 0 data ?c (n - ?c) = Some b2" "length b2 = length b1"
    "\<And>i. i < length b1 \<Longrightarrow>
      b2 ! i = (if 0 \<le> i \<and> i < 0 + (n - ?c) then data ! (?c + (i - 0)) else b1 ! i)"
    by (rule memcpy_Some) blast
  have "b2 ! ((pos + i) mod length buf) =
      (if i < n then data ! i else buf ! ((pos + i) mod length buf))" if i: "i < length buf" for i
  proof (cases "pos + i < length buf")
    case True
    then show ?thesis using assms i b1(2) b1(3) [of "pos + i"] b2(3) [of "pos + i"] by auto
  next
    case False
    then have "(pos + i) mod length buf = pos + i - length buf"
      using assms i by (simp add: ring_mod)
    then show ?thesis using False assms i b1(2) b1(3) [of "pos + i - length buf"]
        b2(3) [of "pos + i - length buf"] by auto
  qed
  with b1 b2 show ?thesis by (intro that [of b1 b2]) (auto simp: ring_stored_def)
qed

text \<open>A read in the same two shapes.\<close>

lemma ring_load_one:
  assumes "pos + n \<le> length buf" and "length dst = n"
  shows "memcpy dst 0 buf pos n = Some (ring_get buf pos n)"
proof -
  have "take n (drop pos buf) = ring_get buf pos n"
    using assms by (intro nth_equalityI) auto
  with assms show ?thesis by (simp add: memcpy_def)
qed

lemma ring_load_two:
  assumes "pos < length buf" and "length buf < pos + n" and "n \<le> length buf" and "length dst = n"
  obtains d where "memcpy dst 0 buf pos (length buf - pos) = Some d"
    and "memcpy d (length buf - pos) buf 0 (n - (length buf - pos)) = Some (ring_get buf pos n)"
proof -
  let ?c = "length buf - pos"
  let ?d = "drop pos buf @ drop ?c dst"
  have "memcpy dst 0 buf pos ?c = Some ?d"
    using assms by (simp add: memcpy_def)
  moreover have "drop pos buf @ take (n - ?c) buf = ring_get buf pos n"
    using assms by (intro nth_equalityI) (auto simp: nth_append ring_mod add.commute)
  with assms have "memcpy ?d ?c buf 0 (n - ?c) = Some (ring_get buf pos n)"
    by (simp add: memcpy_def)
  ultimately show ?thesis by (rule that)
qed

text \<open>Storing right after the used part of a ring appends to what is held.\<close>

lemma ring_stored_nth:
  assumes "ring_stored buf pos data n buf'" and "j < length buf"
  shows "buf' ! ((pos + j) mod length buf) =
    (if j < n then data ! j else buf ! ((pos + j) mod length buf))"
  using assms by (simp add: ring_stored_def)

lemma ring_stored_length: "ring_stored buf pos data n buf' \<Longrightarrow> length buf' = length buf"
  by (simp add: ring_stored_def)

lemma ring_get_append:
  assumes st: "ring_stored buf ((start + used) mod length buf) data n buf'"
    and "used + n \<le> length buf" and "n \<le> length data"
  shows "ring_get buf' start (used + n) = ring_get buf start used @ take n data"
proof (rule nth_equalityI)
  show "length (ring_get buf' start (used + n)) = length (ring_get buf start used @ take n data)"
    using assms by simp
  fix i assume "i < length (ring_get buf' start (used + n))"
  then have i: "i < used + n" by simp
  show "ring_get buf' start (used + n) ! i = (ring_get buf start used @ take n data) ! i"
  proof (cases "i < used")
    case True
    define j where "j = length buf - used + i"
    have j: "j < length buf" "\<not> j < n" using True assms(2) by (auto simp: j_def)
    have "((start + used) mod length buf + j) mod length buf = (start + used + j) mod length buf"
      by (simp add: mod_simps)
    also have "start + used + j = start + i + length buf" using True assms(2) by (simp add: j_def)
    finally have "((start + used) mod length buf + j) mod length buf = (start + i) mod length buf"
      by simp
    then show ?thesis
      using ring_stored_nth [OF st j(1)] j ring_stored_length [OF st] True i
      by (simp add: nth_append)
  next
    case False
    define j where "j = i - used"
    have j: "j < length buf" "j < n" "i = used + j" using False i assms(2) by (auto simp: j_def)
    have "((start + used) mod length buf + j) mod length buf = (start + i) mod length buf"
      using j(3) by (simp add: mod_add_left_eq add.assoc)
    then show ?thesis
      using ring_stored_nth [OF st j(1)] j ring_stored_length [OF st] assms(3)
      by (simp add: nth_append)
  qed
qed

text \<open>The copies as the code writes them, one \<open>memcpy\<close> or two.\<close>

lemma ring_copy_in:
  assumes "pos < length buf" and "n \<le> length buf" and "n \<le> length data" and "length buf < 2 ^ 63"
  obtains buf' where "(if add64 pos n \<le> length buf then memcpy buf pos data 0 n
      else (let copy1 = sub64 (length buf) pos in do {
        b \<leftarrow> memcpy buf pos data 0 copy1;
        memcpy b 0 data copy1 (sub64 n copy1)
      })) = Some buf'" and "ring_stored buf pos data n buf'"
proof (cases "pos + n \<le> length buf")
  case True
  then obtain b where "memcpy buf pos data 0 n = Some b" "ring_stored buf pos data n b"
    using ring_store_one [of pos buf n data] assms by auto
  with True assms show ?thesis by (intro that [of b]) (simp_all add: add64_exact)
next
  case False
  have "add64 pos n = pos + n" using assms by (intro add64_exact) simp
  moreover have "sub64 (length buf) pos = length buf - pos" using assms by (intro sub64_exact) auto
  moreover have "sub64 n (length buf - pos) = n - (length buf - pos)"
    using False assms by (intro sub64_exact) auto
  moreover obtain b1 b2 where "memcpy buf pos data 0 (length buf - pos) = Some b1"
    "memcpy b1 0 data (length buf - pos) (n - (length buf - pos)) = Some b2"
    "ring_stored buf pos data n b2"
    using ring_store_two [of pos buf n data] False assms by (auto simp: not_le)
  ultimately show ?thesis using False by (intro that [of b2]) auto
qed

lemma ring_copy_out:
  assumes "pos \<le> length buf" and "n \<le> length buf" and "length dst = n" and "length buf < 2 ^ 63"
  shows "(if add64 pos n \<le> length buf then memcpy dst 0 buf pos n
      else (let copy1 = sub64 (length buf) pos in do {
        d \<leftarrow> memcpy dst 0 buf pos copy1;
        memcpy d copy1 buf 0 (sub64 n copy1)
      })) = Some (ring_get buf pos n)"
proof (cases "pos + n \<le> length buf")
  case True
  then show ?thesis using ring_load_one [of pos n buf dst] assms by (simp add: add64_exact)
next
  case False
  have "add64 pos n = pos + n" using assms by (intro add64_exact) simp
  moreover have "sub64 (length buf) pos = length buf - pos" using assms by (intro sub64_exact) auto
  moreover have "sub64 n (length buf - pos) = n - (length buf - pos)"
    using False assms by (intro sub64_exact) auto
  moreover obtain d where "memcpy dst 0 buf pos (length buf - pos) = Some d"
    "memcpy d (length buf - pos) buf 0 (n - (length buf - pos)) = Some (ring_get buf pos n)"
  proof (cases "pos < length buf")
    case True
    then show ?thesis using that ring_load_two [of pos buf n dst] False assms by (auto simp: not_le)
  next
    case False
    then have "memcpy dst 0 buf pos (length buf - pos) = Some dst"
      "memcpy dst (length buf - pos) buf 0 (n - (length buf - pos)) = Some (ring_get buf pos n)"
      using ring_load_one [of 0 n buf dst] ring_get_start_mod [of buf pos n] assms
      by (auto simp: memcpy_def)
    then show ?thesis by (rule that)
  qed
  ultimately show ?thesis using False by simp
qed

text \<open>What a store at offset \<open>off\<close> from \<open>start\<close> leaves at every offset.\<close>

lemma ring_stored_offset:
  assumes st: "ring_stored buf ((start + off) mod length buf) data n buf'"
    and "off + n \<le> length buf" and "x < length buf"
  shows "buf' ! ((start + x) mod length buf) =
    (if off \<le> x \<and> x < off + n then data ! (x - off) else buf ! ((start + x) mod length buf))"
proof -
  define j where "j = (if off \<le> x then x - off else length buf - (off - x))"
  have j: "j < length buf" using assms by (auto simp: j_def)
  have "(start + off + j) mod length buf = (start + x) mod length buf"
  proof (cases "off \<le> x")
    case False
    then have "start + off + j = start + x + length buf" using assms by (simp add: j_def)
    then show ?thesis by (metis mod_add_self2)
  qed (simp add: j_def)
  then have "((start + off) mod length buf + j) mod length buf = (start + x) mod length buf"
    by (simp add: mod_add_left_eq)
  then show ?thesis using ring_stored_nth [OF st j] assms by (auto simp: j_def)
qed

section \<open>Evaluation on concrete inputs\<close>

text \<open>The continuation of a call is not touched before the result of the call is known.\<close>

lemma bind_weak_cong: "x = y \<Longrightarrow> Option.bind x f = Option.bind y f"
  by simp

lemma map_option_weak_cong: "x = y \<Longrightarrow> map_option f x = map_option f y"
  by simp

lemmas eval_cong = bind_weak_cong map_option_weak_cong let_weak_cong prod.case_cong_weak

lemma replicate_numeral: "replicate (numeral k) x = x # replicate (numeral k - 1) x"
  by (metis Suc_diff_1 replicate_Suc zero_less_numeral)

lemma upt_0_numeral: "[0..<numeral k] = 0 # [1..<numeral k]"
  by (simp add: upt_rec [of 0])

lemma upt_1_numeral: "[Suc 0..<numeral k] = (if k = Num.One then [] else Suc 0 # [2..<numeral k])"
  by (cases k) (auto simp: upt_rec [of "Suc 0"] numeral_2_eq_2)

lemma neg_u32:
  "(- 1 :: u32) = 4294967295" "(- numeral k :: u32) = of_int (4294967296 - numeral k)"
proof -
  have "(4294967296 :: u32) = 0" by simp
  then show "(- numeral k :: u32) = of_int (4294967296 - numeral k)"
    by (simp only: of_int_diff of_int_numeral diff_0)
qed simp

declare add64_def [sponge_eval] sub64_def [sponge_eval] mul64_def [sponge_eval] rem64_def [sponge_eval]
  cpp_assert_def [sponge_eval] memcpy_def [sponge_eval] ring_get_def [sponge_eval] Let_def [sponge_eval]
  replicate_numeral [sponge_eval] upt_0_numeral [sponge_eval] upt_1_numeral [sponge_eval] neg_u32 [sponge_eval]

section \<open>Components driven by events\<close>

text \<open>
  A component is run by a sequence of calls. \<open>run\<close> threads its state and stops at the
  first call without a defined result; \<open>guarded\<close> says that every call of the sequence
  meets the caller's obligation in the state it is made in.
\<close>

fun run :: "('s \<Rightarrow> 'e \<Rightarrow> 's option) \<Rightarrow> 's \<Rightarrow> 'e list \<Rightarrow> 's option" where
  "run step s [] = Some s"
| "run step s (e # es) = (case step s e of None \<Rightarrow> None | Some t \<Rightarrow> run step t es)"

fun guarded :: "('s \<Rightarrow> 'e \<Rightarrow> bool) \<Rightarrow> ('s \<Rightarrow> 'e \<Rightarrow> 's option) \<Rightarrow> 's \<Rightarrow> 'e list \<Rightarrow> bool" where
  "guarded guard step s [] = True"
| "guarded guard step s (e # es) =
     (guard s e \<and> (case step s e of None \<Rightarrow> True | Some t \<Rightarrow> guarded guard step t es))"

lemma run_append:
  "run step s (es @ fs) = Option.bind (run step s es) (\<lambda>t. run step t fs)"
  by (induction es arbitrary: s) (auto split: option.splits)

lemma guarded_appendD1: "guarded guard step s (es @ fs) \<Longrightarrow> guarded guard step s es"
  by (induction es arbitrary: s) (auto split: option.splits)

lemma guarded_appendD2:
  "guarded guard step s (es @ fs) \<Longrightarrow> run step s es = Some t \<Longrightarrow> guarded guard step t fs"
  by (induction es arbitrary: s) (auto split: option.splits)

lemma guarded_mono:
  "guarded g step s es \<Longrightarrow> (\<And>s e. g s e \<Longrightarrow> h s e) \<Longrightarrow> guarded h step s es"
  by (induction es arbitrary: s) (auto split: option.splits)

text \<open>
  The contract of such a component: from a state that satisfies the invariant, a call
  that meets its obligation returns, and the invariant holds again.
\<close>

locale machine =
  fixes step :: "'s \<Rightarrow> 'e \<Rightarrow> 's option"
    and inv :: "'s \<Rightarrow> bool"
    and guard :: "'s \<Rightarrow> 'e \<Rightarrow> bool"
  assumes step_progress: "inv s \<Longrightarrow> guard s e \<Longrightarrow> \<exists>t. step s e = Some t \<and> inv t"
begin

lemma run_progress:
  "inv s \<Longrightarrow> guarded guard step s es \<Longrightarrow> \<exists>t. run step s es = Some t \<and> inv t"
proof (induction es arbitrary: s)
  case Nil
  then show ?case by simp
next
  case (Cons e es)
  then obtain t where "step s e = Some t" and "inv t"
    using step_progress [of s e] by auto
  with Cons.prems(2) Cons.IH [of t] show ?case by simp
qed

lemma run_inv:
  "inv s \<Longrightarrow> guarded guard step s es \<Longrightarrow> run step s es = Some t \<Longrightarrow> inv t"
  using run_progress [of s es] by auto

end

text \<open>A relation between start and end that every call keeps is kept by the whole run.\<close>

locale monotone_machine = machine +
  fixes rel :: "'a \<Rightarrow> 'a \<Rightarrow> bool"
  assumes rel_refl: "rel s s"
    and rel_trans: "rel s t \<Longrightarrow> rel t u \<Longrightarrow> rel s u"
    and step_rel: "inv s \<Longrightarrow> guard s e \<Longrightarrow> step s e = Some t \<Longrightarrow> rel s t"
begin

lemma run_rel:
  "inv s \<Longrightarrow> guarded guard step s es \<Longrightarrow> run step s es = Some t \<Longrightarrow> rel s t"
proof (induction es arbitrary: s)
  case Nil
  then show ?case by (simp add: rel_refl)
next
  case (Cons e es)
  then obtain u where u: "step s e = Some u" "inv u"
    using step_progress [of s e] by auto
  with Cons have "rel u t" by simp
  moreover have "rel s u" using Cons.prems u(1) by (auto intro: step_rel)
  ultimately show ?case by (blast intro: rel_trans)
qed

end

end
