(* ===== verification/Buffers.thy ===== *)
theory Buffers
  imports Sponge_Prelude
begin

text \<open>
  Buffer, BufferList and BufferViewList (libsponge/util/buffer.hh, buffer.cc): strings that
  drop bytes from the front without a copy. A Buffer is its shared storage (\<open>None\<close> for the null
  pointer; the stored string is never changed, so sharing is not observable) and an offset. A
  view is the bytes it shows. The exceptions \<open>out_of_range\<close> and \<open>runtime_error\<close> are \<open>None\<close>.

  Every class is related to the byte list that it stands for: \<open>Buffer_str\<close>,
  \<open>BufferList_concatenate\<close> and \<open>concat\<close>.
\<close>

section \<open>Buffer\<close>

record Buffer =
  buf_storage :: "bytes option"
  buf_starting_offset :: u64

definition Buffer_empty :: Buffer where
  "Buffer_empty = \<lparr>buf_storage = None, buf_starting_offset = 0\<rparr>"

definition Buffer_init :: "bytes \<Rightarrow> Buffer" where
  "Buffer_init str = \<lparr>buf_storage = Some str, buf_starting_offset = 0\<rparr>"

definition Buffer_str :: "Buffer \<Rightarrow> bytes" where
  "Buffer_str b = (case buf_storage b of None \<Rightarrow> [] | Some st \<Rightarrow> drop (buf_starting_offset b) st)"

definition Buffer_at :: "Buffer \<Rightarrow> u64 \<Rightarrow> u8 option" where
  "Buffer_at b n = (if n < length (Buffer_str b) then Some (Buffer_str b ! n) else None)"

definition Buffer_size :: "Buffer \<Rightarrow> u64" where
  "Buffer_size b = length (Buffer_str b)"

definition Buffer_copy :: "Buffer \<Rightarrow> bytes" where
  "Buffer_copy b = Buffer_str b"

definition Buffer_remove_prefix :: "u64 \<Rightarrow> Buffer \<Rightarrow> Buffer option" where
  "Buffer_remove_prefix n b =
     (if n > length (Buffer_str b) then None
      else (let off = add64 (buf_starting_offset b) n in
        Some (case buf_storage b of
            None \<Rightarrow> b\<lparr>buf_starting_offset := off\<rparr>
          | Some st \<Rightarrow> if off = length st then b\<lparr>buf_storage := None, buf_starting_offset := off\<rparr>
              else b\<lparr>buf_starting_offset := off\<rparr>)))"

section \<open>BufferList\<close>

record BufferList =
  bl_buffers :: "Buffer list"

definition BufferList_empty :: BufferList where
  "BufferList_empty = \<lparr>bl_buffers = []\<rparr>"

definition BufferList_of_Buffer :: "Buffer \<Rightarrow> BufferList" where
  "BufferList_of_Buffer b = \<lparr>bl_buffers = [b]\<rparr>"

definition BufferList_append :: "BufferList \<Rightarrow> BufferList \<Rightarrow> BufferList" where
  "BufferList_append l other = l\<lparr>bl_buffers := bl_buffers l @ bl_buffers other\<rparr>"

definition BufferList_of_string :: "bytes \<Rightarrow> BufferList" where
  "BufferList_of_string str =
     BufferList_append BufferList_empty (BufferList_of_Buffer (Buffer_init str))"

definition BufferList_to_Buffer :: "BufferList \<Rightarrow> Buffer option" where
  "BufferList_to_Buffer l =
     (case bl_buffers l of [] \<Rightarrow> Some Buffer_empty | [b] \<Rightarrow> Some b | _ \<Rightarrow> None)"

definition BufferList_concatenate :: "BufferList \<Rightarrow> bytes" where
  "BufferList_concatenate l = foldl (\<lambda>ret buf. ret @ Buffer_str buf) [] (bl_buffers l)"

definition BufferList_size :: "BufferList \<Rightarrow> u64" where
  "BufferList_size l = foldl (\<lambda>ret buf. add64 ret (Buffer_size buf)) 0 (bl_buffers l)"

fun buffers_remove_prefix :: "u64 \<Rightarrow> Buffer list \<Rightarrow> Buffer list option" where
  "buffers_remove_prefix n bs =
     (if n > 0 then (case bs of
          [] \<Rightarrow> None
        | b # rest \<Rightarrow>
            if n < length (Buffer_str b)
            then map_option (\<lambda>b'. b' # rest) (Buffer_remove_prefix n b)
            else buffers_remove_prefix (sub64 n (length (Buffer_str b))) rest)
      else Some bs)"

declare buffers_remove_prefix.simps [simp del]

definition BufferList_remove_prefix :: "u64 \<Rightarrow> BufferList \<Rightarrow> BufferList option" where
  "BufferList_remove_prefix n l =
     map_option (\<lambda>bs. l\<lparr>bl_buffers := bs\<rparr>) (buffers_remove_prefix n (bl_buffers l))"

section \<open>BufferViewList\<close>

record BufferViewList =
  bvl_views :: "bytes list"

definition BufferViewList_of_view :: "bytes \<Rightarrow> BufferViewList" where
  "BufferViewList_of_view str = \<lparr>bvl_views = [str]\<rparr>"

definition BufferViewList_of_BufferList :: "BufferList \<Rightarrow> BufferViewList" where
  "BufferViewList_of_BufferList buffers = \<lparr>bvl_views = map Buffer_str (bl_buffers buffers)\<rparr>"

fun views_remove_prefix :: "u64 \<Rightarrow> bytes list \<Rightarrow> bytes list option" where
  "views_remove_prefix n vs =
     (if n > 0 then (case vs of
          [] \<Rightarrow> None
        | v # rest \<Rightarrow> if n < length v then Some (drop n v # rest)
            else views_remove_prefix (sub64 n (length v)) rest)
      else Some vs)"

declare views_remove_prefix.simps [simp del]

definition BufferViewList_remove_prefix :: "u64 \<Rightarrow> BufferViewList \<Rightarrow> BufferViewList option" where
  "BufferViewList_remove_prefix n l =
     map_option (\<lambda>vs. l\<lparr>bvl_views := vs\<rparr>) (views_remove_prefix n (bvl_views l))"

definition BufferViewList_size :: "BufferViewList \<Rightarrow> u64" where
  "BufferViewList_size l = foldl (\<lambda>ret buf. add64 ret (length buf)) 0 (bvl_views l)"

text \<open>An \<open>iovec\<close> is a pointer and a length: the bytes pointed to and their number.\<close>

definition BufferViewList_as_iovecs :: "BufferViewList \<Rightarrow> (bytes \<times> u64) list" where
  "BufferViewList_as_iovecs l = map (\<lambda>x. (x, length x)) (bvl_views l)"

declare Buffer_empty_def [sponge_eval] Buffer_init_def [sponge_eval] Buffer_str_def [sponge_eval]
  Buffer_at_def [sponge_eval] Buffer_size_def [sponge_eval] Buffer_copy_def [sponge_eval]
  Buffer_remove_prefix_def [sponge_eval] BufferList_empty_def [sponge_eval]
  BufferList_of_Buffer_def [sponge_eval] BufferList_append_def [sponge_eval]
  BufferList_of_string_def [sponge_eval] BufferList_to_Buffer_def [sponge_eval]
  BufferList_concatenate_def [sponge_eval] BufferList_size_def [sponge_eval]
  buffers_remove_prefix.simps [sponge_eval] BufferList_remove_prefix_def [sponge_eval]
  BufferViewList_of_view_def [sponge_eval] BufferViewList_of_BufferList_def [sponge_eval]
  views_remove_prefix.simps [sponge_eval] BufferViewList_remove_prefix_def [sponge_eval]
  BufferViewList_size_def [sponge_eval] BufferViewList_as_iovecs_def [sponge_eval]

section \<open>Strings that drop a prefix\<close>

text \<open>The contract of the three classes over the byte list they stand for. A client that
  writes a string out in pieces, and drops each piece after it was accepted, drops exactly what
  was accepted.\<close>

locale prefix_string =
  fixes ok :: "'a \<Rightarrow> bool"
    and str :: "'a \<Rightarrow> bytes"
    and remove_prefix :: "u64 \<Rightarrow> 'a \<Rightarrow> 'a option"
  assumes remove_in_range: "ok x \<Longrightarrow> n < 2 ^ 64 \<Longrightarrow> n \<le> length (str x) \<Longrightarrow>
      \<exists>y. remove_prefix n x = Some y \<and> ok y \<and> str y = drop n (str x)"
    and remove_out_of_range: "ok x \<Longrightarrow> n < 2 ^ 64 \<Longrightarrow> length (str x) < n \<Longrightarrow> remove_prefix n x = None"
begin

lemma remove_iff:
  assumes "ok x" and "n < 2 ^ 64"
  shows "remove_prefix n x \<noteq> None \<longleftrightarrow> n \<le> length (str x)"
  using remove_in_range [OF assms] remove_out_of_range [OF assms] by (cases "n \<le> length (str x)") auto

lemma remove_pieces:
  assumes "ok x" and "sum_list ns \<le> length (str x)" and "length (str x) < 2 ^ 64"
  shows "\<exists>y. run (\<lambda>x n. remove_prefix n x) x ns = Some y \<and> ok y \<and> str y = drop (sum_list ns) (str x)"
  using assms
proof (induction ns arbitrary: x)
  case (Cons n ns)
  have "\<exists>z. remove_prefix n x = Some z \<and> ok z \<and> str z = drop n (str x)"
    by (rule remove_in_range) (use Cons.prems in auto)
  then obtain z where z: "remove_prefix n x = Some z" "ok z" "str z = drop n (str x)" by blast
  have "\<exists>y. run (\<lambda>x n. remove_prefix n x) z ns = Some y \<and> ok y \<and> str y = drop (sum_list ns) (str z)"
    using z(2,3) Cons.prems by (intro Cons.IH) auto
  then show ?case using z(1,3) by (auto simp: add.commute)
qed simp

end

definition Buffer_ok :: "Buffer \<Rightarrow> bool" where
  "Buffer_ok b \<longleftrightarrow> (case buf_storage b of None \<Rightarrow> True
     | Some st \<Rightarrow> buf_starting_offset b \<le> length st \<and> length st < 2 ^ 63)"

lemma Buffer_init_simps [simp]:
  "Buffer_str (Buffer_init str) = str" "Buffer_str Buffer_empty = []"
  "Buffer_ok (Buffer_init str) \<longleftrightarrow> length str < 2 ^ 63" "Buffer_ok Buffer_empty"
  by (simp_all add: Buffer_init_def Buffer_empty_def Buffer_str_def Buffer_ok_def)

lemma Buffer_size_simps [simp]: "Buffer_size b = length (Buffer_str b)" "Buffer_copy b = Buffer_str b"
  by (simp_all add: Buffer_size_def Buffer_copy_def)

lemma Buffer_ok_length: "Buffer_ok b \<Longrightarrow> length (Buffer_str b) < 2 ^ 63"
  by (auto simp: Buffer_ok_def Buffer_str_def split: option.splits)

interpretation buffer: prefix_string Buffer_ok Buffer_str Buffer_remove_prefix
proof unfold_locales
  fix x n
  assume ok: "Buffer_ok x" and n: "n \<le> length (Buffer_str x)"
  show "\<exists>y. Buffer_remove_prefix n x = Some y \<and> Buffer_ok y \<and> Buffer_str y = drop n (Buffer_str x)"
  proof (cases "buf_storage x")
    case None
    then show ?thesis using n
      by (auto simp: Buffer_remove_prefix_def Buffer_str_def Buffer_ok_def)
  next
    case (Some st)
    then have "add64 (buf_starting_offset x) n = buf_starting_offset x + n"
      using ok n by (intro add64_exact) (auto simp: Buffer_ok_def Buffer_str_def)
    then show ?thesis using Some ok n
      by (auto simp: Buffer_remove_prefix_def Buffer_str_def Buffer_ok_def add.commute Let_def)
  qed
next
  fix x n
  assume "length (Buffer_str x) < n"
  then show "Buffer_remove_prefix n x = None" by (simp add: Buffer_remove_prefix_def)
qed

section \<open>Lists of strings\<close>

lemma concatenate_eq: "BufferList_concatenate l = concat (map Buffer_str (bl_buffers l))"
proof -
  have "foldl (\<lambda>ret buf. ret @ Buffer_str buf) a bs = a @ concat (map Buffer_str bs)" for a bs
    by (induction bs arbitrary: a) simp_all
  then show ?thesis by (simp add: BufferList_concatenate_def)
qed

lemma concatenate_simps [simp]:
  "BufferList_concatenate BufferList_empty = []"
  "BufferList_concatenate (BufferList_of_Buffer b) = Buffer_str b"
  "BufferList_concatenate (BufferList_of_string str) = str"
  "BufferList_concatenate (BufferList_append l m) = BufferList_concatenate l @ BufferList_concatenate m"
  by (simp_all add: concatenate_eq BufferList_empty_def BufferList_of_Buffer_def
    BufferList_of_string_def BufferList_append_def)

lemma sum_sizes:
  assumes "length (concat (map str xs)) < 2 ^ 64"
  shows "foldl (\<lambda>ret x. add64 ret (length (str x))) 0 xs = length (concat (map str xs))"
proof -
  have "foldl (\<lambda>ret x. add64 ret (length (str x))) a xs = a + length (concat (map str xs))"
    if "a + length (concat (map str xs)) < 2 ^ 64" for a
    using that by (induction xs arbitrary: a) (simp_all add: add64_exact)
  from this [of 0] assms show ?thesis by simp
qed

definition BufferList_ok :: "BufferList \<Rightarrow> bool" where
  "BufferList_ok l \<longleftrightarrow> (\<forall>b \<in> set (bl_buffers l). Buffer_ok b)"

lemma buffers_remove_prefix_spec:
  assumes "\<forall>b \<in> set bs. Buffer_ok b" and "n < 2 ^ 64" and "n \<le> length (concat (map Buffer_str bs))"
  shows "\<exists>cs. buffers_remove_prefix n bs = Some cs \<and> (\<forall>b \<in> set cs. Buffer_ok b) \<and>
    concat (map Buffer_str cs) = drop n (concat (map Buffer_str bs))"
  using assms
proof (induction n bs rule: buffers_remove_prefix.induct)
  case (1 n bs)
  show ?case
  proof (cases "n = 0 \<or> bs = []")
    case True
    then show ?thesis using "1.prems" by (auto simp: buffers_remove_prefix.simps)
  next
    case False
    then obtain b rest where bs: "bs = b # rest" by (cases bs) auto
    show ?thesis
    proof (cases "n < length (Buffer_str b)")
      case True
      then obtain c where "Buffer_remove_prefix n b = Some c" "Buffer_ok c"
        "Buffer_str c = drop n (Buffer_str b)"
        using buffer.remove_in_range [of b n] "1.prems" bs by auto
      then show ?thesis using True False "1.prems"(1) by (simp add: buffers_remove_prefix.simps bs)
    next
      case long: False
      have sub: "sub64 n (length (Buffer_str b)) = n - length (Buffer_str b)"
        using long "1.prems"(2) by (intro sub64_exact) auto
      have "\<exists>cs. buffers_remove_prefix (sub64 n (length (Buffer_str b))) rest = Some cs \<and>
          (\<forall>b \<in> set cs. Buffer_ok b) \<and>
          concat (map Buffer_str cs) = drop (sub64 n (length (Buffer_str b))) (concat (map Buffer_str rest))"
        using False long "1.prems" bs by (intro "1.IH") (auto simp: sub)
      then show ?thesis using False long by (simp add: buffers_remove_prefix.simps [of n "b # rest"] bs sub)
    qed
  qed
qed

lemma buffers_remove_prefix_None:
  "n < 2 ^ 64 \<Longrightarrow> length (concat (map Buffer_str bs)) < n \<Longrightarrow> buffers_remove_prefix n bs = None"
proof (induction bs arbitrary: n)
  case (Cons b bs)
  then have "sub64 n (length (Buffer_str b)) = n - length (Buffer_str b)" by (intro sub64_exact) auto
  with Cons show ?case by (subst buffers_remove_prefix.simps) auto
qed (simp add: buffers_remove_prefix.simps)

interpretation buffer_list: prefix_string BufferList_ok BufferList_concatenate BufferList_remove_prefix
proof unfold_locales
  fix l n
  assume "BufferList_ok l" "n < 2 ^ 64" "n \<le> length (BufferList_concatenate l)"
  then show "\<exists>y. BufferList_remove_prefix n l = Some y \<and> BufferList_ok y \<and>
      BufferList_concatenate y = drop n (BufferList_concatenate l)"
    using buffers_remove_prefix_spec [of "bl_buffers l" n]
    by (auto simp: BufferList_ok_def concatenate_eq BufferList_remove_prefix_def)
next
  fix l n
  assume "n < 2 ^ 64" "length (BufferList_concatenate l) < n"
  then show "BufferList_remove_prefix n l = None"
    using buffers_remove_prefix_None [of n "bl_buffers l"]
    by (simp add: concatenate_eq BufferList_remove_prefix_def)
qed

text \<open>The views of a BufferList drop a prefix as the BufferList itself does.\<close>

lemma views_remove_prefix_buffers:
  assumes "\<forall>b \<in> set bs. Buffer_ok b" and "n < 2 ^ 64"
  shows "views_remove_prefix n (map Buffer_str bs) = map_option (map Buffer_str) (buffers_remove_prefix n bs)"
  using assms
proof (induction bs arbitrary: n)
  case (Cons b bs)
  show ?case
  proof (cases "n < length (Buffer_str b)")
    case True
    then show ?thesis using buffer.remove_in_range [of b n] Cons.prems
      by (auto simp: views_remove_prefix.simps [of n] buffers_remove_prefix.simps [of n])
  next
    case False
    have "sub64 n (length (Buffer_str b)) < 2 ^ 64" by simp
    then show ?thesis using False Cons
      by (simp add: views_remove_prefix.simps [of n] buffers_remove_prefix.simps [of n])
  qed
qed (simp add: views_remove_prefix.simps buffers_remove_prefix.simps)

abbreviation views_str :: "BufferViewList \<Rightarrow> bytes" where
  "views_str l \<equiv> concat (bvl_views l)"

interpretation buffer_views: prefix_string
  "\<lambda>l. \<forall>v \<in> set (bvl_views l). length v < 2 ^ 63" views_str BufferViewList_remove_prefix
proof unfold_locales
  fix l :: BufferViewList and n :: nat
  let ?bs = "map Buffer_init (bvl_views l)"
  assume ok: "\<forall>v \<in> set (bvl_views l). length v < 2 ^ 63" and n: "n < 2 ^ 64"
  have bs: "\<forall>b \<in> set ?bs. Buffer_ok b" using ok by auto
  have v: "views_remove_prefix n (bvl_views l) = map_option (map Buffer_str) (buffers_remove_prefix n ?bs)"
    using views_remove_prefix_buffers [OF bs n] by (simp add: comp_def)
  show "\<exists>y. BufferViewList_remove_prefix n l = Some y \<and> (\<forall>v \<in> set (bvl_views y). length v < 2 ^ 63) \<and>
      views_str y = drop n (views_str l)" if le: "n \<le> length (views_str l)"
  proof -
    obtain cs where cs: "buffers_remove_prefix n ?bs = Some cs" "\<forall>b \<in> set cs. Buffer_ok b"
      "concat (map Buffer_str cs) = drop n (views_str l)"
      using buffers_remove_prefix_spec [OF bs n] le by (auto simp: comp_def)
    from cs(2) have "\<forall>b \<in> set cs. length (Buffer_str b) < 2 ^ 63" by (blast intro: Buffer_ok_length)
    with cs show ?thesis by (simp add: BufferViewList_remove_prefix_def v)
  qed
  show "BufferViewList_remove_prefix n l = None" if "length (views_str l) < n"
    using buffers_remove_prefix_None [OF n, of ?bs] that
    by (simp add: BufferViewList_remove_prefix_def v comp_def)
qed

section \<open>The property\<close>

text \<open>A list of buffers, and the list of views of it, drops exactly the first n bytes of its
  contents wherever the buffers begin and end, and throws when it holds fewer; its size is the
  number of bytes left.\<close>

theorem BufferList_remove_prefix_drops:
  assumes "\<forall>b \<in> set (bl_buffers l). Buffer_ok b" and "length (BufferList_concatenate l) < 2 ^ 64"
    and "n < 2 ^ 64"
  shows "if n \<le> length (BufferList_concatenate l)
    then (\<exists>m v. BufferList_remove_prefix n l = Some m \<and>
        BufferList_concatenate m = drop n (BufferList_concatenate l) \<and>
        BufferList_size m = length (BufferList_concatenate l) - n \<and>
        BufferViewList_remove_prefix n (BufferViewList_of_BufferList l) = Some v \<and>
        concat (map fst (BufferViewList_as_iovecs v)) = BufferList_concatenate m)
    else BufferList_remove_prefix n l = None \<and>
      BufferViewList_remove_prefix n (BufferViewList_of_BufferList l) = None"
proof -
  have ok: "BufferList_ok l" using assms(1) by (simp add: BufferList_ok_def)
  have v: "BufferViewList_remove_prefix n (BufferViewList_of_BufferList l) =
      map_option BufferViewList_of_BufferList (BufferList_remove_prefix n l)"
    using views_remove_prefix_buffers [OF assms(1,3)]
    by (simp add: BufferViewList_remove_prefix_def BufferViewList_of_BufferList_def
      BufferList_remove_prefix_def option.map_comp comp_def)
  show ?thesis
  proof (cases "n \<le> length (BufferList_concatenate l)")
    case True
    then obtain m where m: "BufferList_remove_prefix n l = Some m"
      "BufferList_concatenate m = drop n (BufferList_concatenate l)"
      using buffer_list.remove_in_range [OF ok assms(3)] by auto
    have "BufferList_size m = length (BufferList_concatenate m)"
      using assms(2) m(2) sum_sizes [of Buffer_str "bl_buffers m"]
      by (simp add: BufferList_size_def concatenate_eq)
    moreover have "map fst (BufferViewList_as_iovecs (BufferViewList_of_BufferList m)) = map Buffer_str (bl_buffers m)"
      by (simp add: BufferViewList_as_iovecs_def BufferViewList_of_BufferList_def)
    ultimately show ?thesis using True m by (simp add: v concatenate_eq)
  next
    case False
    then show ?thesis using buffer_list.remove_out_of_range [OF ok assms(3)] by (simp add: v)
  qed
qed

theorem BufferList_remove_prefix_drops_witness:
  "let l = BufferList_append (BufferList_of_string [1, 2]) (BufferList_of_string [3, 4, 5]) in
   if 3 \<le> length (BufferList_concatenate l)
    then (\<exists>m v. BufferList_remove_prefix 3 l = Some m \<and>
        BufferList_concatenate m = drop 3 (BufferList_concatenate l) \<and>
        BufferList_size m = length (BufferList_concatenate l) - 3 \<and>
        BufferViewList_remove_prefix 3 (BufferViewList_of_BufferList l) = Some v \<and>
        concat (map fst (BufferViewList_as_iovecs v)) = BufferList_concatenate m)
    else BufferList_remove_prefix 3 l = None \<and>
      BufferViewList_remove_prefix 3 (BufferViewList_of_BufferList l) = None"
  unfolding Let_def
  by (rule BufferList_remove_prefix_drops) (simp_all add: sponge_eval Buffer_ok_def)

end
