(* ===== verification/Net_Parser.thy ===== *)
theory Net_Parser
  imports Buffers
begin

unbundle bit_operations_syntax

text \<open>
  NetParser and NetUnparser (libsponge/util/parser.hh, parser.cc): integers in network byte
  order. The template parameter of \<open>_parse_int\<close> and \<open>_unparse_int\<close> is the word type.
  \<open>np_has p bs\<close> says that a parser without error has the bytes \<open>bs\<close> in front of it; reading an
  integer back from its unparsed bytes is a rule over this predicate.
\<close>

section \<open>The classes\<close>

datatype ParseResult = NoError | BadChecksum | PacketTooShort | WrongIPVersion | HeaderTooShort
  | TruncatedPacket | Unsupported

definition ParseResult_index :: "ParseResult \<Rightarrow> nat" where
  "ParseResult_index r = (case r of NoError \<Rightarrow> 0 | BadChecksum \<Rightarrow> 1 | PacketTooShort \<Rightarrow> 2
     | WrongIPVersion \<Rightarrow> 3 | HeaderTooShort \<Rightarrow> 4 | TruncatedPacket \<Rightarrow> 5 | Unsupported \<Rightarrow> 6)"

text \<open>An index outside the array of names is undefined.\<close>

definition as_string :: "ParseResult \<Rightarrow> string option" where
  "as_string r =
     (let names = [''NoError'', ''BadChecksum'', ''PacketTooShort'', ''WrongIPVersion'',
        ''HeaderTooShort'', ''TruncatedPacket'']; i = ParseResult_index r in
      if i < length names then Some (names ! i) else None)"

record NetParser =
  np_buffer :: Buffer
  np_error :: ParseResult

definition NetParser_init :: "Buffer \<Rightarrow> NetParser" where
  "NetParser_init buffer = \<lparr>np_buffer = buffer, np_error = NoError\<rparr>"

definition NetParser_set_error :: "ParseResult \<Rightarrow> NetParser \<Rightarrow> NetParser" where
  "NetParser_set_error res p = p\<lparr>np_error := res\<rparr>"

definition NetParser_error :: "NetParser \<Rightarrow> bool" where
  "NetParser_error p = (np_error p \<noteq> NoError)"

definition NetParser_check_size :: "u64 \<Rightarrow> NetParser \<Rightarrow> NetParser" where
  "NetParser_check_size n p =
     (if n > Buffer_size (np_buffer p) then NetParser_set_error PacketTooShort p else p)"

fun parse_int_loop :: "nat list \<Rightarrow> Buffer \<Rightarrow> 'a::len word \<Rightarrow> 'a word option" where
  "parse_int_loop [] b ret = Some ret"
| "parse_int_loop (i # is) b ret =
     Option.bind (Buffer_at b i) (\<lambda>c. parse_int_loop is b (push_bit 8 ret + ucast c))"

definition NetParser_parse_int :: "NetParser \<Rightarrow> ('a::len word \<times> NetParser) option" where
  "NetParser_parse_int p =
     (let len = LENGTH('a) div 8; p = NetParser_check_size len p in
      if NetParser_error p then Some (0, p)
      else do {
        ret \<leftarrow> parse_int_loop [0..<len] (np_buffer p) (0 :: 'a word);
        b \<leftarrow> Buffer_remove_prefix len (np_buffer p);
        Some (ret, p\<lparr>np_buffer := b\<rparr>)
      })"

definition NetParser_remove_prefix :: "u64 \<Rightarrow> NetParser \<Rightarrow> NetParser option" where
  "NetParser_remove_prefix n p =
     (let p = NetParser_check_size n p in
      if NetParser_error p then Some p
      else map_option (\<lambda>b. p\<lparr>np_buffer := b\<rparr>) (Buffer_remove_prefix n (np_buffer p)))"

definition NetParser_u32 :: "NetParser \<Rightarrow> (u32 \<times> NetParser) option" where
  "NetParser_u32 p = NetParser_parse_int p"

definition NetParser_u16 :: "NetParser \<Rightarrow> (u16 \<times> NetParser) option" where
  "NetParser_u16 p = NetParser_parse_int p"

definition NetParser_u8 :: "NetParser \<Rightarrow> (u8 \<times> NetParser) option" where
  "NetParser_u8 p = NetParser_parse_int p"

definition NetUnparser_unparse_int :: "bytes \<Rightarrow> 'a::len word \<Rightarrow> bytes" where
  "NetUnparser_unparse_int s val =
     (let len = LENGTH('a) div 8 in
      foldl (\<lambda>s i. s @ [ucast (drop_bit ((len - i - 1) * 8) val AND 0xff)]) s [0..<len])"

definition NetUnparser_u32 :: "bytes \<Rightarrow> u32 \<Rightarrow> bytes" where
  "NetUnparser_u32 s val = NetUnparser_unparse_int s val"

definition NetUnparser_u16 :: "bytes \<Rightarrow> u16 \<Rightarrow> bytes" where
  "NetUnparser_u16 s val = NetUnparser_unparse_int s val"

definition NetUnparser_u8 :: "bytes \<Rightarrow> u8 \<Rightarrow> bytes" where
  "NetUnparser_u8 s val = NetUnparser_unparse_int s val"

declare ParseResult_index_def [sponge_eval] as_string_def [sponge_eval] NetParser_init_def [sponge_eval]
  NetParser_set_error_def [sponge_eval] NetParser_error_def [sponge_eval]
  NetParser_check_size_def [sponge_eval] NetParser_parse_int_def [sponge_eval]
  NetParser_remove_prefix_def [sponge_eval] NetParser_u32_def [sponge_eval]
  NetParser_u16_def [sponge_eval] NetParser_u8_def [sponge_eval]
  NetUnparser_unparse_int_def [sponge_eval] NetUnparser_u32_def [sponge_eval]
  NetUnparser_u16_def [sponge_eval] NetUnparser_u8_def [sponge_eval]

section \<open>Big-endian numbers\<close>

text \<open>The number that a byte string stands for in network byte order.\<close>

definition be_nat :: "bytes \<Rightarrow> nat" where
  "be_nat = foldl (\<lambda>a b. a * 256 + unat b) 0"

definition be_bytes :: "'a::len word \<Rightarrow> bytes" where
  "be_bytes val = map (\<lambda>i. ucast (drop_bit ((LENGTH('a) div 8 - i - 1) * 8) val AND 0xff)) [0..<LENGTH('a) div 8]"

lemma unparse_int_eq: "NetUnparser_unparse_int s val = s @ be_bytes val"
proof -
  have "foldl (\<lambda>s i. s @ [f i]) s xs = s @ map f xs" for f :: "nat \<Rightarrow> u8" and xs s
    by (induction xs arbitrary: s) simp_all
  then show ?thesis by (simp add: NetUnparser_unparse_int_def be_bytes_def Let_def)
qed

lemma unparse_simps [simp]:
  "NetUnparser_u32 s v = s @ be_bytes v" "NetUnparser_u16 s w = s @ be_bytes w"
  "NetUnparser_u8 s x = s @ be_bytes x"
  by (simp_all add: NetUnparser_u32_def NetUnparser_u16_def NetUnparser_u8_def unparse_int_eq)

lemma length_be_bytes: "length (be_bytes (v :: 'a::len word)) = LENGTH('a) div 8"
  by (simp add: be_bytes_def)

lemma length_be_bytes_simps [simp]:
  "length (be_bytes (v :: u32)) = 4" "length (be_bytes (w :: u16)) = 2" "length (be_bytes (x :: u8)) = 1"
  by (simp_all add: length_be_bytes)

lemma be_byte:
  "unat (ucast (drop_bit n v AND 0xff) :: u8) = unat (v :: 'a::len word) div 2 ^ n mod 256"
proof -
  have "(0xff :: 'a word) = mask 8" by (simp add: mask_eq_exp_minus_1)
  then have "drop_bit n v AND 0xff = take_bit 8 (drop_bit n v)" by (simp only: take_bit_eq_mask)
  then have "ucast (drop_bit n v AND 0xff) = (ucast (drop_bit n v) :: u8)"
    by (intro bit_word_eqI) (auto simp: bit_simps dest: bit_imp_le_length)
  moreover have "unat (drop_bit n v) = unat v div 2 ^ n"
    unfolding unat_drop_bit_eq by (rule drop_bit_eq_div)
  ultimately show ?thesis by (simp add: unsigned_ucast_eq take_bit_eq_mod)
qed

lemma be_nat_snoc: "be_nat (bs @ [b]) = be_nat bs * 256 + unat b"
  by (simp add: be_nat_def)

lemma be_nat_be_bytes:
  assumes "8 dvd LENGTH('a)"
  shows "be_nat (be_bytes (v :: 'a::len word)) = unat v"
proof -
  let ?len = "LENGTH('a) div 8"
  let ?byte = "\<lambda>i. ucast (drop_bit ((?len - i - 1) * 8) v AND 0xff) :: u8"
  have "be_nat (map ?byte [0..<k]) = unat v div 2 ^ ((?len - k) * 8)" if "k \<le> ?len" for k
    using that
  proof (induction k)
    case 0
    have "unat v < 2 ^ (?len * 8)" using assms unsigned_less [of v] by simp
    then show ?case by (simp add: be_nat_def)
  next
    case (Suc k)
    define e where "e = (?len - k - 1) * 8"
    have "(?len - k) * 8 = e + 8" using Suc.prems by (simp add: e_def)
    then have "be_nat (map ?byte [0..<k]) = unat v div 2 ^ e div 256"
      using Suc by (simp add: power_add div_mult2_eq)
    then have "be_nat (map ?byte [0..<Suc k]) = unat v div 2 ^ e div 256 * 256 + unat v div 2 ^ e mod 256"
      unfolding e_def by (simp add: be_nat_snoc be_byte)
    then show ?case by (simp add: e_def)
  qed
  from this [of ?len] show ?thesis by (simp add: be_bytes_def)
qed

section \<open>Reading\<close>

lemma parse_int_loop_eq:
  "\<forall>i \<in> set is. i < length (Buffer_str b) \<Longrightarrow> parse_int_loop is b (of_nat a :: 'a::len word) =
    Some (of_nat (foldl (\<lambda>a b. a * 256 + unat b) a (map ((!) (Buffer_str b)) is)))"
proof (induction "is" arbitrary: a)
  case (Cons i "is")
  have "push_bit 8 (of_nat a :: 'a word) + ucast (Buffer_str b ! i) =
      of_nat (a * 256 + unat (Buffer_str b ! i))"
    by (simp add: push_bit_eq_mult unsigned_ucast_eq word_of_nat_eq_iff)
  then have "parse_int_loop (i # is) b (of_nat a :: 'a word) =
      parse_int_loop is b (of_nat (a * 256 + unat (Buffer_str b ! i)))"
    using Cons.prems by (simp only: parse_int_loop.simps Buffer_at_def) simp
  also have "\<dots> = Some (of_nat (foldl (\<lambda>a b. a * 256 + unat b) (a * 256 + unat (Buffer_str b ! i))
      (map ((!) (Buffer_str b)) is)))" using Cons.prems by (intro Cons.IH) simp
  finally show ?case by simp
qed simp

definition np_has :: "NetParser \<Rightarrow> bytes \<Rightarrow> bool" where
  "np_has p bs \<longleftrightarrow> Buffer_ok (np_buffer p) \<and> Buffer_str (np_buffer p) = bs \<and> np_error p = NoError"

lemma np_has_init [simp]: "np_has (NetParser_init b) bs \<longleftrightarrow> Buffer_ok b \<and> Buffer_str b = bs"
  by (simp add: np_has_def NetParser_init_def)

lemma np_has_remove:
  assumes "np_has p bs" and "n \<le> length bs"
  obtains q where "NetParser_remove_prefix n p = Some q" and "np_has q (drop n bs)"
    and "Buffer_remove_prefix n (np_buffer p) = Some (np_buffer q)" and "np_error q = NoError"
proof -
  have "length bs < 2 ^ 63" using assms(1) Buffer_ok_length by (auto simp: np_has_def)
  then obtain b where "Buffer_remove_prefix n (np_buffer p) = Some b" "Buffer_ok b" "Buffer_str b = drop n bs"
    using buffer.remove_in_range [of "np_buffer p" n] assms by (auto simp: np_has_def)
  then show ?thesis using assms
    by (intro that [of "p\<lparr>np_buffer := b\<rparr>"])
      (simp_all add: np_has_def NetParser_remove_prefix_def NetParser_check_size_def NetParser_error_def)
qed

lemma parse_int_has:
  assumes "np_has p bs" and "LENGTH('a) div 8 \<le> length bs"
  shows "\<exists>q. NetParser_parse_int p = Some (of_nat (be_nat (take (LENGTH('a) div 8) bs)) :: 'a::len word, q) \<and>
    np_has q (drop (LENGTH('a) div 8) bs)"
proof -
  let ?n = "LENGTH('a) div 8"
  obtain q where q: "NetParser_remove_prefix ?n p = Some q" "np_has q (drop ?n bs)"
    "Buffer_remove_prefix ?n (np_buffer p) = Some (np_buffer q)" "np_error q = NoError"
    by (rule np_has_remove [OF assms])
  have "p\<lparr>np_buffer := np_buffer q\<rparr> = q"
    using assms(1) q(4) by (cases p; cases q) (simp add: np_has_def)
  moreover have "map ((!) bs) [0..<?n] = take ?n bs" using assms(2) by (intro nth_equalityI) auto
  then have "parse_int_loop [0..<?n] (np_buffer p) (0 :: 'a word) = Some (of_nat (be_nat (take ?n bs)))"
    using parse_int_loop_eq [of "[0..<?n]" "np_buffer p" 0] assms by (simp add: np_has_def be_nat_def)
  ultimately show ?thesis using q assms
    by (simp add: NetParser_parse_int_def NetParser_check_size_def NetParser_error_def np_has_def)
qed

lemma np_reads:
  assumes "8 dvd LENGTH('a)" and "np_has p (be_bytes (v :: 'a::len word) @ rest)"
  shows "\<exists>q. NetParser_parse_int p = Some (v, q) \<and> np_has q rest"
  using parse_int_has [OF assms(2), where 'a = 'a]
  by (simp add: length_be_bytes be_nat_be_bytes [OF assms(1)])

text \<open>A read that fails returns 0, leaves the buffer alone and keeps the error.\<close>

lemma parse_int_error:
  assumes "np_error p \<noteq> NoError \<or> length (Buffer_str (np_buffer p)) < LENGTH('a) div 8"
  shows "\<exists>q. NetParser_parse_int p = Some (0 :: 'a::len word, q) \<and> np_buffer q = np_buffer p \<and>
    np_error q \<noteq> NoError \<and> (np_error p = NoError \<longrightarrow> np_error q = PacketTooShort)"
  using assms by (auto simp: NetParser_parse_int_def NetParser_check_size_def NetParser_error_def
    NetParser_set_error_def Let_def)

text \<open>Whatever the buffer holds, a read returns.\<close>

lemma parse_int_total:
  assumes "Buffer_ok (np_buffer p)"
  shows "\<exists>v q. NetParser_parse_int p = Some (v :: 'a::len word, q) \<and> Buffer_ok (np_buffer q)"
proof (cases "np_error p \<noteq> NoError \<or> length (Buffer_str (np_buffer p)) < LENGTH('a) div 8")
  case True
  from parse_int_error [OF this] show ?thesis using assms by force
next
  case False
  then have "np_has p (Buffer_str (np_buffer p))" using assms by (simp add: np_has_def)
  from parse_int_has [OF this, where 'a = 'a] False show ?thesis by (auto simp: np_has_def)
qed

section \<open>Rules for parsers\<close>

text \<open>\<open>succeeds r v rest\<close>: the run \<open>r\<close> returns \<open>v\<close> and leaves the bytes \<open>rest\<close> to a parser without
  error. The rules follow the reads of a parser one after the other.\<close>

definition succeeds :: "('v \<times> NetParser) option \<Rightarrow> 'v \<Rightarrow> bytes \<Rightarrow> bool" where
  "succeeds r v rest \<longleftrightarrow> (\<exists>q. r = Some (v, q) \<and> np_has q rest)"

lemma succeeds_return: "np_has p rest \<Longrightarrow> succeeds (Some (v, p)) v rest"
  by (simp add: succeeds_def)

lemma succeeds_observe:
  "succeeds r v rest \<Longrightarrow>
    map_option (\<lambda>(x, p). (x, Buffer_str (np_buffer p), np_error p)) r = Some (v, rest, NoError)"
  by (auto simp: succeeds_def np_has_def)

lemma succeeds_bind:
  assumes "succeeds m v mid" and "\<And>q. np_has q mid \<Longrightarrow> succeeds (f v q) w rest"
  shows "succeeds (Option.bind m (\<lambda>(v, q). f v q)) w rest"
  using assms by (auto simp: succeeds_def)

lemma succeeds_u32: "np_has p (be_bytes v @ rest) \<Longrightarrow> succeeds (NetParser_u32 p) v rest"
  using np_reads [of p v rest] by (simp add: succeeds_def NetParser_u32_def)

lemma succeeds_u16: "np_has p (be_bytes v @ rest) \<Longrightarrow> succeeds (NetParser_u16 p) v rest"
  using np_reads [of p v rest] by (simp add: succeeds_def NetParser_u16_def)

lemma succeeds_u8: "np_has p (be_bytes v @ rest) \<Longrightarrow> succeeds (NetParser_u8 p) v rest"
  using np_reads [of p v rest] by (simp add: succeeds_def NetParser_u8_def)

lemmas read_u32 = succeeds_bind [OF succeeds_u32]
lemmas read_u16 = succeeds_bind [OF succeeds_u16]
lemmas read_u8 = succeeds_bind [OF succeeds_u8]

lemma read_prefix:
  assumes "np_has p (xs @ rest)" and "n = length xs" and "\<And>q. np_has q rest \<Longrightarrow> succeeds (f q) w end"
  shows "succeeds (Option.bind (NetParser_remove_prefix n p) f) w end"
  using assms by (auto elim: np_has_remove [where n = n])

text \<open>Reading at position \<open>k\<close> of any bytes; \<open>be_at n k bs\<close> is the number in the \<open>n\<close> bytes there.\<close>

definition be_at :: "nat \<Rightarrow> nat \<Rightarrow> bytes \<Rightarrow> nat" where
  "be_at n k bs = be_nat (take n (drop k bs))"

lemma succeeds_at:
  assumes "np_has p (drop k bs)" and "k + LENGTH('a) div 8 \<le> length bs"
  shows "succeeds (NetParser_parse_int p) (of_nat (be_at (LENGTH('a) div 8) k bs) :: 'a::len word) (drop (k + LENGTH('a) div 8) bs)"
  using parse_int_has [OF assms(1), where 'a = 'a] assms(2) by (auto simp: succeeds_def be_at_def add.commute)

lemma at_u32:
  assumes "np_has p (drop k bs)" and "m = k + 4" and "m \<le> length bs" and "\<And>q. np_has q (drop m bs) \<Longrightarrow> succeeds (f (of_nat (be_at 4 k bs)) q) w rest"
  shows "succeeds (Option.bind (NetParser_u32 p) (\<lambda>(v, q). f v q)) w rest"
  unfolding NetParser_u32_def using assms succeeds_at [of p k bs, where 'a = 32] by (intro succeeds_bind) auto

lemma at_u16:
  assumes "np_has p (drop k bs)" and "m = k + 2" and "m \<le> length bs" and "\<And>q. np_has q (drop m bs) \<Longrightarrow> succeeds (f (of_nat (be_at 2 k bs)) q) w rest"
  shows "succeeds (Option.bind (NetParser_u16 p) (\<lambda>(v, q). f v q)) w rest"
  unfolding NetParser_u16_def using assms succeeds_at [of p k bs, where 'a = 16] by (intro succeeds_bind) auto

lemma at_u8:
  assumes "np_has p (drop k bs)" and "m = k + 1" and "m \<le> length bs" and "\<And>q. np_has q (drop m bs) \<Longrightarrow> succeeds (f (of_nat (be_at 1 k bs)) q) w rest"
  shows "succeeds (Option.bind (NetParser_u8 p) (\<lambda>(v, q). f v q)) w rest"
  unfolding NetParser_u8_def using assms succeeds_at [of p k bs, where 'a = 8] by (intro succeeds_bind) auto

section \<open>The properties\<close>

text \<open>An integer of 8, 16 or 32 bits is parsed back from the bytes it is unparsed to, most
  significant byte first, and the parser is left behind them.\<close>

theorem NetParser_unparse_roundtrip:
  assumes "length rest < 2 ^ 62"
  shows "map_option (\<lambda>(x, p). (x, Buffer_str (np_buffer p), np_error p))
      (NetParser_u32 (NetParser_init (Buffer_init (NetUnparser_u32 [] v @ rest)))) = Some (v, rest, NoError) \<and>
    map_option (\<lambda>(x, p). (x, Buffer_str (np_buffer p), np_error p))
      (NetParser_u16 (NetParser_init (Buffer_init (NetUnparser_u16 [] w @ rest)))) = Some (w, rest, NoError) \<and>
    map_option (\<lambda>(x, p). (x, Buffer_str (np_buffer p), np_error p))
      (NetParser_u8 (NetParser_init (Buffer_init (NetUnparser_u8 [] b @ rest)))) = Some (b, rest, NoError) \<and>
    be_nat (NetUnparser_u32 [] v) = unat v"
  using assms
  by (intro conjI succeeds_observe succeeds_u32 succeeds_u16 succeeds_u8) (simp_all add: be_nat_be_bytes)

theorem NetParser_unparse_roundtrip_witness:
  "map_option (\<lambda>(x, p). (x, Buffer_str (np_buffer p), np_error p))
      (NetParser_u32 (NetParser_init (Buffer_init (NetUnparser_u32 [] 0x01020304 @ [9])))) =
      Some (0x01020304, [9], NoError)"
  using NetParser_unparse_roundtrip [of "[9]" "0x01020304"] by simp

text \<open>The name of a parse result: \<open>as_string\<close> has no name for \<open>Unsupported\<close>, and reads
  past the end of its array.\<close>

theorem as_string_Unsupported: "as_string r = None \<longleftrightarrow> r = Unsupported"
  by (cases r) (simp_all add: sponge_eval)

end
