(* ===== verification/Wrapping_Integers.thy ===== *)
theory Wrapping_Integers
  imports Sponge_Prelude
begin

text \<open>
  WrappingInt32 (libsponge/wrapping\_integers.hh, wrapping\_integers.cc): 32-bit sequence
  numbers relative to an initial sequence number, and their translation to and from absolute
  64-bit sequence numbers. \<open>wi_diff\<close>, \<open>wi_plus\<close> and \<open>wi_minus\<close> are the overloaded operators of
  the header.
\<close>

section \<open>The functions\<close>

datatype WrappingInt32 = WrappingInt32 (raw_value: u32)

definition wi_diff :: "WrappingInt32 \<Rightarrow> WrappingInt32 \<Rightarrow> int" where
  "wi_diff a b = sint (raw_value a - raw_value b)"

definition wi_plus :: "WrappingInt32 \<Rightarrow> u32 \<Rightarrow> WrappingInt32" where
  "wi_plus a b = WrappingInt32 (raw_value a + b)"

definition wi_minus :: "WrappingInt32 \<Rightarrow> u32 \<Rightarrow> WrappingInt32" where
  "wi_minus a b = wi_plus a (- b)"

definition wrap :: "u64 \<Rightarrow> WrappingInt32 \<Rightarrow> WrappingInt32" where
  "wrap n isn = wi_plus isn (of_nat n)"

definition unwrap :: "WrappingInt32 \<Rightarrow> WrappingInt32 \<Rightarrow> u64 \<Rightarrow> u64" where
  "unwrap n isn checkpoint =
     (let cp = wrap checkpoint isn;
          (diff_p, diff_n) = (if raw_value cp < raw_value n
            then (of_int (wi_diff n cp), (- 1) - raw_value n + raw_value cp + 1)
            else ((- 1) - raw_value cp + raw_value n + 1, of_int (wi_diff cp n) :: u32)) in
      if diff_p < diff_n \<or> checkpoint < unat diff_n then add64 checkpoint (unat diff_p)
      else sub64 checkpoint (unat diff_n))"

declare wi_diff_def [sponge_eval] wi_plus_def [sponge_eval] wi_minus_def [sponge_eval]
  wrap_def [sponge_eval] unwrap_def [sponge_eval]

section \<open>Offsets\<close>

lemma raw_wrap [simp]: "raw_value (wrap n isn) = raw_value isn + of_nat n"
  by (simp add: wrap_def wi_plus_def)

lemma wrap_eq_iff: "wrap a isn = wrap b isn \<longleftrightarrow> a mod 2 ^ 32 = b mod 2 ^ 32"
  by (simp add: wrap_def wi_plus_def word_of_nat_eq_iff take_bit_eq_mod)

lemma wrap_add64 [simp]: "wrap (add64 a b) isn = wrap (a + b) isn"
  unfolding wrap_eq_iff add64_def by (simp add: mod_mod_cancel)

lemma wrap_plus: "wi_plus (wrap a isn) (of_nat b) = wrap (a + b) isn"
  by (simp add: wrap_def wi_plus_def)

text \<open>Both branches compute the distance up and the distance down modulo 2 to the 32.\<close>

definition offset :: "WrappingInt32 \<Rightarrow> WrappingInt32 \<Rightarrow> u64 \<Rightarrow> nat" where
  "offset n isn checkpoint = unat (raw_value n - raw_value (wrap checkpoint isn))"

lemma offset_less: "offset n isn checkpoint < 2 ^ 32"
  unfolding offset_def by (rule order_less_le_trans [OF unsigned_less]) simp

lemma unat_neg: "unat (- d) = (if d = 0 then 0 else 2 ^ 32 - unat d)" for d :: u32
  using unat_sub_if' [of 0 d] by (auto simp: unat_eq_zero)

lemma unwrap_offset:
  assumes "checkpoint < 2 ^ 64"
  shows "unwrap n isn checkpoint =
    (let d = offset n isn checkpoint in
     if d = 0 then checkpoint
     else if d < 2 ^ 31 \<or> checkpoint < 2 ^ 32 - d then add64 checkpoint d
     else checkpoint - (2 ^ 32 - d))"
proof -
  define d where "d = raw_value n - raw_value (wrap checkpoint isn)"
  have p: "(- 1) - raw_value (wrap checkpoint isn) + raw_value n + 1 = d"
    and m: "(- 1) - raw_value n + raw_value (wrap checkpoint isn) + 1 = - d"
    and i: "of_int (wi_diff n (wrap checkpoint isn)) = d"
    and j: "of_int (wi_diff (wrap checkpoint isn) n) = - d"
    by (simp_all add: d_def wi_diff_def)
  have "unwrap n isn checkpoint = (if d < - d \<or> checkpoint < unat (- d)
      then add64 checkpoint (unat d) else sub64 checkpoint (unat (- d)))"
    unfolding unwrap_def Let_def p m i j by simp
  moreover have "unat d < 2 ^ 32" using offset_less unfolding offset_def d_def .
  moreover have "d = 0 \<longleftrightarrow> unat d = 0" by (simp add: unat_eq_zero)
  ultimately show ?thesis using assms unfolding offset_def d_def [symmetric] Let_def
    by (auto simp: word_less_nat_alt unat_neg sub64_exact)
qed

lemma unwrap_cases:
  assumes "checkpoint < 2 ^ 64"
  obtains (exact) "offset n isn checkpoint = 0" "unwrap n isn checkpoint = checkpoint"
  | (up) "0 < offset n isn checkpoint"
      "offset n isn checkpoint < 2 ^ 31 \<or> checkpoint < 2 ^ 32 - offset n isn checkpoint"
      "unwrap n isn checkpoint = add64 checkpoint (offset n isn checkpoint)"
  | (down) "2 ^ 31 \<le> offset n isn checkpoint" "2 ^ 32 - offset n isn checkpoint \<le> checkpoint"
      "unwrap n isn checkpoint = checkpoint - (2 ^ 32 - offset n isn checkpoint)"
  using unwrap_offset [OF assms, of n isn] unfolding Let_def
  by (auto split: if_splits simp: not_less)

lemma wrap_offset: "wrap (checkpoint + offset n isn checkpoint) isn = n"
  by (cases n) (simp add: wrap_def wi_plus_def offset_def)

lemma offset_wrap:
  "(checkpoint + offset (wrap x isn) isn checkpoint) mod 2 ^ 32 = x mod 2 ^ 32"
  using wrap_offset [of checkpoint "wrap x isn" isn] unfolding wrap_eq_iff .

text \<open>Any other number that wraps alike lies a multiple of 2 to the 32 away.\<close>

lemma same_wrap_distance:
  assumes "wrap x isn = n"
  obtains k :: int where "int x = int checkpoint + int (offset n isn checkpoint) + k * 2 ^ 32"
proof -
  have "x mod 2 ^ 32 = (checkpoint + offset n isn checkpoint) mod 2 ^ 32"
    using assms offset_wrap [of checkpoint x isn] by simp
  then have "int x mod 2 ^ 32 = (int checkpoint + int (offset n isn checkpoint)) mod 2 ^ 32"
    by (metis of_nat_add of_nat_mod of_nat_numeral of_nat_power)
  then have "(2 ^ 32 :: int) dvd int x - (int checkpoint + int (offset n isn checkpoint))"
    by (simp add: mod_eq_dvd_iff)
  then obtain k where "int x - (int checkpoint + int (offset n isn checkpoint)) = 2 ^ 32 * k" ..
  then show ?thesis by (intro that [of k]) simp
qed

lemma unwrap_wrap_near:
  assumes "x < 2 ^ 64" and "checkpoint < 2 ^ 64" and "\<bar>int x - int checkpoint\<bar> < 2 ^ 31"
  shows "unwrap (wrap x isn) isn checkpoint = x"
proof -
  let ?d = "offset (wrap x isn) isn checkpoint"
  obtain k where k: "int x = int checkpoint + int ?d + k * 2 ^ 32" using refl by (rule same_wrap_distance)
  have d: "?d < 2 ^ 32" by (rule offset_less)
  have k0: "k = 0" if "?d < 2 ^ 31" using that k assms(3) by auto
  have k1: "k = - 1" if "2 ^ 31 \<le> ?d" using that k assms(3) d by auto
  show ?thesis
  proof (cases rule: unwrap_cases [OF assms(2), of "wrap x isn" isn, case_names exact up down])
    case exact
    then show ?thesis using k k0 by simp
  next
    case up
    have "?d < 2 ^ 31" using up(2) k k1 by (cases "?d < 2 ^ 31") auto
    then have "x = checkpoint + ?d" using k k0 by simp
    then show ?thesis using up(3) assms(1) by (simp add: add64_exact)
  next
    case down
    then show ?thesis using k k1 d by simp
  qed
qed

section \<open>The properties\<close>

text \<open>C13. The absolute number that \<open>unwrap\<close> returns wraps to the number it was given, and below
  2 to the 64 minus 2 to the 31 no other 64-bit number that does is closer to the checkpoint.\<close>

theorem unwrap_closest:
  assumes "checkpoint < 2 ^ 64"
  shows "wrap (unwrap n isn checkpoint) isn = n \<and> unwrap n isn checkpoint < 2 ^ 64 \<and>
    (checkpoint < 2 ^ 64 - 2 ^ 31 \<longrightarrow> (\<forall>x. wrap x isn = n \<longrightarrow>
       \<bar>int (unwrap n isn checkpoint) - int checkpoint\<bar> \<le> \<bar>int x - int checkpoint\<bar>))"
proof (cases rule: unwrap_cases [OF assms, of n isn, case_names exact up down])
  case exact
  then show ?thesis using wrap_offset [of checkpoint n isn] assms by simp
next
  case up
  let ?d = "offset n isn checkpoint"
  have "\<bar>int ?d\<bar> \<le> \<bar>int x - int checkpoint\<bar>" if "wrap x isn = n" for x
  proof -
    obtain k where k: "int x = int checkpoint + int ?d + k * 2 ^ 32" using \<open>wrap x isn = n\<close>
      by (rule same_wrap_distance)
    show ?thesis using k up(2) offset_less [of n isn checkpoint]
      by (cases "k \<ge> 0"; cases "?d < 2 ^ 31") auto
  qed
  moreover have "?d < 2 ^ 31 \<or> checkpoint < 2 ^ 32" using up(2) by auto
  then have "add64 checkpoint ?d = checkpoint + ?d" if "checkpoint < 2 ^ 64 - 2 ^ 31"
    using that offset_less [of n isn checkpoint] by (intro add64_exact) auto
  ultimately show ?thesis using wrap_offset [of checkpoint n isn] unfolding up(3) by auto
next
  case down
  let ?d = "offset n isn checkpoint"
  have w: "wrap (checkpoint - (2 ^ 32 - ?d)) isn = wrap (checkpoint - (2 ^ 32 - ?d) + 2 ^ 32) isn"
    unfolding wrap_eq_iff by simp
  have "checkpoint - (2 ^ 32 - ?d) + 2 ^ 32 = checkpoint + ?d"
    using down(2) offset_less [of n isn checkpoint] by simp
  then have "wrap (checkpoint - (2 ^ 32 - ?d)) isn = n" using w wrap_offset [of checkpoint n isn] by simp
  moreover have "2 ^ 32 - int ?d \<le> \<bar>int x - int checkpoint\<bar>" if "wrap x isn = n" for x
  proof -
    obtain k where k: "int x = int checkpoint + int ?d + k * 2 ^ 32" using \<open>wrap x isn = n\<close>
      by (rule same_wrap_distance)
    show ?thesis using k down(1) offset_less [of n isn checkpoint] by (cases "k \<ge> 0") auto
  qed
  ultimately show ?thesis using assms down(2) offset_less [of n isn checkpoint] unfolding down(3)
    by auto
qed

theorem unwrap_closest_witness:
  "wrap (unwrap (WrappingInt32 5) (WrappingInt32 7) 4294967290) (WrappingInt32 7) = WrappingInt32 5 \<and>
   unwrap (WrappingInt32 5) (WrappingInt32 7) 4294967290 < 2 ^ 64 \<and>
   \<bar>int (unwrap (WrappingInt32 5) (WrappingInt32 7) 4294967290) - int 4294967290\<bar> \<le> \<bar>int 8589934590 - int 4294967290\<bar>"
proof -
  have "wrap 8589934590 (WrappingInt32 7) = WrappingInt32 5" by (simp add: sponge_eval)
  moreover have "(4294967290 :: nat) < 2 ^ 64" "(4294967290 :: nat) < 2 ^ 64 - 2 ^ 31" by simp_all
  ultimately show ?thesis using unwrap_closest [of 4294967290 "WrappingInt32 5" "WrappingInt32 7"] by blast
qed

text \<open>Unwrapping what was wrapped gives the number back, from every checkpoint less than
  2 to the 31 away.\<close>

theorem unwrap_wrap:
  assumes "x < 2 ^ 64" and "checkpoint < 2 ^ 64" and "\<bar>int x - int checkpoint\<bar> < 2 ^ 31"
  shows "unwrap (wrap x isn) isn checkpoint = x"
  using assms by (rule unwrap_wrap_near)

theorem unwrap_wrap_witness:
  "unwrap (wrap 4294967300 (WrappingInt32 9)) (WrappingInt32 9) 4294967000 = 4294967300"
  by (rule unwrap_wrap) simp_all

end
