(* ===== verification/TCP_Segment.thy ===== *)
theory TCP_Segment
  imports Net_Parser Wrapping_Integers
begin

unbundle bit_operations_syntax

text \<open>
  InternetChecksum (libsponge/util/util.hh, util.cc), TCPHeader (libsponge/tcp\_helpers/
  tcp\_header.hh, tcp\_header.cc) and TCPSegment (tcp\_segment.hh, tcp\_segment.cc).

  The checksum is related to the sum of the big-endian 16-bit words of the data: its folding
  loop computes a remainder by 65535 in the range 1 to 65535 (0 for the sum 0). From this: a
  packet that carries its checksum sums to the checksum 0, which makes \<open>parse\<close> accept what
  \<open>serialize\<close> wrote.
\<close>

section \<open>InternetChecksum\<close>

record InternetChecksum =
  ic_sum :: u32
  ic_parity :: bool

definition InternetChecksum_init :: "u32 \<Rightarrow> InternetChecksum" where
  "InternetChecksum_init initial_sum = \<lparr>ic_sum = initial_sum, ic_parity = False\<rparr>"

fun InternetChecksum_add :: "bytes \<Rightarrow> InternetChecksum \<Rightarrow> InternetChecksum" where
  "InternetChecksum_add [] c = c"
| "InternetChecksum_add (d # data) c =
     (let val = (ucast d :: u16); val = (if \<not> ic_parity c then push_bit 8 val else val) in
      InternetChecksum_add data (c\<lparr>ic_sum := ic_sum c + ucast val, ic_parity := \<not> ic_parity c\<rparr>))"

function fold_sum :: "u32 \<Rightarrow> u32" where
  "fold_sum ret = (if ret > 0xffff then fold_sum (drop_bit 16 ret + (ret AND 0xffff)) else ret)"
  by pat_completeness auto

lemma unat_fold_step: "unat (drop_bit 16 ret + (ret AND 0xffff)) = unat ret div 65536 + unat ret mod 65536"
  for ret :: u32
proof -
  have "(0xffff :: u32) = mask 16" by (simp add: mask_eq_exp_minus_1)
  then have lo: "unat (ret AND 0xffff) = unat ret mod 65536"
    by (simp only: take_bit_eq_mask [symmetric] unsigned_take_bit_eq) (simp add: take_bit_eq_mod)
  have hi: "unat (drop_bit 16 ret) = unat ret div 65536"
    unfolding unat_drop_bit_eq by (simp add: drop_bit_eq_div)
  have "unat ret < 2 ^ 32" using unsigned_less [of ret] by simp
  then have "unat (drop_bit 16 ret) + unat (ret AND 0xffff) < 2 ^ LENGTH(32)" unfolding lo hi by simp
  then show ?thesis unfolding lo [symmetric] hi [symmetric] by (rule unat_add_lem [THEN iffD1])
qed

termination fold_sum
proof (relation "measure unat")
  fix ret :: u32
  assume "0xffff < ret"
  then have "65535 < unat ret" by (simp add: word_less_nat_alt)
  then have "1 \<le> unat ret div 65536" by simp
  then have "unat ret div 65536 + unat ret mod 65536 < unat ret"
    using div_mult_mod_eq [of "unat ret" 65536] by linarith
  then show "(drop_bit 16 ret + (ret AND 0xffff), ret) \<in> measure unat" by (simp add: unat_fold_step)
qed simp

declare fold_sum.simps [simp del]

definition InternetChecksum_value :: "InternetChecksum \<Rightarrow> u16" where
  "InternetChecksum_value c = ucast (NOT (fold_sum (ic_sum c)))"

section \<open>TCPHeader\<close>

record TCPHeader =
  th_sport :: u16
  th_dport :: u16
  th_seqno :: WrappingInt32
  th_ackno :: WrappingInt32
  th_doff :: u8
  th_urg :: bool
  th_ack :: bool
  th_psh :: bool
  th_rst :: bool
  th_syn :: bool
  th_fin :: bool
  th_win :: u16
  th_cksum :: u16
  th_uptr :: u16

definition TCPHeader_LENGTH :: u64 where
  "TCPHeader_LENGTH = 20"

definition TCPHeader_default :: TCPHeader where
  "TCPHeader_default = \<lparr>th_sport = 0, th_dport = 0, th_seqno = WrappingInt32 0, th_ackno = WrappingInt32 0,
     th_doff = of_nat (TCPHeader_LENGTH div 4), th_urg = False, th_ack = False, th_psh = False,
     th_rst = False, th_syn = False, th_fin = False, th_win = 0, th_cksum = 0, th_uptr = 0\<rparr>"

definition TCPHeader_parse :: "NetParser \<Rightarrow> ((ParseResult \<times> TCPHeader) \<times> NetParser) option" where
  "TCPHeader_parse p = do {
     (sport, p) \<leftarrow> NetParser_u16 p;
     (dport, p) \<leftarrow> NetParser_u16 p;
     (seqno, p) \<leftarrow> NetParser_u32 p;
     (ackno, p) \<leftarrow> NetParser_u32 p;
     (off, p) \<leftarrow> NetParser_u8 p;
     (fl_b, p) \<leftarrow> NetParser_u8 p;
     (win, p) \<leftarrow> NetParser_u16 p;
     (cksum, p) \<leftarrow> NetParser_u16 p;
     (uptr, p) \<leftarrow> NetParser_u16 p;
     let doff = drop_bit 4 off;
     let h = \<lparr>th_sport = sport, th_dport = dport, th_seqno = WrappingInt32 seqno,
       th_ackno = WrappingInt32 ackno, th_doff = doff,
       th_urg = (fl_b AND 0b00100000 \<noteq> 0), th_ack = (fl_b AND 0b00010000 \<noteq> 0),
       th_psh = (fl_b AND 0b00001000 \<noteq> 0), th_rst = (fl_b AND 0b00000100 \<noteq> 0),
       th_syn = (fl_b AND 0b00000010 \<noteq> 0), th_fin = (fl_b AND 0b00000001 \<noteq> 0),
       th_win = win, th_cksum = cksum, th_uptr = uptr\<rparr>;
     if doff < 5 then Some ((HeaderTooShort, h), p)
     else do {
       p \<leftarrow> NetParser_remove_prefix (sub64 (unat doff * 4) TCPHeader_LENGTH) p;
       if NetParser_error p then Some ((np_error p, h), p) else Some ((NoError, h), p)
     }
   }"

definition string_resize :: "nat \<Rightarrow> bytes \<Rightarrow> bytes" where
  "string_resize n s = take n s @ replicate (n - length s) 0"

text \<open>\<open>None\<close> is the exception for a data offset below 5.\<close>

definition TCPHeader_serialize :: "TCPHeader \<Rightarrow> bytes option" where
  "TCPHeader_serialize h =
     (if th_doff h < 5 then None
      else do {
        let ret = NetUnparser_u16 [] (th_sport h);
        let ret = NetUnparser_u16 ret (th_dport h);
        let ret = NetUnparser_u32 ret (raw_value (th_seqno h));
        let ret = NetUnparser_u32 ret (raw_value (th_ackno h));
        let ret = NetUnparser_u8 ret (push_bit 4 (th_doff h));
        let fl_b = (if th_urg h then 0b00100000 else 0) OR (if th_ack h then 0b00010000 else 0) OR
          (if th_psh h then 0b00001000 else 0) OR (if th_rst h then 0b00000100 else 0) OR
          (if th_syn h then 0b00000010 else 0) OR (if th_fin h then 0b00000001 else 0);
        let ret = NetUnparser_u8 ret fl_b;
        let ret = NetUnparser_u16 ret (th_win h);
        let ret = NetUnparser_u16 ret (th_cksum h);
        let ret = NetUnparser_u16 ret (th_uptr h);
        Some (string_resize (4 * unat (th_doff h)) ret)
      })"

definition TCPHeader_eq :: "TCPHeader \<Rightarrow> TCPHeader \<Rightarrow> bool" where
  "TCPHeader_eq h other = (th_seqno h = th_seqno other \<and> th_ackno h = th_ackno other \<and>
     th_doff h = th_doff other \<and> th_urg h = th_urg other \<and> th_ack h = th_ack other \<and>
     th_psh h = th_psh other \<and> th_rst h = th_rst other \<and> th_syn h = th_syn other \<and>
     th_fin h = th_fin other \<and> th_win h = th_win other \<and> th_uptr h = th_uptr other)"

section \<open>TCPSegment\<close>

record TCPSegment =
  seg_header :: TCPHeader
  seg_payload :: Buffer

definition TCPSegment_default :: TCPSegment where
  "TCPSegment_default = \<lparr>seg_header = TCPHeader_default, seg_payload = Buffer_empty\<rparr>"

definition TCPSegment_parse :: "Buffer \<Rightarrow> u32 \<Rightarrow> TCPSegment \<Rightarrow> (ParseResult \<times> TCPSegment) option" where
  "TCPSegment_parse buffer datagram_layer_checksum seg =
     (let check = InternetChecksum_add (Buffer_str buffer) (InternetChecksum_init datagram_layer_checksum) in
      if InternetChecksum_value check \<noteq> 0 then Some (BadChecksum, seg)
      else do {
        ((_, h), p) \<leftarrow> TCPHeader_parse (NetParser_init buffer);
        Some (np_error p, seg\<lparr>seg_header := h, seg_payload := np_buffer p\<rparr>)
      })"

definition TCPSegment_length_in_sequence_space :: "TCPSegment \<Rightarrow> u64" where
  "TCPSegment_length_in_sequence_space seg =
     add64 (add64 (length (Buffer_str (seg_payload seg))) (if th_syn (seg_header seg) then 1 else 0))
       (if th_fin (seg_header seg) then 1 else 0)"

definition TCPSegment_serialize :: "u32 \<Rightarrow> TCPSegment \<Rightarrow> BufferList option" where
  "TCPSegment_serialize datagram_layer_checksum seg = do {
     let header_out = (seg_header seg)\<lparr>th_cksum := 0\<rparr>;
     let check = InternetChecksum_init datagram_layer_checksum;
     h \<leftarrow> TCPHeader_serialize header_out;
     let check = InternetChecksum_add h check;
     let check = InternetChecksum_add (Buffer_str (seg_payload seg)) check;
     let header_out = header_out\<lparr>th_cksum := InternetChecksum_value check\<rparr>;
     h \<leftarrow> TCPHeader_serialize header_out;
     let ret = BufferList_append BufferList_empty (BufferList_of_string h);
     Some (BufferList_append ret (BufferList_of_Buffer (seg_payload seg)))
   }"

declare InternetChecksum_init_def [sponge_eval] fold_sum.simps [sponge_eval]
  InternetChecksum_value_def [sponge_eval] TCPHeader_LENGTH_def [sponge_eval]
  TCPHeader_default_def [sponge_eval] TCPHeader_parse_def [sponge_eval] string_resize_def [sponge_eval]
  TCPHeader_serialize_def [sponge_eval] TCPHeader_eq_def [sponge_eval]
  TCPSegment_default_def [sponge_eval] TCPSegment_parse_def [sponge_eval]
  TCPSegment_length_in_sequence_space_def [sponge_eval] TCPSegment_serialize_def [sponge_eval]

section \<open>The checksum as a remainder\<close>

text \<open>The sum of the big-endian 16-bit words of the data, from an even or an odd position.\<close>

fun word_sum :: "bool \<Rightarrow> bytes \<Rightarrow> nat" where
  "word_sum p [] = 0"
| "word_sum p (b # bs) = (if p then unat b else unat b * 256) + word_sum (\<not> p) bs"

lemma word_sum_append: "word_sum p (xs @ ys) = word_sum p xs + word_sum (p \<noteq> odd (length xs)) ys"
  by (induction p xs rule: word_sum.induct) auto

lemma word_sum_bound: "word_sum p bs \<le> 65280 * length bs"
proof (induction p bs rule: word_sum.induct)
  case (2 p b bs)
  have "unat b < 256" using unsigned_less [of b] by simp
  then have "(if p then unat b else unat b * 256) \<le> 65280" by simp
  with 2 show ?case by (simp del: if_split_asm)
qed simp

lemma InternetChecksum_add_append:
  "InternetChecksum_add (xs @ ys) c = InternetChecksum_add ys (InternetChecksum_add xs c)"
  by (induction xs c rule: InternetChecksum_add.induct) (simp_all add: Let_def)

lemma checksum_byte:
  "(ucast (if \<not> p then push_bit 8 (ucast d :: u16) else ucast d) :: u32) =
    of_nat (if p then unat d else unat d * 256)" for d :: u8
proof -
  have "unat d < 256" using unsigned_less [of d] by simp
  then show ?thesis
    by (auto simp: word_unat_eq_iff push_bit_eq_mult unsigned_ucast_eq unat_word_ariths take_bit_eq_mod
      unsigned_of_nat)
qed

lemma InternetChecksum_add_Cons:
  "InternetChecksum_add (d # data) c = InternetChecksum_add data (c\<lparr>ic_sum := ic_sum c +
     of_nat (if ic_parity c then unat d else unat d * 256), ic_parity := \<not> ic_parity c\<rparr>)"
  unfolding InternetChecksum_add.simps Let_def checksum_byte ..

lemma InternetChecksum_add_sum:
  "ic_sum (InternetChecksum_add bs c) = ic_sum c + of_nat (word_sum (ic_parity c) bs) \<and>
   ic_parity (InternetChecksum_add bs c) = (ic_parity c \<noteq> odd (length bs))"
proof (induction bs arbitrary: c)
  case (Cons d data)
  show ?case unfolding InternetChecksum_add_Cons using Cons.IH by auto
qed simp

definition folded :: "nat \<Rightarrow> nat" where
  "folded n = (if n = 0 then 0 else (n - 1) mod 65535 + 1)"

lemma folded_small: "n \<le> 65535 \<Longrightarrow> folded n = n"
  by (simp add: folded_def)

lemma folded_step: "65535 < n \<Longrightarrow> folded (n div 65536 + n mod 65536) = folded n"
proof -
  assume n: "65535 < n"
  define q r where "q = n div 65536" and "r = n mod 65536"
  have nqr: "n = (q + r) + q * 65535" by (simp add: q_def r_def)
  have pos: "0 < q" using n by (simp add: q_def)
  then have "n - 1 = (q + r - 1) + q * 65535" using nqr by simp
  then have "(n - 1) mod 65535 = (q + r - 1) mod 65535" by simp
  then show ?thesis using n pos unfolding q_def [symmetric] r_def [symmetric] by (simp add: folded_def)
qed

lemma fold_sum_folded: "unat (fold_sum ret) = folded (unat ret)"
proof (induction ret rule: fold_sum.induct)
  case (1 ret)
  show ?case
  proof (cases "0xffff < ret")
    case True
    then have "65535 < unat ret" by (simp add: word_less_nat_alt)
    then show ?thesis using 1 [OF True] True
      by (simp add: fold_sum.simps [of ret] unat_fold_step folded_step)
  next
    case False
    then have "unat ret \<le> 65535" by (simp add: word_less_nat_alt)
    then show ?thesis using False by (simp add: fold_sum.simps [of ret] folded_small)
  qed
qed

lemma checksum_value:
  assumes "N < 2 ^ 32" and "ic_sum c = of_nat N"
  shows "unat (InternetChecksum_value c) = 65535 - folded N"
proof -
  have "unat (ic_sum c) = N" using assms by (simp add: unsigned_of_nat take_bit_eq_mod)
  then have f: "unat (fold_sum (ic_sum c)) = folded N" by (simp add: fold_sum_folded)
  have le: "folded N \<le> 65535" using mod_less_divisor [of 65535 "N - 1"] by (auto simp: folded_def)
  have "NOT (fold_sum (ic_sum c)) = - 1 - fold_sum (ic_sum c)" by (simp add: not_eq_complement)
  then have "unat (NOT (fold_sum (ic_sum c))) = 4294967295 - folded N"
    using unat_sub [of "fold_sum (ic_sum c)" "- 1"] f
    by (simp add: unsigned_minus_1_eq_mask mask_eq_exp_minus_1)
  moreover have "4294967295 - folded N = (65535 - folded N) + 65536 * 65535" using le by simp
  then have "(4294967295 - folded N) mod 65536 = (65535 - folded N) mod 65536"
    by (simp only: mod_mult_self2)
  ultimately show ?thesis by (simp add: InternetChecksum_value_def unsigned_ucast_eq take_bit_eq_mod)
qed

text \<open>The checksum of a packet, as a number; and what the field holding it does to the sum.\<close>

lemma packet_checksum:
  assumes "unat initial + 65280 * length bs < 2 ^ 32"
  shows "unat (InternetChecksum_value (InternetChecksum_add bs (InternetChecksum_init initial))) =
    65535 - folded (unat initial + word_sum False bs)"
proof (rule checksum_value)
  show "unat initial + word_sum False bs < 2 ^ 32" using assms word_sum_bound [of False bs] by simp
  show "ic_sum (InternetChecksum_add bs (InternetChecksum_init initial)) =
      of_nat (unat initial + word_sum False bs)"
    using InternetChecksum_add_sum [of bs "InternetChecksum_init initial"]
    by (simp add: InternetChecksum_init_def)
qed

lemma word_sum_be16: "word_sum False (be_bytes (w :: u16)) = unat w"
proof -
  have "unat w < 65536" using unsigned_less [of w] by simp
  then show ?thesis unfolding be_bytes_def
    using be_byte [of 8 w] be_byte [of 0 w] by (simp add: upt_rec)
qed

lemma folded_completes: "folded (n + (65535 - folded n)) = 65535"
proof (cases "n = 0")
  case False
  define m where "m = n - 1"
  have n: "n = m + 1" using False by (simp add: m_def)
  have "folded n = m mod 65535 + 1" by (simp add: folded_def n)
  then have "n + (65535 - folded n) = 65535 * (m div 65535) + 65535"
    using div_mult_mod_eq [of m 65535] mod_less_divisor [of 65535 m] unfolding n by linarith
  then show ?thesis by (simp add: folded_def)
qed (simp add: folded_def)

lemma checksum_verifies:
  assumes "even (length xs)" and "unat initial + 65280 * (length xs + length ys + 2) < 2 ^ 32"
    and "c = InternetChecksum_value (InternetChecksum_add (xs @ be_bytes (0 :: u16) @ ys) (InternetChecksum_init initial))"
  shows "InternetChecksum_value (InternetChecksum_add (xs @ be_bytes c @ ys) (InternetChecksum_init initial)) = 0"
proof -
  let ?N = "unat initial + word_sum False (xs @ be_bytes (0 :: u16) @ ys)"
  have ws: "word_sum False (xs @ be_bytes w @ ys) = word_sum False xs + unat w + word_sum False ys" for w :: u16
    using assms(1) by (simp add: word_sum_append word_sum_be16)
  have c: "unat c = 65535 - folded ?N" unfolding assms(3) using assms(2) by (intro packet_checksum) simp
  have "unat initial + word_sum False (xs @ be_bytes c @ ys) = ?N + (65535 - folded ?N)"
    using c unfolding ws by simp
  then have "unat (InternetChecksum_value (InternetChecksum_add (xs @ be_bytes c @ ys) (InternetChecksum_init initial))) = 0"
    using assms(2) folded_completes [of ?N] by (subst packet_checksum) (simp, simp only: diff_self_eq_0)
  then show ?thesis by (simp add: unat_eq_zero)
qed

section \<open>Headers\<close>

definition TCPHeader_flags :: "TCPHeader \<Rightarrow> u8" where
  "TCPHeader_flags h =
     (if th_urg h then 0b00100000 else 0) OR (if th_ack h then 0b00010000 else 0) OR
     (if th_psh h then 0b00001000 else 0) OR (if th_rst h then 0b00000100 else 0) OR
     (if th_syn h then 0b00000010 else 0) OR (if th_fin h then 0b00000001 else 0)"

lemma TCPHeader_flags_bits:
  "(TCPHeader_flags h AND 0b00100000 \<noteq> 0) = th_urg h" "(TCPHeader_flags h AND 0b00010000 \<noteq> 0) = th_ack h"
  "(TCPHeader_flags h AND 0b00001000 \<noteq> 0) = th_psh h" "(TCPHeader_flags h AND 0b00000100 \<noteq> 0) = th_rst h"
  "(TCPHeader_flags h AND 0b00000010 \<noteq> 0) = th_syn h" "(TCPHeader_flags h AND 0b00000001 \<noteq> 0) = th_fin h"
  unfolding TCPHeader_flags_def
  by (cases "th_urg h"; cases "th_ack h"; cases "th_psh h"; cases "th_rst h"; cases "th_syn h";
      cases "th_fin h"; simp)+

text \<open>The 16 bytes before the checksum field.\<close>

definition header_front :: "TCPHeader \<Rightarrow> bytes" where
  "header_front h = be_bytes (th_sport h) @ be_bytes (th_dport h) @ be_bytes (raw_value (th_seqno h)) @
     be_bytes (raw_value (th_ackno h)) @ be_bytes (push_bit 4 (th_doff h)) @
     be_bytes (TCPHeader_flags h) @ be_bytes (th_win h)"

definition header_pad :: "TCPHeader \<Rightarrow> bytes" where
  "header_pad h = replicate (4 * unat (th_doff h) - 20) 0"

lemma length_header_front [simp]: "length (header_front h) = 16"
  by (simp add: header_front_def)

lemma TCPHeader_serialize_eq:
  assumes "5 \<le> th_doff h"
  shows "TCPHeader_serialize h =
    Some (header_front h @ be_bytes (th_cksum h) @ be_bytes (th_uptr h) @ header_pad h)"
proof -
  have "5 \<le> unat (th_doff h)" using assms by (simp add: word_le_nat_alt)
  then have "string_resize (4 * unat (th_doff h)) s = s @ header_pad h" if "length s = 20" for s
    using that by (simp add: string_resize_def header_pad_def)
  then show ?thesis using assms
    by (simp add: TCPHeader_serialize_def Let_def TCPHeader_flags_def [symmetric] header_front_def)
qed

lemma TCPHeader_serialize_short: "th_doff h < 5 \<Longrightarrow> TCPHeader_serialize h = None"
  by (simp add: TCPHeader_serialize_def)

lemma doff_nibble: "d < 16 \<Longrightarrow> drop_bit 4 (push_bit 4 d) = d" for d :: u8
proof -
  assume "d < 16"
  then have d: "unat d < 16" by (simp add: word_less_nat_alt)
  then have "unat (push_bit 4 d) = unat d * 16"
    by (simp add: push_bit_eq_mult unat_word_ariths)
  then have "unat (drop_bit 4 (push_bit 4 d)) = unat d"
    unfolding unat_drop_bit_eq by (simp add: drop_bit_eq_div)
  then show ?thesis by (rule unsigned_word_eqI)
qed

lemma succeeds_checked:
  "np_has q rest \<Longrightarrow> g = h \<Longrightarrow>
   succeeds (if NetParser_error q then Some ((np_error q, g), q) else Some ((NoError, g), q)) (NoError, h) rest"
  by (simp add: succeeds_def NetParser_error_def np_has_def)

lemma TCPHeader_parse_serialized:
  assumes doff: "5 \<le> th_doff h" "th_doff h < 16"
    and ser: "TCPHeader_serialize h = Some bs" and p: "np_has p (bs @ rest)"
  shows "succeeds (TCPHeader_parse p) (NoError, h) rest"
proof -
  have n: "sub64 (unat (th_doff h) * 4) TCPHeader_LENGTH = length (header_pad h)"
    using doff by (subst sub64_exact)
      (auto simp: TCPHeader_LENGTH_def header_pad_def word_le_nat_alt word_less_nat_alt)
  have long: "\<not> th_doff h < 5" using doff(1) by simp
  have "np_has p (be_bytes (th_sport h) @ be_bytes (th_dport h) @ be_bytes (raw_value (th_seqno h)) @
     be_bytes (raw_value (th_ackno h)) @ be_bytes (push_bit 4 (th_doff h)) @
     be_bytes (TCPHeader_flags h) @ be_bytes (th_win h) @ be_bytes (th_cksum h) @
     be_bytes (th_uptr h) @ header_pad h @ rest)"
    using p ser doff(1) by (auto simp: TCPHeader_serialize_eq header_front_def)
  then show ?thesis unfolding TCPHeader_parse_def Let_def
    apply -
    apply (rule read_u16, assumption)+
    apply (rule read_u32, assumption)+
    apply (rule read_u8, assumption)+
    apply (rule read_u16, assumption)+
    unfolding doff_nibble [OF doff(2)] TCPHeader_flags_bits if_not_P [OF long]
    apply (rule read_prefix, assumption, rule n)
    apply (rule succeeds_checked, assumption)
    apply simp
    done
qed

section \<open>Segments\<close>

lemma header_front_cksum [simp]:
  "header_front (h\<lparr>th_cksum := c\<rparr>) = header_front h" "header_pad (h\<lparr>th_cksum := c\<rparr>) = header_pad h"
  by (simp_all add: header_front_def header_pad_def TCPHeader_flags_def)

lemma length_header_pad: "5 \<le> th_doff h \<Longrightarrow> length (header_pad h) = 4 * unat (th_doff h) - 20"
  by (simp add: header_pad_def)

text \<open>The checksum that \<open>serialize\<close> puts in the header.\<close>

definition segment_checksum :: "u32 \<Rightarrow> TCPSegment \<Rightarrow> u16" where
  "segment_checksum ck seg = InternetChecksum_value (InternetChecksum_add
     (header_front (seg_header seg) @ be_bytes (0 :: u16) @ be_bytes (th_uptr (seg_header seg)) @
      header_pad (seg_header seg) @ Buffer_str (seg_payload seg)) (InternetChecksum_init ck))"

lemma TCPSegment_serialize_eq:
  assumes "5 \<le> th_doff (seg_header seg)"
  obtains l where "TCPSegment_serialize ck seg = Some l"
    and "BufferList_concatenate l = header_front (seg_header seg) @ be_bytes (segment_checksum ck seg) @
      be_bytes (th_uptr (seg_header seg)) @ header_pad (seg_header seg) @ Buffer_str (seg_payload seg)"
  using assms
  by (simp add: TCPSegment_serialize_def TCPHeader_serialize_eq segment_checksum_def Let_def
    InternetChecksum_add_append)

lemma TCPSegment_parse_serialized:
  assumes doff: "5 \<le> th_doff (seg_header seg)" "th_doff (seg_header seg) < 16"
    and len: "length (Buffer_str (seg_payload seg)) \<le> 65535" and ck: "unat ck \<le> 2 ^ 20"
    and ser: "TCPSegment_serialize ck seg = Some l" and b: "Buffer_ok b" "Buffer_str b = BufferList_concatenate l"
  obtains payload where "TCPSegment_parse b ck seg0 =
      Some (NoError, seg0\<lparr>seg_header := (seg_header seg)\<lparr>th_cksum := segment_checksum ck seg\<rparr>, seg_payload := payload\<rparr>)"
    and "Buffer_str payload = Buffer_str (seg_payload seg)"
proof -
  let ?h = "seg_header seg" and ?data = "Buffer_str (seg_payload seg)"
  let ?g = "?h\<lparr>th_cksum := segment_checksum ck seg\<rparr>"
  let ?ys = "be_bytes (th_uptr ?h) @ header_pad ?h @ ?data"
  obtain bs where bs: "TCPHeader_serialize ?g = Some bs"
    and l: "BufferList_concatenate l = header_front ?h @ be_bytes (segment_checksum ck seg) @ ?ys"
    and eq: "BufferList_concatenate l = bs @ ?data"
    using ser doff(1) TCPSegment_serialize_eq [OF doff(1), of ck] by (auto simp: TCPHeader_serialize_eq)
  have "unat (th_doff ?h) < 16" using doff(2) by (simp add: word_less_nat_alt)
  then have n: "length ?ys \<le> 65577" using len length_header_pad [OF doff(1)] by simp
  have "unat ck + 65280 * (length (header_front ?h) + length ?ys + 2) \<le> 2 ^ 20 + 65280 * (16 + 65577 + 2)"
    using ck n by (intro add_mono mult_le_mono2) auto
  then have "unat ck + 65280 * (length (header_front ?h) + length ?ys + 2) < 2 ^ 32" by simp
  then have check: "InternetChecksum_value (InternetChecksum_add (BufferList_concatenate l)
      (InternetChecksum_init ck)) = 0"
    unfolding l by (intro checksum_verifies) (simp_all add: segment_checksum_def)
  have np: "np_has (NetParser_init b) (bs @ ?data)" using b unfolding eq by simp
  have "succeeds (TCPHeader_parse (NetParser_init b)) (NoError, ?g) ?data"
    by (rule TCPHeader_parse_serialized [OF _ _ bs np]) (use doff in simp_all)
  then obtain q where "TCPHeader_parse (NetParser_init b) = Some ((NoError, ?g), q)"
    "np_has q ?data" by (auto simp: succeeds_def)
  then show ?thesis using check by (intro that [of "np_buffer q"]) (simp_all add: TCPSegment_parse_def np_has_def b(2))
qed

section \<open>The properties\<close>

text \<open>C14. A packet that carries its Internet checksum in a 16-bit field at an even position,
  computed with that field at zero, has the checksum zero, as long as the 32-bit sum does not
  overflow; and the folding loop computes the remainder by 65535 in the range 1 to 65535.\<close>

theorem InternetChecksum_verifies:
  assumes "even (length xs)" and "unat initial + 65280 * (length xs + length ys + 2) < 2 ^ 32"
  shows "(let c = InternetChecksum_value (InternetChecksum_add (xs @ [0, 0] @ ys) (InternetChecksum_init initial)) in
     InternetChecksum_value (InternetChecksum_add (xs @ NetUnparser_u16 [] c @ ys) (InternetChecksum_init initial)) = 0) \<and>
    unat (fold_sum ret) = (if ret = 0 then 0 else (unat ret - 1) mod 65535 + 1)"
proof -
  have z: "be_bytes (0 :: u16) = [0, 0]" by (simp add: be_bytes_def upt_rec)
  show ?thesis
    using checksum_verifies [OF assms refl] fold_sum_folded [of ret]
    by (simp add: z folded_def Let_def unat_eq_zero)
qed

theorem InternetChecksum_verifies_witness:
  "(let c = InternetChecksum_value (InternetChecksum_add ([1, 2] @ [0, 0] @ [3]) (InternetChecksum_init 7)) in
     InternetChecksum_value (InternetChecksum_add ([1, 2] @ NetUnparser_u16 [] c @ [3]) (InternetChecksum_init 7)) = 0) \<and>
    unat (fold_sum 0x12345) = (if (0x12345 :: u32) = 0 then 0 else (unat (0x12345 :: u32) - 1) mod 65535 + 1)"
  by (rule InternetChecksum_verifies) simp_all

text \<open>C15. A segment that is serialised and parsed again with the same pseudo-header checksum gives
  no error, all header fields (the checksum field is the one that was computed) and the payload,
  for every data offset of at least 5 words, options included as padding.\<close>

theorem TCPSegment_roundtrip:
  assumes "5 \<le> th_doff (seg_header seg)" and "th_doff (seg_header seg) < 16"
    and "length (Buffer_str (seg_payload seg)) \<le> 65535" and "unat ck \<le> 2 ^ 20"
  shows "\<exists>l c payload. TCPSegment_serialize ck seg = Some l \<and>
    length (BufferList_concatenate l) = 4 * unat (th_doff (seg_header seg)) + length (Buffer_str (seg_payload seg)) \<and>
    TCPSegment_parse (Buffer_init (BufferList_concatenate l)) ck seg0 =
      Some (NoError, seg0\<lparr>seg_header := (seg_header seg)\<lparr>th_cksum := c\<rparr>, seg_payload := payload\<rparr>) \<and>
    Buffer_str payload = Buffer_str (seg_payload seg)"
proof -
  obtain l where l: "TCPSegment_serialize ck seg = Some l"
    "BufferList_concatenate l = header_front (seg_header seg) @ be_bytes (segment_checksum ck seg) @
      be_bytes (th_uptr (seg_header seg)) @ header_pad (seg_header seg) @ Buffer_str (seg_payload seg)"
    using assms(1) by (rule TCPSegment_serialize_eq)
  have "5 \<le> unat (th_doff (seg_header seg))" using assms(1) by (simp add: word_le_nat_alt)
  then have "length (BufferList_concatenate l) =
      4 * unat (th_doff (seg_header seg)) + length (Buffer_str (seg_payload seg))"
    using assms(1) unfolding l(2) by (simp add: length_header_pad)
  moreover have "Buffer_ok (Buffer_init (BufferList_concatenate l))"
    using assms(2,3) calculation by (simp add: word_less_nat_alt)
  ultimately show ?thesis
    using l(1) TCPSegment_parse_serialized [OF assms l(1) _ Buffer_init_simps(1), of seg0] by metis
qed

theorem TCPSegment_roundtrip_witness:
  "\<exists>l c payload. TCPSegment_serialize 3 \<lparr>seg_header = TCPHeader_default\<lparr>th_doff := 6, th_syn := True\<rparr>, seg_payload = Buffer_init [1, 2, 3]\<rparr> = Some l \<and>
    length (BufferList_concatenate l) = 4 * unat (th_doff (TCPHeader_default\<lparr>th_doff := 6, th_syn := True\<rparr>)) + length (Buffer_str (Buffer_init [1, 2, 3])) \<and>
    TCPSegment_parse (Buffer_init (BufferList_concatenate l)) 3 TCPSegment_default =
      Some (NoError, TCPSegment_default\<lparr>seg_header := TCPHeader_default\<lparr>th_doff := 6, th_syn := True, th_cksum := c\<rparr>, seg_payload := payload\<rparr>) \<and>
    Buffer_str payload = Buffer_str (Buffer_init [1, 2, 3])"
  using TCPSegment_roundtrip [of "\<lparr>seg_header = TCPHeader_default\<lparr>th_doff := 6, th_syn := True\<rparr>,
    seg_payload = Buffer_init [1, 2, 3]\<rparr>" 3 TCPSegment_default] by simp

text \<open>The result of the header parser is dropped: a segment whose data offset is below the
  minimum, which the header parser reports, is accepted when its checksum is right.\<close>

theorem TCPSegment_parse_short_header:
  "map_option (fst \<circ> fst) (TCPHeader_parse (NetParser_init (Buffer_init (replicate 20 0)))) = Some HeaderTooShort \<and>
   map_option fst (TCPSegment_parse (Buffer_init (replicate 20 0)) 65535 seg) = Some NoError"
  by (simp add: sponge_eval cong: eval_cong)

end
