(* ===== verification/IPv4.thy ===== *)
theory IPv4
  imports TCP_Segment
begin

unbundle bit_operations_syntax

text \<open>
  IPv4Header (libsponge/tcp\_helpers/ipv4\_header.hh, ipv4\_header.cc) and IPv4Datagram
  (ipv4\_datagram.hh, ipv4\_datagram.cc). A method that may leave the object it is called on
  unchanged takes the old object. The exceptions of \<open>serialize\<close> are \<open>None\<close>.

  What \<open>serialize\<close> writes is parsed back, the header checksum included. \<open>IPv4Datagram::parse\<close>
  drops the verdict of the header parser, so it accepts what that one refuses.
\<close>

section \<open>IPv4Header\<close>

record IPv4Header =
  ih_ver :: u8
  ih_hlen :: u8
  ih_tos :: u8
  ih_len :: u16
  ih_id :: u16
  ih_df :: bool
  ih_mf :: bool
  ih_offset :: u16
  ih_ttl :: u8
  ih_proto :: u8
  ih_cksum :: u16
  ih_src :: u32
  ih_dst :: u32

definition IPv4Header_LENGTH :: u64 where
  "IPv4Header_LENGTH = 20"

definition IPv4Header_DEFAULT_TTL :: u8 where
  "IPv4Header_DEFAULT_TTL = 128"

definition IPv4Header_PROTO_TCP :: u8 where
  "IPv4Header_PROTO_TCP = 6"

definition IPv4Header_default :: IPv4Header where
  "IPv4Header_default = \<lparr>ih_ver = 4, ih_hlen = of_nat (IPv4Header_LENGTH div 4), ih_tos = 0, ih_len = 0,
     ih_id = 0, ih_df = True, ih_mf = False, ih_offset = 0, ih_ttl = IPv4Header_DEFAULT_TTL,
     ih_proto = IPv4Header_PROTO_TCP, ih_cksum = 0, ih_src = 0, ih_dst = 0\<rparr>"

definition IPv4Header_parse :: "IPv4Header \<Rightarrow> NetParser \<Rightarrow> ((ParseResult \<times> IPv4Header) \<times> NetParser) option" where
  "IPv4Header_parse h p =
     (let original_serialized_version = np_buffer p; data_size = Buffer_size (np_buffer p) in
      if data_size < IPv4Header_LENGTH then Some ((PacketTooShort, h), p)
      else do {
        (first_byte, p) \<leftarrow> NetParser_u8 p;
        (tos, p) \<leftarrow> NetParser_u8 p;
        (len, p) \<leftarrow> NetParser_u16 p;
        (id, p) \<leftarrow> NetParser_u16 p;
        (fo_val, p) \<leftarrow> NetParser_u16 p;
        (ttl, p) \<leftarrow> NetParser_u8 p;
        (proto, p) \<leftarrow> NetParser_u8 p;
        (cksum, p) \<leftarrow> NetParser_u16 p;
        (src, p) \<leftarrow> NetParser_u32 p;
        (dst, p) \<leftarrow> NetParser_u32 p;
        let ver = drop_bit 4 first_byte;
        let hlen = first_byte AND 0x0f;
        let h = \<lparr>ih_ver = ver, ih_hlen = hlen, ih_tos = tos, ih_len = len, ih_id = id,
          ih_df = (fo_val AND 0x4000 \<noteq> 0), ih_mf = (fo_val AND 0x2000 \<noteq> 0), ih_offset = fo_val AND 0x1fff,
          ih_ttl = ttl, ih_proto = proto, ih_cksum = cksum, ih_src = src, ih_dst = dst\<rparr>;
        if data_size < 4 * unat hlen then Some ((PacketTooShort, h), p)
        else if ver \<noteq> 4 then Some ((WrongIPVersion, h), p)
        else if hlen < 5 then Some ((HeaderTooShort, h), p)
        else if data_size \<noteq> unat len then Some ((TruncatedPacket, h), p)
        else do {
          p \<leftarrow> NetParser_remove_prefix (sub64 (unat hlen * 4) IPv4Header_LENGTH) p;
          if NetParser_error p then Some ((np_error p, h), p)
          else (let check = InternetChecksum_add (take (4 * unat hlen) (Buffer_str original_serialized_version))
              (InternetChecksum_init 0) in
            if InternetChecksum_value check \<noteq> 0 then Some ((BadChecksum, h), p)
            else Some ((NoError, h), p))
        }
      })"

definition IPv4Header_serialize :: "IPv4Header \<Rightarrow> bytes option" where
  "IPv4Header_serialize h =
     (if ih_ver h \<noteq> 4 then None
      else if 4 * unat (ih_hlen h) < IPv4Header_LENGTH then None
      else do {
        let first_byte = push_bit 4 (ih_ver h) OR (ih_hlen h AND 0xf);
        let ret = NetUnparser_u8 [] first_byte;
        let ret = NetUnparser_u8 ret (ih_tos h);
        let ret = NetUnparser_u16 ret (ih_len h);
        let ret = NetUnparser_u16 ret (ih_id h);
        let fo_val = (if ih_df h then 0x4000 else 0) OR (if ih_mf h then 0x2000 else 0) OR (ih_offset h AND 0x1fff);
        let ret = NetUnparser_u16 ret fo_val;
        let ret = NetUnparser_u8 ret (ih_ttl h);
        let ret = NetUnparser_u8 ret (ih_proto h);
        let ret = NetUnparser_u16 ret (ih_cksum h);
        let ret = NetUnparser_u32 ret (ih_src h);
        let ret = NetUnparser_u32 ret (ih_dst h);
        Some (string_resize (4 * unat (ih_hlen h)) ret)
      })"

text \<open>The difference of two integers is converted to 16 bits.\<close>

definition IPv4Header_payload_length :: "IPv4Header \<Rightarrow> u16" where
  "IPv4Header_payload_length h = ih_len h - 4 * ucast (ih_hlen h)"

definition IPv4Header_pseudo_cksum :: "IPv4Header \<Rightarrow> u32" where
  "IPv4Header_pseudo_cksum h =
     (let pcksum = drop_bit 16 (ih_src h) + (ih_src h AND 0xffff);
          pcksum = pcksum + (drop_bit 16 (ih_dst h) + (ih_dst h AND 0xffff));
          pcksum = pcksum + ucast (ih_proto h) in
      pcksum + ucast (IPv4Header_payload_length h))"

section \<open>IPv4Datagram\<close>

record IPv4Datagram =
  dg_header :: IPv4Header
  dg_payload :: BufferList

definition IPv4Datagram_default :: IPv4Datagram where
  "IPv4Datagram_default = \<lparr>dg_header = IPv4Header_default, dg_payload = BufferList_empty\<rparr>"

definition IPv4Datagram_parse :: "Buffer \<Rightarrow> IPv4Datagram \<Rightarrow> (ParseResult \<times> IPv4Datagram) option" where
  "IPv4Datagram_parse buffer dgram = do {
     ((_, h), p) \<leftarrow> IPv4Header_parse (dg_header dgram) (NetParser_init buffer);
     let dgram = dgram\<lparr>dg_header := h, dg_payload := BufferList_of_Buffer (np_buffer p)\<rparr>;
     if BufferList_size (dg_payload dgram) \<noteq> unat (IPv4Header_payload_length (dg_header dgram))
     then Some (PacketTooShort, dgram)
     else Some (np_error p, dgram)
   }"

definition IPv4Datagram_serialize :: "IPv4Datagram \<Rightarrow> BufferList option" where
  "IPv4Datagram_serialize dgram =
     (if BufferList_size (dg_payload dgram) \<noteq> unat (IPv4Header_payload_length (dg_header dgram)) then None
      else do {
        let header_out = (dg_header dgram)\<lparr>ih_cksum := 0\<rparr>;
        header_zero_checksum \<leftarrow> IPv4Header_serialize header_out;
        let check = InternetChecksum_add header_zero_checksum (InternetChecksum_init 0);
        let header_out = header_out\<lparr>ih_cksum := InternetChecksum_value check\<rparr>;
        h \<leftarrow> IPv4Header_serialize header_out;
        let ret = BufferList_append BufferList_empty (BufferList_of_string h);
        Some (BufferList_append ret (dg_payload dgram))
      })"

declare IPv4Header_LENGTH_def [sponge_eval] IPv4Header_DEFAULT_TTL_def [sponge_eval]
  IPv4Header_PROTO_TCP_def [sponge_eval] IPv4Header_default_def [sponge_eval]
  IPv4Header_parse_def [sponge_eval] IPv4Header_serialize_def [sponge_eval]
  IPv4Header_payload_length_def [sponge_eval] IPv4Header_pseudo_cksum_def [sponge_eval]
  IPv4Datagram_default_def [sponge_eval] IPv4Datagram_parse_def [sponge_eval]
  IPv4Datagram_serialize_def [sponge_eval]

section \<open>Headers\<close>

definition ipv4_flags :: "IPv4Header \<Rightarrow> u16" where
  "ipv4_flags h = (if ih_df h then 0x4000 else 0) OR (if ih_mf h then 0x2000 else 0) OR (ih_offset h AND 0x1fff)"

definition ipv4_front :: "IPv4Header \<Rightarrow> bytes" where
  "ipv4_front h = be_bytes (0x40 OR (ih_hlen h AND 0xf)) @ be_bytes (ih_tos h) @ be_bytes (ih_len h) @
     be_bytes (ih_id h) @ be_bytes (ipv4_flags h) @ be_bytes (ih_ttl h) @ be_bytes (ih_proto h)"

definition ipv4_back :: "IPv4Header \<Rightarrow> bytes" where
  "ipv4_back h = be_bytes (ih_src h) @ be_bytes (ih_dst h) @ replicate (4 * unat (ih_hlen h) - 20) 0"

text \<open>Headers whose fields fit the format.\<close>

definition ipv4_ok :: "IPv4Header \<Rightarrow> bool" where
  "ipv4_ok h \<longleftrightarrow> ih_ver h = 4 \<and> 5 \<le> ih_hlen h \<and> ih_hlen h < 16 \<and> ih_offset h < 0x2000"

lemma ipv4_lengths [simp]:
  "length (ipv4_front h) = 10" "length (ipv4_back h) = 8 + (4 * unat (ih_hlen h) - 20)"
  by (simp_all add: ipv4_front_def ipv4_back_def)

lemma IPv4Header_serialize_eq:
  assumes "ipv4_ok h"
  shows "IPv4Header_serialize h = Some (ipv4_front h @ be_bytes (ih_cksum h) @ ipv4_back h)"
proof -
  have "5 \<le> unat (ih_hlen h)" using assms by (simp add: ipv4_ok_def word_le_nat_alt)
  then have "string_resize (4 * unat (ih_hlen h)) s = s @ replicate (4 * unat (ih_hlen h) - 20) 0" if "length s = 20" for s
    using that by (simp add: string_resize_def)
  then show ?thesis using assms \<open>5 \<le> unat (ih_hlen h)\<close>
    by (simp add: IPv4Header_serialize_def Let_def ipv4_ok_def IPv4Header_LENGTH_def ipv4_flags_def [symmetric] ipv4_front_def
      ipv4_back_def)
qed

lemma ipv4_first_byte:
  assumes "hlen < 16"
  shows "drop_bit 4 (0x40 OR (hlen AND 0xf) :: u8) = 4" "(0x40 OR (hlen AND 0xf)) AND 0x0f = (hlen :: u8)"
proof -
  have "hlen = of_nat (unat hlen)" "unat hlen \<in> set [0..<16]" using assms by (simp_all add: word_less_nat_alt)
  then have "hlen \<in> set (map of_nat [0..<16])" by (metis image_eqI list.set_map)
  then have h: "hlen \<in> set [0, 1, 2, 3, 4, 5, 6, 7, 8, 9, 10, 11, 12, 13, 14, 15]" by (simp add: upt_rec)
  show "drop_bit 4 (0x40 OR (hlen AND 0xf) :: u8) = 4" using h by auto
  show "(0x40 OR (hlen AND 0xf)) AND 0x0f = hlen" using h by auto
qed

lemma ipv4_flag_bits:
  fixes offset :: u16 and df mf :: bool
  assumes "offset < 0x2000"
  defines "fo \<equiv> (if df then 0x4000 else 0) OR (if mf then 0x2000 else 0) OR (offset AND 0x1fff)"
  shows "(fo AND 0x4000 \<noteq> 0) = df" "(fo AND 0x2000 \<noteq> 0) = mf" "fo AND 0x1fff = offset"
proof -
  have n: "(0x4000 :: u16) = 2 ^ 14" "(0x2000 :: u16) = 2 ^ 13" "(0x1fff :: u16) = mask 13" by (simp_all add: mask_eq_exp_minus_1)
  have o: "take_bit 13 offset = offset" 
    using assms(1) by (intro unsigned_word_eqI [where 'a = nat]) (simp only: unsigned_take_bit_eq, simp add: take_bit_eq_mod word_less_nat_alt)
  have p: "bit (0x4000 :: u16) k \<longleftrightarrow> k = 14" "bit (0x2000 :: u16) k \<longleftrightarrow> k = 13" if "k < 16" for k
    unfolding n(1,2) bit_exp_iff using that by auto
  have b: "bit fo k \<longleftrightarrow> (k = 14 \<and> df) \<or> (k = 13 \<and> mf) \<or> (k < 13 \<and> bit offset k)" if "k < 16" for k
    unfolding fo_def n(3) bit_or_iff bit_and_iff bit_mask_iff if_distrib [of "\<lambda>x. bit x k"] p [OF that] using that by auto
  show "(fo AND 0x4000 \<noteq> 0) = df" "(fo AND 0x2000 \<noteq> 0) = mf"
    unfolding n and_exp_eq_0_iff_not_bit using b by auto
  have "take_bit 13 fo = take_bit 13 offset" using b by (intro bit_word_eqI) (auto simp: bit_simps)
  then show "fo AND 0x1fff = offset" unfolding n take_bit_eq_mask [symmetric] o .
qed
lemma IPv4Header_parse_serialized:
  assumes ok: "ipv4_ok h" and size: "unat (ih_len h) = 4 * unat (ih_hlen h) + length rest"
    and ck: "ih_cksum h = InternetChecksum_value (InternetChecksum_add (ipv4_front h @ be_bytes (0 :: u16) @ ipv4_back h) (InternetChecksum_init 0))"
    and ser: "IPv4Header_serialize h = Some bs" and p: "np_has p (bs @ rest)"
  shows "succeeds (IPv4Header_parse h0 p) (NoError, h) rest"
proof -
  let ?pad = "replicate (4 * unat (ih_hlen h) - 20) (0 :: u8)"
  have hl: "5 \<le> unat (ih_hlen h)" "unat (ih_hlen h) < 16" using ok by (simp_all add: ipv4_ok_def word_le_nat_alt word_less_nat_alt)
  have bs: "bs = ipv4_front h @ be_bytes (ih_cksum h) @ ipv4_back h" using ser IPv4Header_serialize_eq [OF ok] by simp
  then have len: "length bs = 4 * unat (ih_hlen h)" using hl by simp
  have n: "sub64 (unat (ih_hlen h) * 4) IPv4Header_LENGTH = length ?pad"
    using hl by (subst sub64_exact) (auto simp: IPv4Header_LENGTH_def)
  have "65280 * (10 + (8 + (4 * unat (ih_hlen h) - 20)) + 2) < (2 ^ 32 :: nat)" using hl by simp
  then have "InternetChecksum_value (InternetChecksum_add bs (InternetChecksum_init 0)) = 0"
    unfolding bs by (intro checksum_verifies [OF _ _ ck]) simp_all
  moreover have "Buffer_str (np_buffer p) = bs @ rest" using p by (simp add: np_has_def)
  ultimately have check: "InternetChecksum_value (InternetChecksum_add (take (4 * unat (ih_hlen h)) (Buffer_str (np_buffer p)))
      (InternetChecksum_init 0)) = 0" and ds: "Buffer_size (np_buffer p) = 4 * unat (ih_hlen h) + length rest"
    using len by (simp_all add: Buffer_size_def)
  have long: "\<not> Buffer_size (np_buffer p) < IPv4Header_LENGTH" "\<not> Buffer_size (np_buffer p) < 4 * unat (ih_hlen h)"
    "\<not> ih_hlen h < 5" "\<not> Buffer_size (np_buffer p) \<noteq> unat (ih_len h)" "\<not> (4 :: u8) \<noteq> 4"
    using hl ok size ds by (simp_all add: IPv4Header_LENGTH_def ipv4_ok_def word_less_nat_alt)
  have nib: "ih_hlen h < 16" "ih_offset h < 0x2000" using ok by (simp_all add: ipv4_ok_def)
  have "np_has p (be_bytes (0x40 OR (ih_hlen h AND 0xf)) @ be_bytes (ih_tos h) @ be_bytes (ih_len h) @ be_bytes (ih_id h) @
     be_bytes (ipv4_flags h) @ be_bytes (ih_ttl h) @ be_bytes (ih_proto h) @ be_bytes (ih_cksum h) @
     be_bytes (ih_src h) @ be_bytes (ih_dst h) @ ?pad @ rest)"
    using p unfolding bs ipv4_front_def ipv4_back_def by simp
  then show ?thesis unfolding IPv4Header_parse_def Let_def if_not_P [OF long(1)]
    apply -
    apply (rule read_u8, assumption)+
    apply (rule read_u16, assumption)+
    apply (rule read_u8, assumption)+
    apply (rule read_u16, assumption)
    apply (rule read_u32, assumption)+
    unfolding ipv4_first_byte [OF nib(1)] ipv4_flag_bits [OF nib(2), folded ipv4_flags_def] ipv4_flags_def ipv4_flag_bits [OF nib(2)]
      if_not_P [OF long(2)] if_not_P [OF long(3)] if_not_P [OF long(4)] if_not_P [OF long(5)]
    apply (rule read_prefix, assumption, rule n)
    using ok check apply (simp add: succeeds_def NetParser_error_def np_has_def ipv4_ok_def)
    done
qed

text \<open>The fields that any 20 bytes give.\<close>

definition ipv4_fields :: "bytes \<Rightarrow> IPv4Header" where
  "ipv4_fields bs = (let first_byte = of_nat (be_at 1 0 bs) :: u8; fo_val = of_nat (be_at 2 6 bs) :: u16 in
     \<lparr>ih_ver = drop_bit 4 first_byte, ih_hlen = first_byte AND 0x0f, ih_tos = of_nat (be_at 1 1 bs),
      ih_len = of_nat (be_at 2 2 bs), ih_id = of_nat (be_at 2 4 bs),
      ih_df = (fo_val AND 0x4000 \<noteq> 0), ih_mf = (fo_val AND 0x2000 \<noteq> 0), ih_offset = fo_val AND 0x1fff,
      ih_ttl = of_nat (be_at 1 8 bs), ih_proto = of_nat (be_at 1 9 bs),
      ih_cksum = of_nat (be_at 2 10 bs), ih_src = of_nat (be_at 4 12 bs),
      ih_dst = of_nat (be_at 4 16 bs)\<rparr>)"

definition ipv4_verdict :: "bytes \<Rightarrow> ParseResult" where
  "ipv4_verdict bs = (let h = ipv4_fields bs in
     if length bs < 4 * unat (ih_hlen h) then PacketTooShort
     else if ih_ver h \<noteq> 4 then WrongIPVersion
     else if ih_hlen h < 5 then HeaderTooShort
     else if length bs \<noteq> unat (ih_len h) then TruncatedPacket
     else if InternetChecksum_value (InternetChecksum_add (take (4 * unat (ih_hlen h)) bs) (InternetChecksum_init 0)) \<noteq> 0
     then BadChecksum else NoError)"

lemma IPv4Header_parse_any:
  assumes p: "np_has p bs" and len: "20 \<le> length bs"
  shows "succeeds (IPv4Header_parse h0 p) (ipv4_verdict bs, ipv4_fields bs)
    (drop (if ipv4_verdict bs \<in> {NoError, BadChecksum} then 4 * unat (ih_hlen (ipv4_fields bs)) else 20) bs)"
proof -
  have sz: "Buffer_size (np_buffer p) = length bs" "Buffer_str (np_buffer p) = bs" using p by (simp_all add: np_has_def Buffer_size_def)
  have long: "\<not> length bs < IPv4Header_LENGTH" using len by (simp add: IPv4Header_LENGTH_def)
  have u: "unat (x AND 0x0f) \<le> 15" for x :: u8 using word_and_le1 [of x "0x0f"] by (simp add: word_le_nat_alt)
  have step: "succeeds (do {
          p \<leftarrow> NetParser_remove_prefix (sub64 (unat (ih_hlen h) * 4) IPv4Header_LENGTH) q;
          if NetParser_error p then Some ((np_error p, h), p)
          else if InternetChecksum_value c \<noteq> 0 then Some ((BadChecksum, h), p) else Some ((NoError, h), p)
        }) (if InternetChecksum_value c \<noteq> 0 then BadChecksum else NoError, h) (drop (4 * unat (ih_hlen h)) bs)"
    if q: "np_has q (drop 20 bs)" and hl: "\<not> ih_hlen h < 5" "\<not> length bs < 4 * unat (ih_hlen h)" for q h c
  proof -
    have "5 \<le> unat (ih_hlen h)" using hl(1) by (simp add: word_less_nat_alt)
    moreover have "unat (ih_hlen h) < 256" using unsigned_less [of "ih_hlen h"] by simp
    ultimately have "sub64 (unat (ih_hlen h) * 4) IPv4Header_LENGTH = 4 * unat (ih_hlen h) - 20"
      by (subst sub64_exact) (simp_all add: IPv4Header_LENGTH_def)
    moreover have "drop (4 * unat (ih_hlen h) - 20) (drop 20 bs) = drop (4 * unat (ih_hlen h)) bs"
      using \<open>5 \<le> unat (ih_hlen h)\<close> by simp
    moreover obtain q' where "NetParser_remove_prefix (4 * unat (ih_hlen h) - 20) q = Some q'"
      "np_has q' (drop (4 * unat (ih_hlen h) - 20) (drop 20 bs))"
      by (rule np_has_remove [OF q, of "4 * unat (ih_hlen h) - 20"]) (use hl(2) in simp_all)
    ultimately show ?thesis by (simp add: succeeds_def NetParser_error_def np_has_def)
  qed
  let ?f = "ipv4_fields bs"
  have rest: "succeeds (if length bs < 4 * unat (ih_hlen ?f) then Some ((PacketTooShort, ?f), q)
        else if ih_ver ?f \<noteq> 4 then Some ((WrongIPVersion, ?f), q)
        else if ih_hlen ?f < 5 then Some ((HeaderTooShort, ?f), q)
        else if length bs \<noteq> unat (ih_len ?f) then Some ((TruncatedPacket, ?f), q)
        else do {
          p \<leftarrow> NetParser_remove_prefix (sub64 (unat (ih_hlen ?f) * 4) IPv4Header_LENGTH) q;
          if NetParser_error p then Some ((np_error p, ?f), p)
          else if InternetChecksum_value (InternetChecksum_add (take (4 * unat (ih_hlen ?f)) bs) (InternetChecksum_init 0)) \<noteq> 0
          then Some ((BadChecksum, ?f), p) else Some ((NoError, ?f), p)
        }) (ipv4_verdict bs, ?f) (drop (if ipv4_verdict bs \<in> {NoError, BadChecksum} then 4 * unat (ih_hlen ?f) else 20) bs)"
    if q: "np_has q (drop 20 bs)" for q
    using step [OF q, of ?f "InternetChecksum_add (take (4 * unat (ih_hlen ?f)) bs) (InternetChecksum_init 0)"] q
    by (auto simp: ipv4_verdict_def Let_def intro!: succeeds_return)
  show ?thesis
    using p len unfolding IPv4Header_parse_def Let_def sz if_not_P [OF long]
    apply -
    apply (rule at_u8 [where k = 0 and m = 1 and bs = bs], simp, simp, simp)
    apply (rule at_u8 [where k = 1 and m = 2 and bs = bs], assumption, simp, simp)
    apply (rule at_u16 [where k = 2 and m = 4 and bs = bs], assumption, simp, simp)
    apply (rule at_u16 [where k = 4 and m = 6 and bs = bs], assumption, simp, simp)
    apply (rule at_u16 [where k = 6 and m = 8 and bs = bs], assumption, simp, simp)
    apply (rule at_u8 [where k = 8 and m = 9 and bs = bs], assumption, simp, simp)
    apply (rule at_u8 [where k = 9 and m = 10 and bs = bs], assumption, simp, simp)
    apply (rule at_u16 [where k = 10 and m = 12 and bs = bs], assumption, simp, simp)
    apply (rule at_u32 [where k = 12 and m = 16 and bs = bs], assumption, simp, simp)
    apply (rule at_u32 [where k = 16 and m = 20 and bs = bs], assumption, simp, simp)
    unfolding ipv4_fields_def Let_def IPv4Header.select_convs
    apply (erule rest [unfolded ipv4_fields_def Let_def IPv4Header.select_convs])
    done
qed

section \<open>Datagrams\<close>

lemma payload_length_exact:
  assumes "unat (ih_len h) = 4 * unat (ih_hlen h) + n" and "ih_hlen h < 64"
  shows "unat (IPv4Header_payload_length h) = n"
proof -
  have "unat (ih_hlen h) < 64" using assms(2) by (simp add: word_less_nat_alt)
  then have u: "unat (4 * ucast (ih_hlen h) :: u16) = 4 * unat (ih_hlen h)"
    by (simp add: unat_word_ariths unsigned_ucast_eq take_bit_eq_mod)
  then have "(4 * ucast (ih_hlen h) :: u16) \<le> ih_len h" using assms(1) by (simp add: word_le_nat_alt)
  then show ?thesis using u assms(1) by (simp add: IPv4Header_payload_length_def unat_sub)
qed

lemma BufferList_size_exact:
  "length (BufferList_concatenate l) < 2 ^ 64 \<Longrightarrow> BufferList_size l = length (BufferList_concatenate l)"
  using sum_sizes [of Buffer_str "bl_buffers l"] by (simp add: BufferList_size_def concatenate_eq)

definition ipv4_checksum :: "IPv4Header \<Rightarrow> u16" where
  "ipv4_checksum h = InternetChecksum_value (InternetChecksum_add (ipv4_front h @ be_bytes (0 :: u16) @ ipv4_back h) (InternetChecksum_init 0))"

lemma ipv4_cksum_simps [simp]:
  "ipv4_front (h\<lparr>ih_cksum := c\<rparr>) = ipv4_front h" "ipv4_back (h\<lparr>ih_cksum := c\<rparr>) = ipv4_back h"
  "ipv4_ok (h\<lparr>ih_cksum := c\<rparr>) = ipv4_ok h"
  by (simp_all add: ipv4_front_def ipv4_back_def ipv4_ok_def ipv4_flags_def)

lemma halves_add:
  fixes a :: u32
  shows "unat (drop_bit 16 a + (a AND 0xffff)) \<le> 131070"
proof -
  have "unat a < 4294967296" using unsigned_less [of a, where 'a = nat] by simp
  then have "unat a div 65536 \<le> 65535" by simp
  moreover have "unat a mod 65536 \<le> 65535" by simp
  ultimately show ?thesis unfolding unat_fold_step by linarith
qed

lemma unat_add_le: "unat a + unat b < 2 ^ 32 \<Longrightarrow> unat (a + b) = unat a + unat b" for a b :: u32
  using unat_add_lem [of a b] by simp

lemma IPv4Datagram_parse_serialized:
  assumes ok: "ipv4_ok (dg_header d)"
    and len: "unat (ih_len (dg_header d)) = 4 * unat (ih_hlen (dg_header d)) + length (BufferList_concatenate (dg_payload d))"
  obtains l c b p where "IPv4Datagram_serialize d = Some l"
    and "IPv4Datagram_parse (Buffer_init (BufferList_concatenate l)) d0 =
      Some (NoError, d0\<lparr>dg_header := (dg_header d)\<lparr>ih_cksum := c\<rparr>, dg_payload := BufferList_of_Buffer b\<rparr>)"
    and "Buffer_ok b" and "Buffer_str b = BufferList_concatenate (dg_payload d)"
    and "IPv4Header_parse (dg_header d0) (NetParser_init (Buffer_init (BufferList_concatenate l))) =
      Some ((NoError, (dg_header d)\<lparr>ih_cksum := c\<rparr>), p)" and "length (BufferList_concatenate l) < 2 ^ 17"
proof -
  let ?h = "dg_header d" and ?data = "BufferList_concatenate (dg_payload d)"
  let ?g = "?h\<lparr>ih_cksum := ipv4_checksum ?h\<rparr>"
  have hl: "ih_hlen ?h < 64" using ok by (auto simp: ipv4_ok_def word_less_nat_alt)
  note n = payload_length_exact [OF len hl]
  have small: "length ?data < 65536" using len unsigned_less [of "ih_len ?h", where 'a = nat] by simp
  then have sz: "BufferList_size (dg_payload d) = length ?data" by (intro BufferList_size_exact) simp
  obtain bs where bs: "IPv4Header_serialize ?g = Some bs" "length bs \<le> 1060"
    using IPv4Header_serialize_eq [of ?g] ok hl by (simp add: word_less_nat_alt)
  define l where "l = BufferList_append (BufferList_append BufferList_empty (BufferList_of_string bs)) (dg_payload d)"
  have l: "IPv4Datagram_serialize d = Some l" "BufferList_concatenate l = bs @ ?data"
    using bs ok n sz IPv4Header_serialize_eq [of "?h\<lparr>ih_cksum := 0\<rparr>"]
    by (simp_all add: IPv4Datagram_serialize_def l_def ipv4_checksum_def)
  have "succeeds (IPv4Header_parse (dg_header d0) (NetParser_init (Buffer_init (bs @ ?data)))) (NoError, ?g) ?data"
    using ok len bs small by (intro IPv4Header_parse_serialized) (simp_all add: ipv4_checksum_def)
  then obtain q where q: "IPv4Header_parse (dg_header d0) (NetParser_init (Buffer_init (bs @ ?data))) = Some ((NoError, ?g), q)"
    "np_has q ?data" by (auto simp: succeeds_def)
  have "BufferList_size (BufferList_of_Buffer (np_buffer q)) = length ?data"
    using q(2) small BufferList_size_exact [of "BufferList_of_Buffer (np_buffer q)"] by (simp add: np_has_def)
  moreover have "unat (IPv4Header_payload_length ?g) = length ?data" using n by (simp add: IPv4Header_payload_length_def)
  ultimately have "IPv4Datagram_parse (Buffer_init (BufferList_concatenate l)) d0 =
      Some (NoError, d0\<lparr>dg_header := ?g, dg_payload := BufferList_of_Buffer (np_buffer q)\<rparr>)"
    using q by (simp add: l IPv4Datagram_parse_def np_has_def)
  then show ?thesis using l q bs(2) small by (intro that [of l "np_buffer q" "ipv4_checksum ?h" q]) (simp_all add: np_has_def)
qed

lemma pseudo_cksum_sum:
  "unat (IPv4Header_pseudo_cksum h) = unat (ih_src h) div 65536 + unat (ih_src h) mod 65536 +
     (unat (ih_dst h) div 65536 + unat (ih_dst h) mod 65536) + unat (ih_proto h) + unat (IPv4Header_payload_length h) \<and>
   unat (IPv4Header_pseudo_cksum h) \<le> 327930"
proof -
  note a = halves_add [of "ih_src h"] halves_add [of "ih_dst h"]
  have p: "unat (ucast (ih_proto h) :: u32) = unat (ih_proto h)" "unat (ih_proto h) \<le> 255"
    using unsigned_less [of "ih_proto h", where 'a = nat] by (simp_all add: unsigned_ucast_eq take_bit_eq_mod)
  have l: "unat (ucast (IPv4Header_payload_length h) :: u32) = unat (IPv4Header_payload_length h)" "unat (IPv4Header_payload_length h) \<le> 65535"
    using unsigned_less [of "IPv4Header_payload_length h", where 'a = nat] by (simp_all add: unsigned_ucast_eq take_bit_eq_mod)
  show ?thesis
    unfolding IPv4Header_pseudo_cksum_def Let_def using a p l by (simp add: unat_add_le unat_fold_step)
qed

section \<open>The properties\<close>

text \<open>C29. A datagram whose header fields fit the format and whose length field is right is serialised
  and parsed back without error: the same header fields, with the checksum that was computed, and the
  same payload. The header parser accepts it too, so the header checksum is right.\<close>

theorem IPv4Datagram_roundtrip:
  assumes ok: "ipv4_ok (dg_header d)"
    and len: "unat (ih_len (dg_header d)) = 4 * unat (ih_hlen (dg_header d)) + length (BufferList_concatenate (dg_payload d))"
  shows "\<exists>l c d' p. IPv4Datagram_serialize d = Some l \<and>
    IPv4Datagram_parse (Buffer_init (BufferList_concatenate l)) d0 = Some (NoError, d') \<and>
    dg_header d' = (dg_header d)\<lparr>ih_cksum := c\<rparr> \<and>
    BufferList_concatenate (dg_payload d') = BufferList_concatenate (dg_payload d) \<and>
    IPv4Header_parse (dg_header d0) (NetParser_init (Buffer_init (BufferList_concatenate l))) = Some ((NoError, dg_header d'), p)"
  by (rule IPv4Datagram_parse_serialized [OF assms, of d0]) auto

definition example_datagram :: IPv4Datagram where
  "example_datagram = \<lparr>dg_header = IPv4Header_default\<lparr>ih_len := 27, ih_hlen := 6\<rparr>, dg_payload = BufferList_of_string [1, 2, 3]\<rparr>"

theorem IPv4Datagram_roundtrip_witness:
  "\<exists>l c d' p. IPv4Datagram_serialize example_datagram = Some l \<and>
    IPv4Datagram_parse (Buffer_init (BufferList_concatenate l)) IPv4Datagram_default = Some (NoError, d') \<and>
    dg_header d' = (dg_header example_datagram)\<lparr>ih_cksum := c\<rparr> \<and>
    BufferList_concatenate (dg_payload d') = [1, 2, 3] \<and>
    IPv4Header_parse (dg_header IPv4Datagram_default) (NetParser_init (Buffer_init (BufferList_concatenate l))) = Some ((NoError, dg_header d'), p)"
  using IPv4Datagram_roundtrip [of example_datagram IPv4Datagram_default]
  by (simp add: example_datagram_def ipv4_ok_def IPv4Header_default_def)


text \<open>A version 6 header with a wrong checksum.\<close>

definition example_bad_header :: bytes where
  "example_bad_header = [0x65, 0, 0, 20] @ replicate 16 0"


text \<open>The contribution of the pseudo header to the checksum is the sum of its 16-bit words: the
  32-bit additions do not overflow, with room for the longest segment.\<close>

theorem IPv4Header_pseudo_cksum_exact:
  "unat (IPv4Header_pseudo_cksum h) = unat (ih_src h) div 65536 + unat (ih_src h) mod 65536 +
     (unat (ih_dst h) div 65536 + unat (ih_dst h) mod 65536) + unat (ih_proto h) + unat (IPv4Header_payload_length h) \<and>
   unat (IPv4Header_pseudo_cksum h) \<le> 327930"
  by (rule pseudo_cksum_sum)

end
