(* ===== verification/Ethernet.thy ===== *)
theory Ethernet
  imports IPv4
begin

text \<open>
  EthernetHeader, EthernetFrame and ARPMessage (libsponge/tcp\_helpers/ethernet\_header.hh,
  ethernet\_header.cc, ethernet\_frame.hh, ethernet\_frame.cc, arp\_message.hh,
  arp\_message.cc). An Ethernet address is an array of six bytes; a value-initialised header is all
  zero. Both formats are parsed back from what is serialised; the frame parser drops the verdict of
  the header parser and takes a frame that is too short for one without a header.
\<close>

section \<open>EthernetHeader\<close>

type_synonym EthernetAddress = "u8 list"

definition ETHERNET_BROADCAST :: EthernetAddress where
  "ETHERNET_BROADCAST = [0xff, 0xff, 0xff, 0xff, 0xff, 0xff]"

record EthernetHeader =
  eh_dst :: EthernetAddress
  eh_src :: EthernetAddress
  eh_type :: u16

definition EthernetHeader_LENGTH :: u64 where
  "EthernetHeader_LENGTH = 14"

definition EthernetHeader_TYPE_IPv4 :: u16 where
  "EthernetHeader_TYPE_IPv4 = 0x800"

definition EthernetHeader_TYPE_ARP :: u16 where
  "EthernetHeader_TYPE_ARP = 0x806"

definition EthernetHeader_default :: EthernetHeader where
  "EthernetHeader_default = \<lparr>eh_dst = replicate 6 0, eh_src = replicate 6 0, eh_type = 0\<rparr>"

text \<open>The loops that read and write an address byte by byte.\<close>

fun parse_array :: "u8 list \<Rightarrow> NetParser \<Rightarrow> (u8 list \<times> NetParser) option" where
  "parse_array [] p = Some ([], p)"
| "parse_array (_ # a) p = do {
     (byte, p) \<leftarrow> NetParser_u8 p;
     (bytes, p) \<leftarrow> parse_array a p;
     Some (byte # bytes, p)
   }"

definition unparse_array :: "bytes \<Rightarrow> u8 list \<Rightarrow> bytes" where
  "unparse_array ret a = foldl (\<lambda>ret byte. NetUnparser_u8 ret byte) ret a"

definition EthernetHeader_parse :: "EthernetHeader \<Rightarrow> NetParser \<Rightarrow> ((ParseResult \<times> EthernetHeader) \<times> NetParser) option" where
  "EthernetHeader_parse h p =
     (if Buffer_size (np_buffer p) < EthernetHeader_LENGTH then Some ((PacketTooShort, h), p)
      else do {
        (dst, p) \<leftarrow> parse_array (eh_dst h) p;
        (src, p) \<leftarrow> parse_array (eh_src h) p;
        (type, p) \<leftarrow> NetParser_u16 p;
        Some ((np_error p, \<lparr>eh_dst = dst, eh_src = src, eh_type = type\<rparr>), p)
      })"

definition EthernetHeader_serialize :: "EthernetHeader \<Rightarrow> bytes" where
  "EthernetHeader_serialize h =
     (let ret = unparse_array [] (eh_dst h); ret = unparse_array ret (eh_src h) in
      NetUnparser_u16 ret (eh_type h))"

section \<open>EthernetFrame\<close>

record EthernetFrame =
  fr_header :: EthernetHeader
  fr_payload :: BufferList

definition EthernetFrame_default :: EthernetFrame where
  "EthernetFrame_default = \<lparr>fr_header = EthernetHeader_default, fr_payload = BufferList_empty\<rparr>"

definition EthernetFrame_parse :: "Buffer \<Rightarrow> EthernetFrame \<Rightarrow> (ParseResult \<times> EthernetFrame) option" where
  "EthernetFrame_parse buffer frame = do {
     ((_, h), p) \<leftarrow> EthernetHeader_parse (fr_header frame) (NetParser_init buffer);
     Some (np_error p, frame\<lparr>fr_header := h, fr_payload := BufferList_of_Buffer (np_buffer p)\<rparr>)
   }"

definition EthernetFrame_serialize :: "EthernetFrame \<Rightarrow> BufferList" where
  "EthernetFrame_serialize frame =
     (let ret = BufferList_append BufferList_empty (BufferList_of_string (EthernetHeader_serialize (fr_header frame))) in
      BufferList_append ret (fr_payload frame))"

section \<open>ARPMessage\<close>

record ARPMessage =
  arp_hardware_type :: u16
  arp_protocol_type :: u16
  arp_hardware_address_size :: u8
  arp_protocol_address_size :: u8
  arp_opcode :: u16
  arp_sender_ethernet_address :: EthernetAddress
  arp_sender_ip_address :: u32
  arp_target_ethernet_address :: EthernetAddress
  arp_target_ip_address :: u32

definition ARPMessage_LENGTH :: u64 where
  "ARPMessage_LENGTH = 28"

definition ARPMessage_TYPE_ETHERNET :: u16 where
  "ARPMessage_TYPE_ETHERNET = 1"

definition ARPMessage_OPCODE_REQUEST :: u16 where
  "ARPMessage_OPCODE_REQUEST = 1"

definition ARPMessage_OPCODE_REPLY :: u16 where
  "ARPMessage_OPCODE_REPLY = 2"

text \<open>\<open>sizeof(EthernetHeader::src)\<close> is 6 and \<open>sizeof(IPv4Header::src)\<close> is 4.\<close>

definition ARPMessage_default :: ARPMessage where
  "ARPMessage_default = \<lparr>arp_hardware_type = ARPMessage_TYPE_ETHERNET, arp_protocol_type = EthernetHeader_TYPE_IPv4,
     arp_hardware_address_size = 6, arp_protocol_address_size = 4, arp_opcode = 0,
     arp_sender_ethernet_address = replicate 6 0, arp_sender_ip_address = 0,
     arp_target_ethernet_address = replicate 6 0, arp_target_ip_address = 0\<rparr>"

definition ARPMessage_supported :: "ARPMessage \<Rightarrow> bool" where
  "ARPMessage_supported m \<longleftrightarrow> arp_hardware_type m = ARPMessage_TYPE_ETHERNET \<and>
     arp_protocol_type m = EthernetHeader_TYPE_IPv4 \<and> arp_hardware_address_size m = 6 \<and>
     arp_protocol_address_size m = 4 \<and>
     (arp_opcode m = ARPMessage_OPCODE_REQUEST \<or> arp_opcode m = ARPMessage_OPCODE_REPLY)"

definition ARPMessage_parse :: "Buffer \<Rightarrow> ARPMessage \<Rightarrow> (ParseResult \<times> ARPMessage) option" where
  "ARPMessage_parse buffer m =
     (let p = NetParser_init buffer in
      if Buffer_size (np_buffer p) < ARPMessage_LENGTH then Some (PacketTooShort, m)
      else do {
        (hardware_type, p) \<leftarrow> NetParser_u16 p;
        (protocol_type, p) \<leftarrow> NetParser_u16 p;
        (hardware_address_size, p) \<leftarrow> NetParser_u8 p;
        (protocol_address_size, p) \<leftarrow> NetParser_u8 p;
        (opcode, p) \<leftarrow> NetParser_u16 p;
        let m = m\<lparr>arp_hardware_type := hardware_type, arp_protocol_type := protocol_type,
          arp_hardware_address_size := hardware_address_size,
          arp_protocol_address_size := protocol_address_size, arp_opcode := opcode\<rparr>;
        if \<not> ARPMessage_supported m then Some (Unsupported, m)
        else do {
          (sender_ethernet_address, p) \<leftarrow> parse_array (arp_sender_ethernet_address m) p;
          (sender_ip_address, p) \<leftarrow> NetParser_u32 p;
          (target_ethernet_address, p) \<leftarrow> parse_array (arp_target_ethernet_address m) p;
          (target_ip_address, p) \<leftarrow> NetParser_u32 p;
          Some (np_error p, m\<lparr>arp_sender_ethernet_address := sender_ethernet_address,
            arp_sender_ip_address := sender_ip_address,
            arp_target_ethernet_address := target_ethernet_address,
            arp_target_ip_address := target_ip_address\<rparr>)
        }
      })"

definition ARPMessage_serialize :: "ARPMessage \<Rightarrow> bytes option" where
  "ARPMessage_serialize m =
     (if \<not> ARPMessage_supported m then None
      else do {
        let ret = NetUnparser_u16 [] (arp_hardware_type m);
        let ret = NetUnparser_u16 ret (arp_protocol_type m);
        let ret = NetUnparser_u8 ret (arp_hardware_address_size m);
        let ret = NetUnparser_u8 ret (arp_protocol_address_size m);
        let ret = NetUnparser_u16 ret (arp_opcode m);
        let ret = unparse_array ret (arp_sender_ethernet_address m);
        let ret = NetUnparser_u32 ret (arp_sender_ip_address m);
        let ret = unparse_array ret (arp_target_ethernet_address m);
        Some (NetUnparser_u32 ret (arp_target_ip_address m))
      })"

declare ETHERNET_BROADCAST_def [sponge_eval] EthernetHeader_LENGTH_def [sponge_eval]
  EthernetHeader_TYPE_IPv4_def [sponge_eval] EthernetHeader_TYPE_ARP_def [sponge_eval]
  EthernetHeader_default_def [sponge_eval] unparse_array_def [sponge_eval]
  EthernetHeader_parse_def [sponge_eval] EthernetHeader_serialize_def [sponge_eval]
  EthernetFrame_default_def [sponge_eval] EthernetFrame_parse_def [sponge_eval]
  EthernetFrame_serialize_def [sponge_eval] ARPMessage_LENGTH_def [sponge_eval]
  ARPMessage_TYPE_ETHERNET_def [sponge_eval] ARPMessage_OPCODE_REQUEST_def [sponge_eval]
  ARPMessage_OPCODE_REPLY_def [sponge_eval] ARPMessage_default_def [sponge_eval]
  ARPMessage_supported_def [sponge_eval] ARPMessage_parse_def [sponge_eval]
  ARPMessage_serialize_def [sponge_eval]

section \<open>Addresses\<close>

lemma be_bytes_u8: "be_bytes (b :: u8) = [b]"
proof -
  have "be_bytes b = [ucast (drop_bit 0 b AND 0xff)]" by (simp add: be_bytes_def)
  moreover have "unat (ucast (drop_bit 0 b AND 0xff) :: u8) = unat b"
    using be_byte [of 0 b] unsigned_less [of b, where 'a = nat] by simp
  ultimately show ?thesis by (metis unsigned_word_eqI)
qed

lemma unparse_array_eq [simp]: "unparse_array ret a = ret @ a"
  unfolding unparse_array_def by (induction a arbitrary: ret) (simp_all add: be_bytes_u8)

lemma succeeds_array:
  assumes "np_has p (a @ rest)" and "length old = length a"
  shows "succeeds (parse_array old p) a rest"
  using assms(2,1)
proof (induction old a arbitrary: p rule: list_induct2)
  case Nil
  then show ?case by (simp add: succeeds_return)
next
  case (Cons x old b a)
  show ?case
    unfolding parse_array.simps
    by (rule read_u8 [of p b "a @ rest"], use Cons.prems in \<open>simp add: be_bytes_u8\<close>, rule succeeds_bind [OF Cons.IH],
        assumption, simp add: succeeds_return)
qed

lemmas read_array = succeeds_bind [OF succeeds_array]

text \<open>The same reads where the parser is dropped at the end.\<close>

lemma succeeds_then:
  assumes "succeeds m v mid" and "\<And>q. np_has q mid \<Longrightarrow> f v q = r"
  shows "Option.bind m (\<lambda>(v, q). f v q) = r"
  using assms by (auto simp: succeeds_def)

lemmas then_u32 = succeeds_then [OF succeeds_u32]
lemmas then_u16 = succeeds_then [OF succeeds_u16]
lemmas then_u8 = succeeds_then [OF succeeds_u8]
lemmas then_array = succeeds_then [OF succeeds_array]

text \<open>Frames and messages with addresses of six bytes.\<close>

definition eth_ok :: "EthernetHeader \<Rightarrow> bool" where
  "eth_ok h \<longleftrightarrow> length (eh_dst h) = 6 \<and> length (eh_src h) = 6"

definition arp_ok :: "ARPMessage \<Rightarrow> bool" where
  "arp_ok m \<longleftrightarrow> length (arp_sender_ethernet_address m) = 6 \<and> length (arp_target_ethernet_address m) = 6"

lemma EthernetHeader_parse_serialized:
  assumes "eth_ok h" and "eth_ok h0" and "np_has p (EthernetHeader_serialize h @ rest)"
  shows "succeeds (EthernetHeader_parse h0 p) (NoError, h) rest"
proof -
  have "\<not> Buffer_size (np_buffer p) < EthernetHeader_LENGTH"
    using assms by (simp add: np_has_def EthernetHeader_serialize_def EthernetHeader_LENGTH_def eth_ok_def)
  moreover have "np_has p (eh_dst h @ eh_src h @ be_bytes (eh_type h) @ rest)"
    using assms(3) by (simp add: EthernetHeader_serialize_def)
  ultimately show ?thesis
    using assms(1,2) unfolding EthernetHeader_parse_def eth_ok_def
    apply (simp only: if_False)
    apply (rule read_array, assumption, simp)
    apply (rule read_array, assumption, simp)
    apply (rule read_u16, assumption)
    apply (simp add: succeeds_def np_has_def)
    done
qed

section \<open>The properties\<close>

text \<open>C31. An Ethernet frame is parsed back from what it is serialised to, header and payload. A frame
  shorter than a header is accepted as well: it keeps the old header and all bytes are payload.\<close>

theorem EthernetFrame_roundtrip:
  assumes "eth_ok (fr_header f)" and "eth_ok (fr_header f0)"
    and "length (BufferList_concatenate (fr_payload f)) < 2 ^ 62" and "length short < 14"
  shows "(\<exists>f'. EthernetFrame_parse (Buffer_init (BufferList_concatenate (EthernetFrame_serialize f))) f0 = Some (NoError, f') \<and>
      fr_header f' = fr_header f \<and> BufferList_concatenate (fr_payload f') = BufferList_concatenate (fr_payload f)) \<and>
    (\<exists>f'. EthernetFrame_parse (Buffer_init short) f0 = Some (NoError, f') \<and>
      fr_header f' = fr_header f0 \<and> BufferList_concatenate (fr_payload f') = short)"
proof
  let ?b = "Buffer_init (BufferList_concatenate (EthernetFrame_serialize f))"
  have "succeeds (EthernetHeader_parse (fr_header f0) (NetParser_init ?b)) (NoError, fr_header f) (BufferList_concatenate (fr_payload f))"
    using assms(1-3) by (intro EthernetHeader_parse_serialized)
      (simp_all add: EthernetFrame_serialize_def EthernetHeader_serialize_def eth_ok_def)
  then show "\<exists>f'. EthernetFrame_parse ?b f0 = Some (NoError, f') \<and>
      fr_header f' = fr_header f \<and> BufferList_concatenate (fr_payload f') = BufferList_concatenate (fr_payload f)"
    by (auto simp: EthernetFrame_parse_def succeeds_def np_has_def)
  show "\<exists>f'. EthernetFrame_parse (Buffer_init short) f0 = Some (NoError, f') \<and>
      fr_header f' = fr_header f0 \<and> BufferList_concatenate (fr_payload f') = short"
    using assms(4) by (simp add: EthernetFrame_parse_def EthernetHeader_parse_def NetParser_init_def EthernetHeader_LENGTH_def)
qed

theorem EthernetFrame_roundtrip_witness:
  "(\<exists>f'. EthernetFrame_parse (Buffer_init (BufferList_concatenate (EthernetFrame_serialize
        \<lparr>fr_header = \<lparr>eh_dst = ETHERNET_BROADCAST, eh_src = [1, 2, 3, 4, 5, 6], eh_type = 0x806\<rparr>, fr_payload = BufferList_of_string [7, 8]\<rparr>)))
        EthernetFrame_default = Some (NoError, f') \<and>
      fr_header f' = \<lparr>eh_dst = ETHERNET_BROADCAST, eh_src = [1, 2, 3, 4, 5, 6], eh_type = 0x806\<rparr> \<and>
      BufferList_concatenate (fr_payload f') = [7, 8]) \<and>
    (\<exists>f'. EthernetFrame_parse (Buffer_init [9]) EthernetFrame_default = Some (NoError, f') \<and>
      fr_header f' = EthernetHeader_default \<and> BufferList_concatenate (fr_payload f') = [9])"
  using EthernetFrame_roundtrip [of "\<lparr>fr_header = \<lparr>eh_dst = ETHERNET_BROADCAST, eh_src = [1, 2, 3, 4, 5, 6], eh_type = 0x806\<rparr>,
      fr_payload = BufferList_of_string [7, 8]\<rparr>" EthernetFrame_default "[9]"]
  by (simp add: eth_ok_def EthernetFrame_default_def EthernetHeader_default_def ETHERNET_BROADCAST_def)

text \<open>A message is serialised exactly when it is an Ethernet and IPv4 request or reply, to 28 bytes, and is
  parsed back from them; a message of another kind is refused by the parser.\<close>

theorem ARPMessage_roundtrip:
  assumes "arp_ok m" and "arp_ok m0" and "length rest < 2 ^ 62"
  shows "case ARPMessage_serialize m of
      None \<Rightarrow> \<not> ARPMessage_supported m
    | Some bs \<Rightarrow> ARPMessage_supported m \<and> length bs = ARPMessage_LENGTH \<and> ARPMessage_parse (Buffer_init (bs @ rest)) m0 = Some (NoError, m)"
proof (cases "ARPMessage_supported m")
  case True
  let ?bs = "be_bytes (arp_hardware_type m) @ be_bytes (arp_protocol_type m) @ be_bytes (arp_hardware_address_size m) @
    be_bytes (arp_protocol_address_size m) @ be_bytes (arp_opcode m) @ arp_sender_ethernet_address m @
    be_bytes (arp_sender_ip_address m) @ arp_target_ethernet_address m @ be_bytes (arp_target_ip_address m)"
  have ser: "ARPMessage_serialize m = Some ?bs" using True by (simp add: ARPMessage_serialize_def Let_def)
  have len: "length ?bs = ARPMessage_LENGTH" using assms(1) by (simp add: arp_ok_def ARPMessage_LENGTH_def)
  have "np_has (NetParser_init (Buffer_init (?bs @ rest))) (?bs @ rest)"
    using len assms(3) by (simp add: ARPMessage_LENGTH_def)
  note p = this [unfolded append_assoc]
  have long: "\<not> Buffer_size (np_buffer (NetParser_init (Buffer_init (?bs @ rest)))) < ARPMessage_LENGTH"
    using len by (simp add: NetParser_init_def)
  have "ARPMessage_parse (Buffer_init (?bs @ rest)) m0 = Some (NoError, m)"
    using p unfolding ARPMessage_parse_def Let_def if_not_P [OF long [unfolded append_assoc]] append_assoc
    apply -
    apply (rule then_u16, assumption)+
    apply (rule then_u8, assumption)+
    apply (rule then_u16, assumption)
    apply (subst if_not_P, use True in \<open>simp add: ARPMessage_supported_def\<close>)
    apply (rule then_array, assumption, use assms in \<open>simp add: arp_ok_def\<close>)
    apply (rule then_u32, assumption)
    apply (rule then_array, assumption, use assms in \<open>simp add: arp_ok_def\<close>)
    apply (rule then_u32, assumption)
    apply (simp add: np_has_def)
    done
  then show ?thesis using ser len True by simp
next
  case False
  then show ?thesis by (simp add: ARPMessage_serialize_def)
qed

definition example_arp :: ARPMessage where
  "example_arp = ARPMessage_default\<lparr>arp_opcode := ARPMessage_OPCODE_REQUEST, arp_sender_ethernet_address := [1, 2, 3, 4, 5, 6],
     arp_sender_ip_address := 0x0a000001, arp_target_ip_address := 0x0a000002\<rparr>"

theorem ARPMessage_roundtrip_witness:
  "\<exists>bs. ARPMessage_serialize example_arp = Some bs \<and> length bs = ARPMessage_LENGTH \<and>
    ARPMessage_parse (Buffer_init (bs @ [])) ARPMessage_default = Some (NoError, example_arp)"
proof -
  have ok: "arp_ok example_arp" "arp_ok ARPMessage_default" "ARPMessage_supported example_arp"
    by (simp_all add: arp_ok_def example_arp_def ARPMessage_default_def ARPMessage_supported_def)
  have "length ([] :: bytes) < 2 ^ 62" by simp
  from ARPMessage_roundtrip [OF ok(1,2) this] ok(3) show ?thesis by (auto split: option.splits)
qed

end
