(* ===== verification/Text_Output.thy ===== *)
theory Text_Output
  imports Ethernet
begin

text \<open>
  The printable forms of addresses and headers: what the standard streams print of numbers, the
  dotted quads of \<open>inet_ntoa\<close>, the Ethernet addresses (libsponge/tcp\_helpers/ethernet\_header.cc) and
  the \<open>to_string\<close> and \<open>summary\<close> methods of the headers. Addresses can be read back from their
  printable forms.
\<close>

section \<open>Numbers and flags\<close>

definition digit_char :: "nat \<Rightarrow> char" where
  "digit_char d = ''0123456789abcdef'' ! d"

text \<open>The digits of a number to the base 10 and, after the manipulator \<open>hex\<close>, to the base 16.\<close>

fun radix_string :: "nat \<Rightarrow> nat \<Rightarrow> string" where
  "radix_string b n = (if b < 2 \<or> n < b then [digit_char n] else radix_string b (n div b) @ [digit_char (n mod b)])"

declare radix_string.simps [simp del]

definition dec_string :: "nat \<Rightarrow> string" where
  "dec_string n = radix_string 10 n"

definition hex_string :: "nat \<Rightarrow> string" where
  "hex_string n = radix_string 16 n"

text \<open>A field of width \<open>w\<close>, filled with zeros.\<close>

definition zero_filled :: "nat \<Rightarrow> string \<Rightarrow> string" where
  "zero_filled w s = replicate (w - length s) (CHR ''0'') @ s"

definition boolalpha :: "bool \<Rightarrow> string" where
  "boolalpha b = (if b then ''true'' else ''false'')"

text \<open>\<open>inet_ntoa\<close> of an address in network byte order.\<close>

definition inet_ntoa :: "u32 \<Rightarrow> string" where
  "inet_ntoa a = dec_string (unat a div 16777216) @ ''.'' @ dec_string (unat a div 65536 mod 256) @ ''.'' @
     dec_string (unat a div 256 mod 256) @ ''.'' @ dec_string (unat a mod 256)"

section \<open>Ethernet addresses and headers\<close>

fun EthernetAddress_to_string :: "EthernetAddress \<Rightarrow> string" where
  "EthernetAddress_to_string [] = ''''"
| "EthernetAddress_to_string (b # bs) = zero_filled 2 (hex_string (unat b)) @
     (if bs \<noteq> [] then '':'' @ EthernetAddress_to_string bs else '''')"

definition EthernetHeader_to_string :: "EthernetHeader \<Rightarrow> string" where
  "EthernetHeader_to_string h = ''dst='' @ EthernetAddress_to_string (eh_dst h) @ '', src='' @ EthernetAddress_to_string (eh_src h) @
     '', type='' @ (if eh_type h = EthernetHeader_TYPE_IPv4 then ''IPv4''
       else if eh_type h = EthernetHeader_TYPE_ARP then ''ARP''
       else ''[unknown type '' @ hex_string (unat (eh_type h)) @ ''!]'')"

definition ARPMessage_to_string :: "ARPMessage \<Rightarrow> string" where
  "ARPMessage_to_string m =
     (let opcode_str = ''(unknown type)'';
          opcode_str = (if arp_opcode m = ARPMessage_OPCODE_REQUEST then ''REQUEST'' else opcode_str);
          opcode_str = (if arp_opcode m = ARPMessage_OPCODE_REPLY then ''REPLY'' else opcode_str) in
      ''opcode='' @ opcode_str @ '', sender='' @ EthernetAddress_to_string (arp_sender_ethernet_address m) @ ''/'' @
      inet_ntoa (arp_sender_ip_address m) @ '', target='' @ EthernetAddress_to_string (arp_target_ethernet_address m) @ ''/'' @
      inet_ntoa (arp_target_ip_address m))"

section \<open>IPv4 and TCP headers\<close>

abbreviation newline :: string where
  "newline \<equiv> [CHR 0x0A]"

definition IPv4Header_to_string :: "IPv4Header \<Rightarrow> string" where
  "IPv4Header_to_string h = ''IP version: '' @ hex_string (unat (ih_ver h)) @ newline @
     ''IP hdr len: '' @ hex_string (unat (ih_hlen h)) @ newline @ ''IP tos: '' @ hex_string (unat (ih_tos h)) @ newline @
     ''IP dgram len: '' @ hex_string (unat (ih_len h)) @ newline @ ''IP id: '' @ hex_string (unat (ih_id h)) @ newline @
     ''Flags: df: '' @ boolalpha (ih_df h) @ '' mf: '' @ boolalpha (ih_mf h) @ newline @
     ''Offset: '' @ hex_string (unat (ih_offset h)) @ newline @ ''TTL: '' @ hex_string (unat (ih_ttl h)) @ newline @
     ''Protocol: '' @ hex_string (unat (ih_proto h)) @ newline @ ''Checksum: '' @ hex_string (unat (ih_cksum h)) @ newline @
     ''Src addr: '' @ hex_string (unat (ih_src h)) @ newline @ ''Dst addr: '' @ hex_string (unat (ih_dst h)) @ newline"

definition IPv4Header_summary :: "IPv4Header \<Rightarrow> string" where
  "IPv4Header_summary h = ''IPv'' @ hex_string (unat (ih_ver h)) @ '', len='' @ hex_string (unat (ih_len h)) @
     '', protocol='' @ hex_string (unat (ih_proto h)) @ '', '' @
     (if ih_ttl h \<ge> 10 then '''' else ''ttl='' @ dec_string (unat (ih_ttl h)) @ '', '') @
     ''src='' @ inet_ntoa (ih_src h) @ '', dst='' @ inet_ntoa (ih_dst h)"

definition TCPHeader_to_string :: "TCPHeader \<Rightarrow> string" where
  "TCPHeader_to_string h = ''TCP source port: '' @ hex_string (unat (th_sport h)) @ newline @
     ''TCP dest port: '' @ hex_string (unat (th_dport h)) @ newline @
     ''TCP seqno: '' @ hex_string (unat (raw_value (th_seqno h))) @ newline @
     ''TCP ackno: '' @ hex_string (unat (raw_value (th_ackno h))) @ newline @
     ''TCP doff: '' @ hex_string (unat (th_doff h)) @ newline @
     ''Flags: urg: '' @ boolalpha (th_urg h) @ '' ack: '' @ boolalpha (th_ack h) @ '' psh: '' @ boolalpha (th_psh h) @
     '' rst: '' @ boolalpha (th_rst h) @ '' syn: '' @ boolalpha (th_syn h) @ '' fin: '' @ boolalpha (th_fin h) @ newline @
     ''TCP winsize: '' @ hex_string (unat (th_win h)) @ newline @ ''TCP cksum: '' @ hex_string (unat (th_cksum h)) @ newline @
     ''TCP uptr: '' @ hex_string (unat (th_uptr h)) @ newline"

definition TCPHeader_summary :: "TCPHeader \<Rightarrow> string" where
  "TCPHeader_summary h = ''Header(flags='' @ (if th_syn h then ''S'' else '''') @ (if th_ack h then ''A'' else '''') @
     (if th_rst h then ''R'' else '''') @ (if th_fin h then ''F'' else '''') @
     '',seqno='' @ dec_string (unat (raw_value (th_seqno h))) @ '',ack='' @ dec_string (unat (raw_value (th_ackno h))) @
     '',win='' @ dec_string (unat (th_win h)) @ '')''"

section \<open>Reading numbers back\<close>

definition char_digit :: "char \<Rightarrow> nat" where
  "char_digit c = (let n = of_char c in if n \<ge> 97 then n - 87 else n - 48)"

definition radix_value :: "nat \<Rightarrow> string \<Rightarrow> nat" where
  "radix_value b s = foldl (\<lambda>a c. a * b + char_digit c) 0 s"

definition is_digit :: "char \<Rightarrow> bool" where
  "is_digit c \<longleftrightarrow> 48 \<le> (of_char c :: nat) \<and> (of_char c :: nat) \<le> 57"

lemma less_16: "n < 16 \<Longrightarrow> n \<in> set [0, 1, 2, 3, 4, 5, 6, 7, 8, 9, 10, 11, 12, 13, 14, 15 :: nat]"
  by simp presburger

lemma char_digit_char: "n < 16 \<Longrightarrow> char_digit (digit_char n) = n"
  using less_16 [of n] by (auto simp: char_digit_def digit_char_def)

lemma is_digit_char: "n < 10 \<Longrightarrow> is_digit (digit_char n)"
  using less_16 [of n] by (auto simp: is_digit_def digit_char_def)

lemma radix_value_string:
  assumes "2 \<le> b" and "b \<le> 16"
  shows "radix_value b (radix_string b n) = n"
  using assms
proof (induction b n rule: radix_string.induct)
  case (1 b n)
  show ?case
  proof (cases "n < b")
    case True
    then show ?thesis using 1 by (simp add: radix_string.simps [of b n] radix_value_def char_digit_char)
  next
    case False
    then have "radix_value b (radix_string b n) = radix_value b (radix_string b (n div b)) * b + char_digit (digit_char (n mod b))"
      using 1 by (simp add: radix_string.simps [of b n] radix_value_def)
    moreover have "char_digit (digit_char (n mod b)) = n mod b"
      using 1(2,3) mod_less_divisor [of b n] by (intro char_digit_char) linarith
    ultimately show ?thesis using 1 False by simp
  qed
qed

lemma dec_value: "radix_value 10 (dec_string n) = n"
  by (simp add: dec_string_def radix_value_string)

lemma dec_digits: "c \<in> set (dec_string n) \<Longrightarrow> is_digit c"
  unfolding dec_string_def
proof (induction "10 :: nat" n rule: radix_string.induct)
  case (1 n)
  then show ?case by (auto simp: radix_string.simps [of 10 n] is_digit_char split: if_splits)
qed

lemma dec_string_nonempty: "dec_string n \<noteq> []"
  by (simp add: dec_string_def radix_string.simps [of 10 n])

text \<open>The number before the next dot, and what follows the dot.\<close>

definition before_dot :: "string \<Rightarrow> nat" where
  "before_dot s = radix_value 10 (takeWhile (\<lambda>c. c \<noteq> CHR ''.'') s)"

definition after_dot :: "string \<Rightarrow> string" where
  "after_dot s = drop 1 (dropWhile (\<lambda>c. c \<noteq> CHR ''.'') s)"

lemma no_dot: "c \<in> set (dec_string n) \<Longrightarrow> c \<noteq> CHR ''.''"
  using dec_digits [of c n] by (auto simp: is_digit_def)

lemma dot_simps [simp]:
  "before_dot (dec_string n @ CHR ''.'' # s) = n" "before_dot (dec_string n) = n"
  "after_dot (dec_string n @ CHR ''.'' # s) = s"
proof -
  have t: "takeWhile (\<lambda>c. c \<noteq> CHR ''.'') (dec_string n @ xs) = dec_string n @ takeWhile (\<lambda>c. c \<noteq> CHR ''.'') xs"
    and d: "dropWhile (\<lambda>c. c \<noteq> CHR ''.'') (dec_string n @ xs) = dropWhile (\<lambda>c. c \<noteq> CHR ''.'') xs" for xs
    using no_dot [of _ n] by (auto intro!: takeWhile_append2 dropWhile_append2)
  show "before_dot (dec_string n @ CHR ''.'' # s) = n" "after_dot (dec_string n @ CHR ''.'' # s) = s"
    by (simp_all add: before_dot_def after_dot_def t d dec_value)
  have "takeWhile (\<lambda>c. c \<noteq> CHR ''.'') (dec_string n) = dec_string n" using t [of "[]"] by (simp only: append_Nil2 takeWhile.simps)
  then show "before_dot (dec_string n) = n" unfolding before_dot_def by (simp only: dec_value)
qed

definition quad_value :: "string \<Rightarrow> nat" where
  "quad_value s = before_dot s * 16777216 + before_dot (after_dot s) * 65536 + before_dot (after_dot (after_dot s)) * 256 +
     before_dot (after_dot (after_dot (after_dot s)))"

lemma quad_value_ntoa: "quad_value (inet_ntoa a) = unat a"
proof -
  let ?n = "unat a"
  have "?n = ?n div 65536 * 65536 + ?n mod 65536" by simp
  moreover have "?n div 65536 = ?n div 16777216 * 256 + ?n div 65536 mod 256"
    using div_mult_mod_eq [of "?n div 65536" 256] by (simp add: div_mult2_eq [symmetric])
  moreover have "?n mod 65536 = ?n div 256 mod 256 * 256 + ?n mod 256"
    using mod_mult2_eq [of ?n 256 256] by simp
  ultimately show ?thesis by (simp add: quad_value_def inet_ntoa_def)
qed

section \<open>Reading addresses back\<close>

fun hex_pairs :: "string \<Rightarrow> u8 list" where
  "hex_pairs (c # d # s) = of_nat (radix_value 16 [c, d]) # hex_pairs (drop 1 s)"
| "hex_pairs s = []"

lemma hex_byte: "\<exists>c d. zero_filled 2 (hex_string (unat b)) = [c, d] \<and> radix_value 16 [c, d] = unat b" for b :: u8
proof (cases "unat b < 16")
  case True
  then show ?thesis
    using char_digit_char [of "unat b"] char_digit_char [of 0]
    by (simp add: zero_filled_def hex_string_def radix_string.simps [of 16 "unat b"] radix_value_def char_digit_def)
next
  case False
  moreover have "unat b < 256" using unsigned_less [of b, where 'a = nat] by simp
  moreover have "unat b div 16 < 16" using calculation by simp
  ultimately have "hex_string (unat b) = [digit_char (unat b div 16), digit_char (unat b mod 16)]"
    by (simp add: hex_string_def radix_string.simps [of 16 "unat b"] radix_string.simps [of 16 "unat b div 16"])
  then show ?thesis using radix_value_string [of 16 "unat b"] by (simp add: zero_filled_def hex_string_def)
qed

lemma hex_pairs_string: "hex_pairs (EthernetAddress_to_string a) = a"
proof (induction a)
  case (Cons b bs)
  obtain c d where "zero_filled 2 (hex_string (unat b)) = [c, d]" "radix_value 16 [c, d] = unat b" using hex_byte by blast
  then show ?case using Cons.IH by (cases bs) simp_all
qed simp

text \<open>The printed forms of addresses are unambiguous: two IPv4 addresses with the same dotted quad and
  two Ethernet addresses with the same printed form are equal, since the address can be computed from
  the text.\<close>

theorem printed_addresses_unique:
  "(inet_ntoa a = inet_ntoa b \<longleftrightarrow> a = b) \<and> (EthernetAddress_to_string x = EthernetAddress_to_string y \<longleftrightarrow> x = y) \<and>
   quad_value (inet_ntoa a) = unat a \<and> hex_pairs (EthernetAddress_to_string x) = x"
  using quad_value_ntoa [of a] quad_value_ntoa [of b] hex_pairs_string [of x] hex_pairs_string [of y]
  by (metis unsigned_word_eqI)

end
