(* ===== verification/Socket_Address.thy ===== *)
theory Socket_Address
  imports Text_Output
begin

unbundle bit_operations_syntax

text \<open>
  Address (libsponge/util/address.hh, address.cc): a socket address is its size and the bytes of a
  \<open>sockaddr_storage\<close>, laid out as on a little-endian machine. \<open>getaddrinfo\<close> and \<open>getnameinfo\<close> belong to
  the system and are arguments: the first takes the node, the service and the hints and returns an
  error code and the list of addresses, the second takes the bytes of a socket address and returns an
  error code and the numeric host and service. What is relied on is \<open>numeric_resolver\<close>: dotted quads and
  decimal ports are resolved without a lookup, to the IPv4 address they stand for, and printed the
  same way. Exceptions are \<open>None\<close>.
\<close>

section \<open>The class\<close>

record Address =
  ad_size :: nat
  ad_storage :: bytes

definition sizeof_sockaddr_storage :: nat where
  "sizeof_sockaddr_storage = 128"

definition sizeof_sockaddr_in :: nat where
  "sizeof_sockaddr_in = 16"

definition AF_INET :: nat where
  "AF_INET = 2"

definition AI_NUMERICHOST :: nat where
  "AI_NUMERICHOST = 4"

definition AI_ALL :: nat where
  "AI_ALL = 16"

definition AI_NUMERICSERV :: nat where
  "AI_NUMERICSERV = 1024"

record addrinfo =
  ai_flags :: nat
  ai_family :: nat

record resolver =
  rs_getaddrinfo :: "string \<Rightarrow> string \<Rightarrow> addrinfo \<Rightarrow> int \<times> bytes list"
  rs_getnameinfo :: "bytes \<Rightarrow> int \<times> string \<times> string"

text \<open>Copying more than the object has is undefined.\<close>

definition Address_of_sockaddr :: "bytes \<Rightarrow> nat \<Rightarrow> Address option" where
  "Address_of_sockaddr addr sz =
     (if sz > sizeof_sockaddr_storage then None
      else if sz > length addr then None
      else Some \<lparr>ad_size = sz, ad_storage = take sz addr @ replicate (sizeof_sockaddr_storage - sz) 0\<rparr>)"

definition Address_of_hints :: "resolver \<Rightarrow> string \<Rightarrow> string \<Rightarrow> addrinfo \<Rightarrow> Address option" where
  "Address_of_hints rs node service hints =
     (let (gai_ret, resolved_address) = rs_getaddrinfo rs node service hints in
      if gai_ret \<noteq> 0 then None
      else (case resolved_address of [] \<Rightarrow> None | ai_addr # _ \<Rightarrow> Address_of_sockaddr ai_addr (length ai_addr)))"

definition make_hints :: "nat \<Rightarrow> nat \<Rightarrow> addrinfo" where
  "make_hints flags family = \<lparr>ai_flags = flags, ai_family = family\<rparr>"

definition Address_of_service :: "resolver \<Rightarrow> string \<Rightarrow> string \<Rightarrow> Address option" where
  "Address_of_service rs hostname service = Address_of_hints rs hostname service (make_hints AI_ALL AF_INET)"

definition Address_of_ip :: "resolver \<Rightarrow> string \<Rightarrow> u16 \<Rightarrow> Address option" where
  "Address_of_ip rs ip port =
     Address_of_hints rs ip (dec_string (unat port)) (make_hints (AI_NUMERICHOST OR AI_NUMERICSERV) AF_INET)"

text \<open>\<open>stoi\<close> skips white space, takes a sign and as many digits as follow; it throws when there are none
  or the number is not an \<open>int\<close>.\<close>

definition is_space :: "char \<Rightarrow> bool" where
  "is_space c \<longleftrightarrow> of_char c = (32 :: nat) \<or> (9 \<le> (of_char c :: nat) \<and> (of_char c :: nat) \<le> 13)"

definition stoi :: "string \<Rightarrow> int option" where
  "stoi s =
     (let s = dropWhile is_space s;
          neg = (s \<noteq> [] \<and> hd s = CHR ''-'');
          s = (if s \<noteq> [] \<and> (hd s = CHR ''-'' \<or> hd s = CHR ''+'') then tl s else s);
          digits = takeWhile is_digit s;
          n = (if neg then - int (radix_value 10 digits) else int (radix_value 10 digits)) in
      if digits = [] \<or> n < - (2 ^ 31) \<or> n \<ge> 2 ^ 31 then None else Some n)"

definition Address_ip_port :: "resolver \<Rightarrow> Address \<Rightarrow> (string \<times> u16) option" where
  "Address_ip_port rs a =
     (let (gni_ret, ip, port) = rs_getnameinfo rs (take (ad_size a) (ad_storage a)) in
      if gni_ret \<noteq> 0 then None
      else map_option (\<lambda>n. (ip, of_int n)) (stoi port))"

definition Address_ip :: "resolver \<Rightarrow> Address \<Rightarrow> string option" where
  "Address_ip rs a = map_option fst (Address_ip_port rs a)"

definition Address_port :: "resolver \<Rightarrow> Address \<Rightarrow> u16 option" where
  "Address_port rs a = map_option snd (Address_ip_port rs a)"

definition Address_to_string :: "resolver \<Rightarrow> Address \<Rightarrow> string option" where
  "Address_to_string rs a = map_option (\<lambda>(ip, port). ip @ '':'' @ dec_string (unat port)) (Address_ip_port rs a)"

text \<open>The family is the first two bytes; the fields of a \<open>sockaddr_in\<close> follow, port and address in
  network byte order.\<close>

definition ss_family :: "bytes \<Rightarrow> nat" where
  "ss_family storage = unat (storage ! 0) + 256 * unat (storage ! 1)"

definition Address_ipv4_numeric :: "Address \<Rightarrow> u32 option" where
  "Address_ipv4_numeric a =
     (if ss_family (ad_storage a) \<noteq> AF_INET \<or> ad_size a \<noteq> sizeof_sockaddr_in then None
      else Some (of_nat (be_at 4 4 (ad_storage a))))"

definition sockaddr_in :: "u32 \<Rightarrow> u16 \<Rightarrow> bytes" where
  "sockaddr_in ip_address port = [2, 0] @ be_bytes port @ be_bytes ip_address @ replicate 8 0"

definition Address_from_ipv4_numeric :: "u32 \<Rightarrow> Address option" where
  "Address_from_ipv4_numeric ip_address = Address_of_sockaddr (sockaddr_in ip_address 0) sizeof_sockaddr_in"

definition Address_eq :: "Address \<Rightarrow> Address \<Rightarrow> bool" where
  "Address_eq a other =
     (if ad_size a \<noteq> ad_size other then False
      else take (ad_size a) (ad_storage a) = take (ad_size a) (ad_storage other))"

section \<open>IPv4 addresses\<close>

text \<open>The address object of an IPv4 address and a port.\<close>

definition ipv4_address :: "u32 \<Rightarrow> u16 \<Rightarrow> Address" where
  "ipv4_address ip port = \<lparr>ad_size = 16, ad_storage = sockaddr_in ip port @ replicate 112 0\<rparr>"

definition numeric_resolver :: "resolver \<Rightarrow> bool" where
  "numeric_resolver rs \<longleftrightarrow> (\<forall>ip (port :: u16).
     (\<exists>others. rs_getaddrinfo rs (inet_ntoa ip) (dec_string (unat port)) (make_hints (AI_NUMERICHOST OR AI_NUMERICSERV) AF_INET) =
        (0, sockaddr_in ip port # others)) \<and>
     rs_getnameinfo rs (sockaddr_in ip port) = (0, inet_ntoa ip, dec_string (unat port)))"

lemma length_sockaddr_in [simp]: "length (sockaddr_in ip port) = 16"
  by (simp add: sockaddr_in_def)

lemma be_at_sockaddr: "be_at 4 4 (sockaddr_in ip port @ rest) = unat ip" "be_at 2 2 (sockaddr_in ip port @ rest) = unat port"
  by (simp_all add: be_at_def sockaddr_in_def be_nat_be_bytes)

lemma sockaddr_in_inject: "sockaddr_in ip port = sockaddr_in ip' port' \<longleftrightarrow> ip = ip' \<and> port = port'"
  using be_at_sockaddr [of ip port "[]"] be_at_sockaddr [of ip' port' "[]"]
  by (metis append_Nil2 word_unat_eq_iff)

lemma Address_of_sockaddr_in: "Address_of_sockaddr (sockaddr_in ip port) 16 = Some (ipv4_address ip port)"
  by (simp add: Address_of_sockaddr_def sizeof_sockaddr_storage_def ipv4_address_def)

lemma ipv4_numeric [simp]: "Address_ipv4_numeric (ipv4_address ip port) = Some ip"
  by (simp add: Address_ipv4_numeric_def ipv4_address_def be_at_sockaddr ss_family_def AF_INET_def sizeof_sockaddr_in_def)
    (simp add: sockaddr_in_def)

lemma Address_eq_ipv4 [simp]: "Address_eq (ipv4_address ip port) (ipv4_address ip' port') \<longleftrightarrow> ip = ip' \<and> port = port'"
  by (simp add: Address_eq_def ipv4_address_def sockaddr_in_inject)

lemma digit_not_sign: "is_digit c \<Longrightarrow> \<not> is_space c \<and> c \<noteq> CHR ''-'' \<and> c \<noteq> CHR ''+''"
  by (auto simp: is_digit_def is_space_def)

lemma stoi_dec:
  assumes "n < 2 ^ 31"
  shows "stoi (dec_string n) = Some (int n)"
proof -
  obtain c s where cs: "dec_string n = c # s" using dec_string_nonempty by (cases "dec_string n") auto
  have c: "\<not> is_space c \<and> c \<noteq> CHR ''-'' \<and> c \<noteq> CHR ''+''" using dec_digits [of c n] cs by (intro digit_not_sign) simp
  have "takeWhile is_digit (c # s) = c # s" using dec_digits [of _ n] unfolding cs by (auto intro: takeWhile_eq_all_conv [THEN iffD2])
  then show ?thesis using c assms dec_value [of n] by (simp add: stoi_def cs Let_def)
qed

lemma ip_port_ipv4:
  assumes "numeric_resolver rs"
  shows "Address_ip_port rs (ipv4_address ip port) = Some (inet_ntoa ip, port)"
proof -
  have "unat port < 65536" using unsigned_less [of port, where 'a = nat] by simp
  then have "stoi (dec_string (unat port)) = Some (int (unat port))" by (intro stoi_dec) simp
  then show ?thesis using assms by (simp add: Address_ip_port_def ipv4_address_def numeric_resolver_def)
qed

lemma port_ipv4 [simp]: "numeric_resolver rs \<Longrightarrow> Address_port rs (ipv4_address ip port) = Some port"
  by (simp add: Address_port_def ip_port_ipv4)

lemma Address_of_quad:
  "numeric_resolver rs \<Longrightarrow> Address_of_ip rs (inet_ntoa ip) port = Some (ipv4_address ip port)"
  by (auto simp: Address_of_ip_def Address_of_hints_def numeric_resolver_def Address_of_sockaddr_in
    dest!: spec [of _ ip] spec [of _ port])

section \<open>The properties\<close>

text \<open>An address made from a dotted quad and a port, with a resolver that treats numeric strings as
  documented, gives back the number, the quad and the port, equals another exactly when address and
  port are the same, and the address made from a number is the one of its quad with port 0.\<close>

theorem Address_roundtrip:
  assumes "numeric_resolver rs"
  shows "\<exists>a b. Address_of_ip rs (inet_ntoa ip) port = Some a \<and> Address_of_ip rs (inet_ntoa ip') port' = Some b \<and>
    Address_ipv4_numeric a = Some ip \<and> Address_ip rs a = Some (inet_ntoa ip) \<and> Address_port rs a = Some port \<and>
    Address_to_string rs a = Some (inet_ntoa ip @ '':'' @ dec_string (unat port)) \<and>
    (Address_eq a b \<longleftrightarrow> ip = ip' \<and> port = port') \<and>
    Address_from_ipv4_numeric ip = Address_of_ip rs (inet_ntoa ip) 0"
  using assms Address_of_quad [OF assms, of ip' port']
  by (simp add: Address_of_quad Address_ip_def ip_port_ipv4 Address_to_string_def Address_from_ipv4_numeric_def
    sizeof_sockaddr_in_def Address_of_sockaddr_in)

text \<open>A resolver for numeric strings.\<close>

definition example_resolver :: resolver where
  "example_resolver = \<lparr>rs_getaddrinfo = (\<lambda>node service hints. (0, [sockaddr_in (of_nat (quad_value node)) (of_nat (radix_value 10 service))])),
     rs_getnameinfo = (\<lambda>sa. (0, inet_ntoa (of_nat (be_at 4 4 sa)), dec_string (be_at 2 2 sa)))\<rparr>"

lemma example_resolver_numeric: "numeric_resolver example_resolver"
  using be_at_sockaddr [where rest = "[]"]
  by (simp add: numeric_resolver_def example_resolver_def quad_value_ntoa dec_value)

theorem Address_roundtrip_witness:
  "\<exists>a b. Address_of_ip example_resolver (inet_ntoa 0xa9fe9009) 80 = Some a \<and> Address_of_ip example_resolver (inet_ntoa 0x7f000001) 80 = Some b \<and>
    Address_ipv4_numeric a = Some 0xa9fe9009 \<and> Address_ip example_resolver a = Some (inet_ntoa 0xa9fe9009) \<and>
    Address_port example_resolver a = Some 80 \<and> \<not> Address_eq a b"
  using Address_roundtrip [OF example_resolver_numeric, of "0xa9fe9009" 80 "0x7f000001" 80] by auto

end
