(* ===== verification/Adapters.thy ===== *)
theory Adapters
  imports Socket_Address "HOL-Library.Stream"
begin

text \<open>
  The adapters between segments and datagrams: FdAdapterConfig (libsponge/tcp\_helpers/
  tcp\_config.hh), FdAdapterBase and TCPOverUDPSocketAdapter (fd\_adapter.hh, fd\_adapter.cc),
  TCPOverIPv4Adapter (tcp\_over\_ip.hh, tcp\_over\_ip.cc), the TUN and Ethernet adapters
  (tuntap\_adapter.hh, tuntap\_adapter.cc), LossyFdAdapter (lossy\_fd\_adapter.hh) and the
  NetworkInterface (network\_interface.hh, network\_interface.cc), which is a dummy here.

  The device is not part of an adapter: \<open>read\<close> takes what the device returned, \<open>write\<close> returns what is
  written to it. The outputs of the random number generator of a lossy adapter are a stream.
\<close>

section \<open>FdAdapterBase\<close>

record FdAdapterConfig =
  fc_source :: Address
  fc_destination :: Address
  fc_loss_rate_dn :: u16
  fc_loss_rate_up :: u16

record FdAdapterBase =
  fa_cfg :: FdAdapterConfig
  fa_listen :: bool

definition FdAdapterBase_set_listening :: "bool \<Rightarrow> FdAdapterBase \<Rightarrow> FdAdapterBase" where
  "FdAdapterBase_set_listening l a = a\<lparr>fa_listen := l\<rparr>"

section \<open>TCPOverIPv4Adapter\<close>

text \<open>The last test of \<open>unwrap_tcp_in_ip\<close>: is the segment from the peer?\<close>

definition unwrap_from_peer :: "resolver \<Rightarrow> TCPSegment \<Rightarrow> FdAdapterBase \<Rightarrow> (TCPSegment option \<times> FdAdapterBase) option" where
  "unwrap_from_peer rs tcp_seg a = do {
     port \<leftarrow> Address_port rs (fc_destination (fa_cfg a));
     if th_sport (seg_header tcp_seg) \<noteq> port then Some (None, a) else Some (Some tcp_seg, a)
   }"

text \<open>The two tests on the addresses are made only when the adapter is not listening.\<close>

definition unwrap_address_matches :: "u32 \<Rightarrow> Address \<Rightarrow> FdAdapterBase \<Rightarrow> bool option" where
  "unwrap_address_matches ip address a =
     (if fa_listen a then Some True else do { n \<leftarrow> Address_ipv4_numeric address; Some (ip = n) })"

definition TCPOverIPv4Adapter_unwrap_tcp_in_ip ::
  "resolver \<Rightarrow> IPv4Datagram \<Rightarrow> FdAdapterBase \<Rightarrow> (TCPSegment option \<times> FdAdapterBase) option" where
  "TCPOverIPv4Adapter_unwrap_tcp_in_ip rs ip_dgram a = do {
     for_us \<leftarrow> unwrap_address_matches (ih_dst (dg_header ip_dgram)) (fc_source (fa_cfg a)) a;
     if \<not> for_us then Some (None, a) else do {
     from_peer \<leftarrow> unwrap_address_matches (ih_src (dg_header ip_dgram)) (fc_destination (fa_cfg a)) a;
     if \<not> from_peer then Some (None, a)
     else if ih_proto (dg_header ip_dgram) \<noteq> IPv4Header_PROTO_TCP then Some (None, a)
     else do {
     buffer \<leftarrow> BufferList_to_Buffer (dg_payload ip_dgram);
     (result, tcp_seg) \<leftarrow> TCPSegment_parse buffer (IPv4Header_pseudo_cksum (dg_header ip_dgram)) TCPSegment_default;
     if result \<noteq> NoError then Some (None, a) else do {
     port \<leftarrow> Address_port rs (fc_source (fa_cfg a));
     if th_dport (seg_header tcp_seg) \<noteq> port then Some (None, a)
     else if fa_listen a then
       (if th_syn (seg_header tcp_seg) \<and> \<not> th_rst (seg_header tcp_seg) then do {
          source \<leftarrow> Address_of_ip rs (inet_ntoa (ih_dst (dg_header ip_dgram))) port;
          destination \<leftarrow> Address_of_ip rs (inet_ntoa (ih_src (dg_header ip_dgram))) (th_sport (seg_header tcp_seg));
          unwrap_from_peer rs tcp_seg (FdAdapterBase_set_listening False
            (a\<lparr>fa_cfg := (fa_cfg a)\<lparr>fc_source := source, fc_destination := destination\<rparr>\<rparr>))
        } else Some (None, a))
     else unwrap_from_peer rs tcp_seg a
     }}}
   }"

text \<open>The length is computed in 64 bits and converted to 16. The segment is changed in place.\<close>

definition TCPOverIPv4Adapter_wrap_tcp_in_ip ::
  "resolver \<Rightarrow> TCPSegment \<Rightarrow> FdAdapterBase \<Rightarrow> (IPv4Datagram \<times> TCPSegment) option" where
  "TCPOverIPv4Adapter_wrap_tcp_in_ip rs seg a = do {
     sport \<leftarrow> Address_port rs (fc_source (fa_cfg a));
     dport \<leftarrow> Address_port rs (fc_destination (fa_cfg a));
     let seg = seg\<lparr>seg_header := (seg_header seg)\<lparr>th_sport := sport, th_dport := dport\<rparr>\<rparr>;
     src \<leftarrow> Address_ipv4_numeric (fc_source (fa_cfg a));
     dst \<leftarrow> Address_ipv4_numeric (fc_destination (fa_cfg a));
     let h = (dg_header IPv4Datagram_default)\<lparr>ih_src := src, ih_dst := dst\<rparr>;
     let h = h\<lparr>ih_len := of_nat (add64 (unat (ih_hlen h) * 4 + unat (th_doff (seg_header seg)) * 4) (Buffer_size (seg_payload seg)))\<rparr>;
     payload \<leftarrow> TCPSegment_serialize (IPv4Header_pseudo_cksum h) seg;
     Some (IPv4Datagram_default\<lparr>dg_header := h, dg_payload := payload\<rparr>, seg)
   }"

section \<open>TCPOverIPv4OverTunFdAdapter\<close>

definition TCPOverIPv4OverTunFdAdapter_read ::
  "resolver \<Rightarrow> bytes \<Rightarrow> FdAdapterBase \<Rightarrow> (TCPSegment option \<times> FdAdapterBase) option" where
  "TCPOverIPv4OverTunFdAdapter_read rs tun_data a = do {
     (result, ip_dgram) \<leftarrow> IPv4Datagram_parse (Buffer_init tun_data) IPv4Datagram_default;
     if result \<noteq> NoError then Some (None, a) else TCPOverIPv4Adapter_unwrap_tcp_in_ip rs ip_dgram a
   }"

definition TCPOverIPv4OverTunFdAdapter_write ::
  "resolver \<Rightarrow> TCPSegment \<Rightarrow> FdAdapterBase \<Rightarrow> (BufferList \<times> TCPSegment) option" where
  "TCPOverIPv4OverTunFdAdapter_write rs seg a = do {
     (ip_dgram, seg) \<leftarrow> TCPOverIPv4Adapter_wrap_tcp_in_ip rs seg a;
     out \<leftarrow> IPv4Datagram_serialize ip_dgram;
     Some (out, seg)
   }"

section \<open>TCPOverUDPSocketAdapter\<close>

text \<open>The datagram that \<open>recv\<close> returned: the address of its source and the payload.\<close>

definition TCPOverUDPSocketAdapter_read ::
  "Address \<times> bytes \<Rightarrow> FdAdapterBase \<Rightarrow> (TCPSegment option \<times> FdAdapterBase) option" where
  "TCPOverUDPSocketAdapter_read datagram a =
     (let (source_address, payload) = datagram in
      if \<not> fa_listen a \<and> \<not> Address_eq source_address (fc_destination (fa_cfg a)) then Some (None, a)
      else do {
        (result, seg) \<leftarrow> TCPSegment_parse (Buffer_init payload) 0 TCPSegment_default;
        if result \<noteq> NoError then Some (None, a)
        else if fa_listen a then
          (if th_syn (seg_header seg) \<and> \<not> th_rst (seg_header seg)
           then Some (Some seg, FdAdapterBase_set_listening False
             (a\<lparr>fa_cfg := (fa_cfg a)\<lparr>fc_destination := source_address\<rparr>\<rparr>))
           else Some (None, a))
        else Some (Some seg, a)
      })"

text \<open>What \<open>sendto\<close> is called with, and the segment that was changed.\<close>

definition TCPOverUDPSocketAdapter_write ::
  "resolver \<Rightarrow> TCPSegment \<Rightarrow> FdAdapterBase \<Rightarrow> ((Address \<times> BufferList) \<times> TCPSegment) option" where
  "TCPOverUDPSocketAdapter_write rs seg a = do {
     sport \<leftarrow> Address_port rs (fc_source (fa_cfg a));
     dport \<leftarrow> Address_port rs (fc_destination (fa_cfg a));
     let seg = seg\<lparr>seg_header := (seg_header seg)\<lparr>th_sport := sport, th_dport := dport\<rparr>\<rparr>;
     payload \<leftarrow> TCPSegment_serialize 0 seg;
     Some ((fc_destination (fa_cfg a), payload), seg)
   }"

section \<open>LossyFdAdapter\<close>

text \<open>The template parameter is the type of the adapter; its operations are arguments.\<close>

record 'a LossyFdAdapter =
  ly_rand :: "u32 stream"
  ly_adapter :: 'a

definition LossyFdAdapter_should_drop :: "('a \<Rightarrow> FdAdapterConfig) \<Rightarrow> bool \<Rightarrow> 'a LossyFdAdapter \<Rightarrow> bool \<times> 'a LossyFdAdapter" where
  "LossyFdAdapter_should_drop config uplink ly =
     (let cfg = config (ly_adapter ly); loss = (if uplink then fc_loss_rate_up cfg else fc_loss_rate_dn cfg) in
      if loss \<noteq> 0 then ((ucast (shd (ly_rand ly)) :: u16) < loss, ly\<lparr>ly_rand := stl (ly_rand ly)\<rparr>)
      else (False, ly))"

definition LossyFdAdapter_read ::
  "('a \<Rightarrow> FdAdapterConfig) \<Rightarrow> ('a \<Rightarrow> (TCPSegment option \<times> 'a) option) \<Rightarrow> 'a LossyFdAdapter \<Rightarrow> (TCPSegment option \<times> 'a LossyFdAdapter) option" where
  "LossyFdAdapter_read config read ly = do {
     (ret, adapter) \<leftarrow> read (ly_adapter ly);
     let (drop, ly) = LossyFdAdapter_should_drop config False (ly\<lparr>ly_adapter := adapter\<rparr>);
     if drop then Some (None, ly) else Some (ret, ly)
   }"

text \<open>What is written, if anything, and the segment.\<close>

definition LossyFdAdapter_write ::
  "('a \<Rightarrow> FdAdapterConfig) \<Rightarrow> (TCPSegment \<Rightarrow> 'a \<Rightarrow> ('out \<times> TCPSegment) option) \<Rightarrow> TCPSegment \<Rightarrow> 'a LossyFdAdapter \<Rightarrow>
    (('out option \<times> TCPSegment) \<times> 'a LossyFdAdapter) option" where
  "LossyFdAdapter_write config write seg ly =
     (let (drop, ly) = LossyFdAdapter_should_drop config True ly in
      if drop then Some ((None, seg), ly)
      else map_option (\<lambda>(out, seg). ((Some out, seg), ly)) (write seg (ly_adapter ly)))"

section \<open>NetworkInterface and TCPOverIPv4OverEthernetAdapter\<close>

record NetworkInterface =
  ni_ethernet_address :: EthernetAddress
  ni_ip_address :: Address
  ni_frames_out :: "EthernetFrame list"

definition NetworkInterface_init :: "EthernetAddress \<Rightarrow> Address \<Rightarrow> NetworkInterface" where
  "NetworkInterface_init ethernet_address ip_address =
     \<lparr>ni_ethernet_address = ethernet_address, ni_ip_address = ip_address, ni_frames_out = []\<rparr>"

definition NetworkInterface_send_datagram :: "IPv4Datagram \<Rightarrow> Address \<Rightarrow> NetworkInterface \<Rightarrow> NetworkInterface option" where
  "NetworkInterface_send_datagram dgram next_hop ni = do {
     next_hop_ip \<leftarrow> Address_ipv4_numeric next_hop;
     Some ni
   }"

definition NetworkInterface_recv_frame :: "EthernetFrame \<Rightarrow> NetworkInterface \<Rightarrow> IPv4Datagram option \<times> NetworkInterface" where
  "NetworkInterface_recv_frame frame ni = (None, ni)"

definition NetworkInterface_tick :: "u64 \<Rightarrow> NetworkInterface \<Rightarrow> NetworkInterface" where
  "NetworkInterface_tick ms_since_last_tick ni = ni"

record TCPOverIPv4OverEthernetAdapter =
  ea_base :: FdAdapterBase
  ea_interface :: NetworkInterface
  ea_next_hop :: Address

text \<open>The frames written to the device.\<close>

definition TCPOverIPv4OverEthernetAdapter_send_pending ::
  "TCPOverIPv4OverEthernetAdapter \<Rightarrow> BufferList list \<times> TCPOverIPv4OverEthernetAdapter" where
  "TCPOverIPv4OverEthernetAdapter_send_pending e =
     (map EthernetFrame_serialize (ni_frames_out (ea_interface e)), e\<lparr>ea_interface := (ea_interface e)\<lparr>ni_frames_out := []\<rparr>\<rparr>)"

definition TCPOverIPv4OverEthernetAdapter_init ::
  "FdAdapterBase \<Rightarrow> EthernetAddress \<Rightarrow> Address \<Rightarrow> Address \<Rightarrow> BufferList list \<times> TCPOverIPv4OverEthernetAdapter" where
  "TCPOverIPv4OverEthernetAdapter_init base eth_address ip_address next_hop =
     ([EthernetFrame_serialize EthernetFrame_default],
      \<lparr>ea_base = base, ea_interface = NetworkInterface_init eth_address ip_address, ea_next_hop = next_hop\<rparr>)"

definition TCPOverIPv4OverEthernetAdapter_read ::
  "resolver \<Rightarrow> bytes \<Rightarrow> TCPOverIPv4OverEthernetAdapter \<Rightarrow> ((TCPSegment option \<times> BufferList list) \<times> TCPOverIPv4OverEthernetAdapter) option" where
  "TCPOverIPv4OverEthernetAdapter_read rs tap_data e = do {
     (result, frame) \<leftarrow> EthernetFrame_parse (Buffer_init tap_data) EthernetFrame_default;
     if result \<noteq> NoError then Some ((None, []), e)
     else (let (ip_dgram, ni) = NetworkInterface_recv_frame frame (ea_interface e);
               (sent, e) = TCPOverIPv4OverEthernetAdapter_send_pending (e\<lparr>ea_interface := ni\<rparr>) in
       case ip_dgram of
         Some dgram \<Rightarrow> map_option (\<lambda>(seg, base). ((seg, sent), e\<lparr>ea_base := base\<rparr>)) (TCPOverIPv4Adapter_unwrap_tcp_in_ip rs dgram (ea_base e))
       | None \<Rightarrow> Some ((None, sent), e))
   }"

definition TCPOverIPv4OverEthernetAdapter_tick ::
  "u64 \<Rightarrow> TCPOverIPv4OverEthernetAdapter \<Rightarrow> BufferList list \<times> TCPOverIPv4OverEthernetAdapter" where
  "TCPOverIPv4OverEthernetAdapter_tick ms_since_last_tick e =
     TCPOverIPv4OverEthernetAdapter_send_pending (e\<lparr>ea_interface := NetworkInterface_tick ms_since_last_tick (ea_interface e)\<rparr>)"

definition TCPOverIPv4OverEthernetAdapter_write ::
  "resolver \<Rightarrow> TCPSegment \<Rightarrow> TCPOverIPv4OverEthernetAdapter \<Rightarrow> ((BufferList list \<times> TCPSegment) \<times> TCPOverIPv4OverEthernetAdapter) option" where
  "TCPOverIPv4OverEthernetAdapter_write rs seg e = do {
     (dgram, seg) \<leftarrow> TCPOverIPv4Adapter_wrap_tcp_in_ip rs seg (ea_base e);
     ni \<leftarrow> NetworkInterface_send_datagram dgram (ea_next_hop e) (ea_interface e);
     let (sent, e) = TCPOverIPv4OverEthernetAdapter_send_pending (e\<lparr>ea_interface := ni\<rparr>);
     Some ((sent, seg), e)
   }"

section \<open>Segments through IPv4\<close>

text \<open>An adapter of the endpoint with address \<open>ip\<close> and port \<open>p\<close>, connected to the peer \<open>ip'\<close>, \<open>p'\<close>.\<close>

definition connects :: "FdAdapterBase \<Rightarrow> u32 \<times> u16 \<Rightarrow> u32 \<times> u16 \<Rightarrow> bool" where
  "connects a us them \<longleftrightarrow> fc_source (fa_cfg a) = ipv4_address (fst us) (snd us) \<and>
     fc_destination (fa_cfg a) = ipv4_address (fst them) (snd them)"

text \<open>What the peer gets of a segment: all fields that matter to a connection.\<close>

definition same_contents :: "TCPSegment \<Rightarrow> TCPSegment \<Rightarrow> bool" where
  "same_contents s t \<longleftrightarrow> TCPHeader_eq (seg_header s) (seg_header t) \<and> Buffer_str (seg_payload s) = Buffer_str (seg_payload t)"

text \<open>Segments that fit a datagram.\<close>

definition fits_datagram :: "TCPSegment \<Rightarrow> bool" where
  "fits_datagram seg \<longleftrightarrow> 5 \<le> th_doff (seg_header seg) \<and> th_doff (seg_header seg) < 16 \<and>
     20 + 4 * unat (th_doff (seg_header seg)) + length (Buffer_str (seg_payload seg)) \<le> 65535"

lemma TCPSegment_serialize_length:
  assumes "5 \<le> th_doff (seg_header seg)"
  shows "\<exists>l. TCPSegment_serialize ck seg = Some l \<and>
    length (BufferList_concatenate l) = 4 * unat (th_doff (seg_header seg)) + length (Buffer_str (seg_payload seg))"
  using assms by (rule TCPSegment_serialize_eq [of seg ck]) (use assms in \<open>auto simp: length_header_pad word_le_nat_alt\<close>)

lemma unat_of_nat_u16: "m \<le> 65535 \<Longrightarrow> unat (of_nat m :: u16) = m"
  by (simp add: unat_of_nat take_bit_eq_mod)

text \<open>The datagram written for a segment, with the ports in place, and the segment in it.\<close>

lemma wrapped_datagram:
  assumes rs: "numeric_resolver rs" and a: "connects a (ip, p) (ip', p')" and fits: "fits_datagram seg"
  obtains out sent dgram b seg' where "TCPOverIPv4OverTunFdAdapter_write rs seg a = Some (out, sent)"
    and "IPv4Datagram_parse (Buffer_init (BufferList_concatenate out)) IPv4Datagram_default = Some (NoError, dgram)"
    and "ih_src (dg_header dgram) = ip" and "ih_dst (dg_header dgram) = ip'" and "ih_proto (dg_header dgram) = IPv4Header_PROTO_TCP"
    and "BufferList_to_Buffer (dg_payload dgram) = Some b"
    and "TCPSegment_parse b (IPv4Header_pseudo_cksum (dg_header dgram)) TCPSegment_default = Some (NoError, seg')"
    and "th_sport (seg_header seg') = p" and "th_dport (seg_header seg') = p'" and "same_contents seg' seg"
    and "length (BufferList_concatenate out) < 2 ^ 17"
proof -
  let ?seg = "seg\<lparr>seg_header := (seg_header seg)\<lparr>th_sport := p, th_dport := p'\<rparr>\<rparr>"
  let ?n = "4 * unat (th_doff (seg_header seg)) + length (Buffer_str (seg_payload seg))"
  define h where "h = IPv4Header_default\<lparr>ih_src := ip, ih_dst := ip', ih_len := of_nat (20 + ?n)\<rparr>"
  have doff: "5 \<le> th_doff (seg_header ?seg)" "th_doff (seg_header ?seg) < 16"
    and len: "length (Buffer_str (seg_payload ?seg)) \<le> 65535" "20 + ?n \<le> 65535" using fits by (simp_all add: fits_datagram_def)
  obtain l where l: "TCPSegment_serialize (IPv4Header_pseudo_cksum h) ?seg = Some l" "length (BufferList_concatenate l) = ?n"
    using TCPSegment_serialize_length [OF doff(1), of "IPv4Header_pseudo_cksum h"] by auto
  define d where "d = IPv4Datagram_default\<lparr>dg_header := h, dg_payload := l\<rparr>"
  have hd: "dg_header IPv4Datagram_default = IPv4Header_default" by (simp add: IPv4Datagram_default_def)
  have "add64 (unat (ih_hlen IPv4Header_default) * 4 + unat (th_doff (seg_header seg)) * 4) (length (Buffer_str (seg_payload seg))) = 20 + ?n"
    using len by (subst add64_exact) (simp_all add: IPv4Header_default_def IPv4Header_LENGTH_def)
  then have w: "TCPOverIPv4Adapter_wrap_tcp_in_ip rs seg a = Some (d, ?seg)"
    using rs a l(1) by (simp add: TCPOverIPv4Adapter_wrap_tcp_in_ip_def connects_def d_def hd Let_def h_def)
  have ok: "ipv4_ok (dg_header d)" by (simp add: d_def h_def ipv4_ok_def IPv4Header_default_def IPv4Header_LENGTH_def)
  have hl: "unat (ih_len (dg_header d)) = 4 * unat (ih_hlen (dg_header d)) + length (BufferList_concatenate (dg_payload d))"
  proof -
    from unat_of_nat_u16 [OF len(2)] have "unat (ih_len h) = 20 + ?n" unfolding h_def by (simp only: IPv4Header.select_convs IPv4Header.update_convs IPv4Header_default_def)
    then show ?thesis using l(2) by (simp add: d_def) (simp add: h_def IPv4Header_default_def IPv4Header_LENGTH_def)
  qed
  obtain out b c q where o: "IPv4Datagram_serialize d = Some out"
    "IPv4Datagram_parse (Buffer_init (BufferList_concatenate out)) IPv4Datagram_default =
      Some (NoError, IPv4Datagram_default\<lparr>dg_header := (dg_header d)\<lparr>ih_cksum := c\<rparr>, dg_payload := BufferList_of_Buffer b\<rparr>)"
    "Buffer_ok b" "Buffer_str b = BufferList_concatenate (dg_payload d)" "length (BufferList_concatenate out) < 2 ^ 17"
    by (rule IPv4Datagram_parse_serialized [OF ok hl, of IPv4Datagram_default]) blast
  let ?d = "IPv4Datagram_default\<lparr>dg_header := (dg_header d)\<lparr>ih_cksum := c\<rparr>, dg_payload := BufferList_of_Buffer b\<rparr>"
  have ps: "IPv4Header_pseudo_cksum (dg_header ?d) = IPv4Header_pseudo_cksum h"
    by (simp add: d_def IPv4Header_pseudo_cksum_def IPv4Header_payload_length_def)
  have ck: "unat (IPv4Header_pseudo_cksum h) \<le> 2 ^ 20" using pseudo_cksum_sum [of h] by simp
  obtain payload where t: "TCPSegment_parse b (IPv4Header_pseudo_cksum h) TCPSegment_default =
      Some (NoError, TCPSegment_default\<lparr>seg_header := (seg_header ?seg)\<lparr>th_cksum := segment_checksum (IPv4Header_pseudo_cksum h) ?seg\<rparr>,
        seg_payload := payload\<rparr>)" "Buffer_str payload = Buffer_str (seg_payload ?seg)"
    by (rule TCPSegment_parse_serialized [OF doff len(1) ck l(1), of b]) (use o in \<open>simp_all add: d_def\<close>)
  show ?thesis
    by (rule that [of out ?seg ?d b, OF _ o(2) _ _ _ _ t(1) [folded ps]])
      (use w o t(2) in \<open>simp_all add: TCPOverIPv4OverTunFdAdapter_write_def BufferList_to_Buffer_def BufferList_of_Buffer_def
        same_contents_def TCPHeader_eq_def d_def h_def IPv4Header_default_def\<close>)
qed

lemmas unwrap_defs = TCPOverIPv4OverTunFdAdapter_read_def TCPOverIPv4Adapter_unwrap_tcp_in_ip_def unwrap_address_matches_def
  unwrap_from_peer_def FdAdapterBase_set_listening_def connects_def

lemma connected_reads:
  assumes "numeric_resolver rs" and "connects a (ip, p) (ip', p')" and "fits_datagram seg"
    and "connects b (ip', p') (ip, p)" and "\<not> fa_listen b"
  shows "\<exists>out sent seg'. TCPOverIPv4OverTunFdAdapter_write rs seg a = Some (out, sent) \<and>
    TCPOverIPv4OverTunFdAdapter_read rs (BufferList_concatenate out) b = Some (Some seg', b) \<and> same_contents seg' seg"
  by (rule wrapped_datagram [OF assms(1-3)]) (use assms(1,4,5) in \<open>auto simp: unwrap_defs\<close>)

text \<open>The payload of the UDP datagram written for a segment.\<close>

lemma udp_datagram:
  assumes "numeric_resolver rs" and "connects a (ip, p) (ip', p')" and "fits_datagram seg"
  obtains out sent seg' where "TCPOverUDPSocketAdapter_write rs seg a = Some ((ipv4_address ip' p', out), sent)"
    and "TCPSegment_parse (Buffer_init (BufferList_concatenate out)) 0 TCPSegment_default = Some (NoError, seg')"
    and "same_contents seg' seg" and "length (BufferList_concatenate out) < 2 ^ 17"
proof -
  let ?seg = "seg\<lparr>seg_header := (seg_header seg)\<lparr>th_sport := p, th_dport := p'\<rparr>\<rparr>"
  have doff: "5 \<le> th_doff (seg_header ?seg)" "th_doff (seg_header ?seg) < 16" "length (Buffer_str (seg_payload ?seg)) \<le> 65535"
    using assms(3) by (simp_all add: fits_datagram_def)
  obtain l where l: "TCPSegment_serialize 0 ?seg = Some l" "length (BufferList_concatenate l) < 2 ^ 17"
    using TCPSegment_serialize_length [OF doff(1), of 0] doff(2,3) by (auto simp: word_less_nat_alt)
  obtain payload where t: "TCPSegment_parse (Buffer_init (BufferList_concatenate l)) 0 TCPSegment_default =
      Some (NoError, TCPSegment_default\<lparr>seg_header := (seg_header ?seg)\<lparr>th_cksum := segment_checksum 0 ?seg\<rparr>, seg_payload := payload\<rparr>)"
    "Buffer_str payload = Buffer_str (seg_payload ?seg)"
    by (rule TCPSegment_parse_serialized [OF doff _ l(1), of "Buffer_init (BufferList_concatenate l)"]) (use l(2) in simp_all)
  show ?thesis
    by (rule that [OF _ t(1)]) (use assms(1,2) l t(2) in
      \<open>simp_all add: TCPOverUDPSocketAdapter_write_def connects_def Let_def same_contents_def TCPHeader_eq_def\<close>)
qed

section \<open>The properties\<close>

text \<open>C26. A segment written to a TUN device by one endpoint and read by the other is the same segment, with
  the ports of the two endpoints. A connected peer delivers it and stays as it is; a listening one
  delivers it only if it is a SYN without RST, and is then connected to the sender.\<close>

theorem TCPOverIPv4OverTunFdAdapter_delivers:
  assumes "numeric_resolver rs" and "connects a (ip, p) (ip', p')" and "fits_datagram seg"
  shows "\<exists>out sent. TCPOverIPv4OverTunFdAdapter_write rs seg a = Some (out, sent) \<and>
    (\<forall>b. connects b (ip', p') (ip, p) \<and> \<not> fa_listen b \<longrightarrow>
      (\<exists>seg'. TCPOverIPv4OverTunFdAdapter_read rs (BufferList_concatenate out) b = Some (Some seg', b) \<and> same_contents seg' seg)) \<and>
    (\<forall>b. Address_port rs (fc_source (fa_cfg b)) = Some p' \<and> fa_listen b \<longrightarrow>
      (if th_syn (seg_header seg) \<and> \<not> th_rst (seg_header seg)
       then \<exists>seg' b'. TCPOverIPv4OverTunFdAdapter_read rs (BufferList_concatenate out) b = Some (Some seg', b') \<and>
         same_contents seg' seg \<and> connects b' (ip', p') (ip, p) \<and> \<not> fa_listen b'
       else TCPOverIPv4OverTunFdAdapter_read rs (BufferList_concatenate out) b = Some (None, b)))"
proof -
  obtain out sent dgram buf seg' where w: "TCPOverIPv4OverTunFdAdapter_write rs seg a = Some (out, sent)"
    "IPv4Datagram_parse (Buffer_init (BufferList_concatenate out)) IPv4Datagram_default = Some (NoError, dgram)"
    "ih_src (dg_header dgram) = ip" "ih_dst (dg_header dgram) = ip'" "ih_proto (dg_header dgram) = IPv4Header_PROTO_TCP"
    "BufferList_to_Buffer (dg_payload dgram) = Some buf"
    "TCPSegment_parse buf (IPv4Header_pseudo_cksum (dg_header dgram)) TCPSegment_default = Some (NoError, seg')"
    "th_sport (seg_header seg') = p" "th_dport (seg_header seg') = p'" "same_contents seg' seg"
    by (rule wrapped_datagram [OF assms])
  have flags: "th_syn (seg_header seg') = th_syn (seg_header seg)" "th_rst (seg_header seg') = th_rst (seg_header seg)"
    using w(10) by (simp_all add: same_contents_def TCPHeader_eq_def)
  have "\<exists>seg'. TCPOverIPv4OverTunFdAdapter_read rs (BufferList_concatenate out) b = Some (Some seg', b) \<and> same_contents seg' seg"
    if "connects b (ip', p') (ip, p)" "\<not> fa_listen b" for b
    using that assms(1) w by (simp add: unwrap_defs)
  moreover have "if th_syn (seg_header seg) \<and> \<not> th_rst (seg_header seg)
       then \<exists>seg' b'. TCPOverIPv4OverTunFdAdapter_read rs (BufferList_concatenate out) b = Some (Some seg', b') \<and>
         same_contents seg' seg \<and> connects b' (ip', p') (ip, p) \<and> \<not> fa_listen b'
       else TCPOverIPv4OverTunFdAdapter_read rs (BufferList_concatenate out) b = Some (None, b)"
    if "Address_port rs (fc_source (fa_cfg b)) = Some p'" "fa_listen b" for b
    using that assms(1) w flags by (simp add: unwrap_defs Address_of_quad)
  ultimately show ?thesis using w(1) by blast
qed

definition example_adapter :: "bool \<Rightarrow> FdAdapterBase" where
  "example_adapter listen = \<lparr>fa_cfg = \<lparr>fc_source = ipv4_address 0x0a000001 1000, fc_destination = ipv4_address 0x0a000002 80,
     fc_loss_rate_dn = 0, fc_loss_rate_up = 0\<rparr>, fa_listen = listen\<rparr>"

definition example_server :: FdAdapterBase where
  "example_server = \<lparr>fa_cfg = \<lparr>fc_source = ipv4_address 0 80, fc_destination = ipv4_address 0 0,
     fc_loss_rate_dn = 0, fc_loss_rate_up = 0\<rparr>, fa_listen = True\<rparr>"

theorem TCPOverIPv4OverTunFdAdapter_delivers_witness:
  "\<exists>out sent seg' b'. TCPOverIPv4OverTunFdAdapter_write example_resolver (TCPSegment_default\<lparr>seg_header := TCPHeader_default\<lparr>th_syn := True\<rparr>\<rparr>)
      (example_adapter False) = Some (out, sent) \<and>
    TCPOverIPv4OverTunFdAdapter_read example_resolver (BufferList_concatenate out) example_server = Some (Some seg', b') \<and>
    th_syn (seg_header seg') \<and> connects b' (0x0a000002, 80) (0x0a000001, 1000)"
proof -
  have c: "connects (example_adapter False) (0x0a000001, 1000) (0x0a000002, 80)" by (simp add: connects_def example_adapter_def)
  have f: "fits_datagram (TCPSegment_default\<lparr>seg_header := TCPHeader_default\<lparr>th_syn := True\<rparr>\<rparr>)"
    by (simp add: fits_datagram_def TCPSegment_default_def TCPHeader_default_def TCPHeader_LENGTH_def)
  have s: "Address_port example_resolver (fc_source (fa_cfg example_server)) = Some 80" "fa_listen example_server"
    using example_resolver_numeric by (simp_all add: example_server_def)
  show ?thesis
    using TCPOverIPv4OverTunFdAdapter_delivers [OF example_resolver_numeric c f] s
    by (fastforce simp: same_contents_def TCPHeader_eq_def TCPHeader_default_def)
qed

text \<open>C27. What a connected adapter delivers came from its peer: the datagram was parsed without error, its
  addresses are those of the peer and of this endpoint, the protocol is TCP, the segment in it was
  parsed without error, and the ports are those of the peer and of this endpoint. The adapter is
  unchanged.\<close>

theorem TCPOverIPv4OverTunFdAdapter_filters:
  assumes "numeric_resolver rs" and "connects a (ip, p) (ip', p')" and "\<not> fa_listen a"
    and "TCPOverIPv4OverTunFdAdapter_read rs data a = Some (Some seg, a')"
  shows "a' = a \<and> (\<exists>dgram buffer. IPv4Datagram_parse (Buffer_init data) IPv4Datagram_default = Some (NoError, dgram) \<and>
    ih_dst (dg_header dgram) = ip \<and> ih_src (dg_header dgram) = ip' \<and> ih_proto (dg_header dgram) = IPv4Header_PROTO_TCP \<and>
    BufferList_to_Buffer (dg_payload dgram) = Some buffer \<and>
    TCPSegment_parse buffer (IPv4Header_pseudo_cksum (dg_header dgram)) TCPSegment_default = Some (NoError, seg)) \<and>
    th_sport (seg_header seg) = p' \<and> th_dport (seg_header seg) = p"
  using assms
  by (auto simp: TCPOverIPv4OverTunFdAdapter_read_def TCPOverIPv4Adapter_unwrap_tcp_in_ip_def unwrap_address_matches_def
    unwrap_from_peer_def connects_def split: bind_splits if_splits)

theorem TCPOverIPv4OverTunFdAdapter_filters_witness:
  "\<exists>out seg. TCPOverIPv4OverTunFdAdapter_read example_resolver (BufferList_concatenate out) (example_adapter False) = Some (Some seg, example_adapter False) \<and>
    th_sport (seg_header seg) = 80 \<and> th_dport (seg_header seg) = 1000"
proof -
  let ?peer = "\<lparr>fa_cfg = \<lparr>fc_source = ipv4_address 0x0a000002 80, fc_destination = ipv4_address 0x0a000001 1000,
     fc_loss_rate_dn = 0, fc_loss_rate_up = 0\<rparr>, fa_listen = False\<rparr>"
  have c: "connects (example_adapter False) (0x0a000001, 1000) (0x0a000002, 80)" "\<not> fa_listen (example_adapter False)"
    "connects ?peer (0x0a000002, 80) (0x0a000001, 1000)" by (simp_all add: connects_def example_adapter_def)
  have f: "fits_datagram TCPSegment_default"
    by (simp add: fits_datagram_def TCPSegment_default_def TCPHeader_default_def TCPHeader_LENGTH_def)
  obtain out seg where r: "TCPOverIPv4OverTunFdAdapter_read example_resolver (BufferList_concatenate out) (example_adapter False) =
      Some (Some seg, example_adapter False)"
    using connected_reads [OF example_resolver_numeric c(3) f c(1,2)] by blast
  with TCPOverIPv4OverTunFdAdapter_filters [OF example_resolver_numeric c(1,2) r] show ?thesis by blast
qed

text \<open>C28. Over UDP a segment goes to the configured destination and is delivered unchanged, up to the ports,
  by an adapter that is connected to the source of the datagram, whatever the ports in the header
  are; datagrams from elsewhere are dropped, and a listening adapter accepts a SYN without RST
  only, and is then connected to its source.\<close>

theorem TCPOverUDPSocketAdapter_delivers:
  assumes "numeric_resolver rs" and "connects a (ip, p) (ip', p')" and "fits_datagram seg"
  shows "\<exists>out sent seg'. TCPOverUDPSocketAdapter_write rs seg a = Some ((ipv4_address ip' p', out), sent) \<and> same_contents seg' seg \<and>
    TCPOverUDPSocketAdapter_read (source, BufferList_concatenate out) b =
      (if fa_listen b then (if th_syn (seg_header seg) \<and> \<not> th_rst (seg_header seg)
         then Some (Some seg', \<lparr>fa_cfg = (fa_cfg b)\<lparr>fc_destination := source\<rparr>, fa_listen = False\<rparr>) else Some (None, b))
       else if Address_eq source (fc_destination (fa_cfg b)) then Some (Some seg', b) else Some (None, b))"
proof -
  obtain out sent seg' where w: "TCPOverUDPSocketAdapter_write rs seg a = Some ((ipv4_address ip' p', out), sent)"
    "TCPSegment_parse (Buffer_init (BufferList_concatenate out)) 0 TCPSegment_default = Some (NoError, seg')" "same_contents seg' seg"
    by (rule udp_datagram [OF assms]) blast
  have flags: "th_syn (seg_header seg') = th_syn (seg_header seg)" "th_rst (seg_header seg') = th_rst (seg_header seg)"
    using w(3) by (simp_all add: same_contents_def TCPHeader_eq_def)
  show ?thesis using w flags
    by (intro exI [of _ out] exI [of _ sent] exI [of _ seg']) (simp add: TCPOverUDPSocketAdapter_read_def FdAdapterBase_set_listening_def)
qed

theorem TCPOverUDPSocketAdapter_delivers_witness:
  "\<exists>out sent seg'. TCPOverUDPSocketAdapter_write example_resolver TCPSegment_default (example_adapter False) =
      Some ((ipv4_address 0x0a000002 80, out), sent) \<and> same_contents seg' TCPSegment_default \<and>
    TCPOverUDPSocketAdapter_read (ipv4_address 0x0a000002 80, BufferList_concatenate out) (example_adapter False) = Some (Some seg', example_adapter False)"
proof -
  have c: "connects (example_adapter False) (0x0a000001, 1000) (0x0a000002, 80)" by (simp add: connects_def example_adapter_def)
  have f: "fits_datagram TCPSegment_default"
    by (simp add: fits_datagram_def TCPSegment_default_def TCPHeader_default_def TCPHeader_LENGTH_def)
  show ?thesis
    using TCPOverUDPSocketAdapter_delivers [OF example_resolver_numeric c f, of "ipv4_address 0x0a000002 80" "example_adapter False"]
    by (simp add: example_adapter_def)
qed

text \<open>A lossy adapter only loses: a read returns what the adapter underneath returns, or nothing, and
  leaves that adapter in the same state; a write writes what the adapter underneath writes, or
  nothing. With a loss rate of 0 it behaves as the adapter underneath and draws no random number.\<close>

theorem LossyFdAdapter_only_loses:
  "LossyFdAdapter_read config read ly =
     map_option (\<lambda>(ret, adapter). if fc_loss_rate_dn (config adapter) = 0 then (ret, ly\<lparr>ly_adapter := adapter\<rparr>)
       else (if (ucast (shd (ly_rand ly)) :: u16) < fc_loss_rate_dn (config adapter) then None else ret,
         ly\<lparr>ly_adapter := adapter, ly_rand := stl (ly_rand ly)\<rparr>)) (read (ly_adapter ly)) \<and>
   LossyFdAdapter_write config write seg ly =
     (if fc_loss_rate_up (config (ly_adapter ly)) = 0 then map_option (\<lambda>(out, seg). ((Some out, seg), ly)) (write seg (ly_adapter ly))
      else (let ly' = ly\<lparr>ly_rand := stl (ly_rand ly)\<rparr> in
        if (ucast (shd (ly_rand ly)) :: u16) < fc_loss_rate_up (config (ly_adapter ly)) then Some ((None, seg), ly')
        else map_option (\<lambda>(out, seg). ((Some out, seg), ly')) (write seg (ly_adapter ly))))"
  by (cases "read (ly_adapter ly)") (auto simp: LossyFdAdapter_read_def LossyFdAdapter_write_def LossyFdAdapter_should_drop_def Let_def)

text \<open>The network interface is a dummy: an Ethernet adapter never delivers a segment and never writes a
  frame but the first, although every call returns (when the next hop is an IPv4 address and a
  write can make its datagram).\<close>

lemma TCPOverIPv4OverEthernetAdapter_silent:
  "ni_frames_out (ea_interface e) = [] \<Longrightarrow>
   (case TCPOverIPv4OverEthernetAdapter_read rs data e of None \<Rightarrow> EthernetFrame_parse (Buffer_init data) EthernetFrame_default = None
     | Some ((seg, sent), e') \<Rightarrow> seg = None \<and> sent = [] \<and> e' = e) \<and>
   TCPOverIPv4OverEthernetAdapter_tick ms e = ([], e) \<and>
   (case TCPOverIPv4OverEthernetAdapter_write rs seg e of
      None \<Rightarrow> Address_ipv4_numeric (ea_next_hop e) = None \<or> TCPOverIPv4Adapter_wrap_tcp_in_ip rs seg (ea_base e) = None
    | Some ((sent, _), e') \<Rightarrow> sent = [] \<and> e' = e)"
  by (auto simp: TCPOverIPv4OverEthernetAdapter_read_def TCPOverIPv4OverEthernetAdapter_tick_def
    TCPOverIPv4OverEthernetAdapter_write_def TCPOverIPv4OverEthernetAdapter_send_pending_def NetworkInterface_recv_frame_def
    NetworkInterface_tick_def NetworkInterface_send_datagram_def Let_def split: option.splits bind_splits)

end
