(* ===== verification/File_Descriptor.thy ===== *)
theory File_Descriptor
  imports Buffers
begin

unbundle bit_operations_syntax

text \<open>
  SystemCall (libsponge/util/util.cc), FileDescriptor (libsponge/util/file\_descriptor.hh,
  file\_descriptor.cc) and Socket::shutdown (libsponge/util/socket.cc). A FileDescriptor and its
  duplicates share one FDWrapper, which is the state here. A system call is an argument: what it
  returns and the \<open>errno\<close> it leaves, given what it is called with and, where it is called in a loop, the
  number of the call. The return value is converted to a C++ int. Exceptions are \<open>None\<close>.
\<close>

section \<open>SystemCall\<close>

definition to_int32 :: "int \<Rightarrow> int" where
  "to_int32 n = (n + 2 ^ 31) mod 2 ^ 32 - 2 ^ 31"

definition SystemCall :: "int \<Rightarrow> int \<Rightarrow> int \<Rightarrow> int option" where
  "SystemCall return_value errno errno_mask =
     (if return_value \<ge> 0 \<or> errno = errno_mask then Some return_value else None)"

section \<open>FDWrapper\<close>

record FDWrapper =
  fd_fd :: int
  fd_eof :: bool
  fd_closed :: bool
  fd_read_count :: u32
  fd_write_count :: u32

definition FDWrapper_init :: "int \<Rightarrow> FDWrapper option" where
  "FDWrapper_init fd =
     (if fd < 0 then None
      else Some \<lparr>fd_fd = fd, fd_eof = False, fd_closed = False, fd_read_count = 0, fd_write_count = 0\<rparr>)"

definition FDWrapper_close :: "int \<times> int \<Rightarrow> FDWrapper \<Rightarrow> FDWrapper option" where
  "FDWrapper_close close_result fd = do {
     _ \<leftarrow> SystemCall (to_int32 (fst close_result)) (snd close_result) 0;
     Some (fd\<lparr>fd_eof := True, fd_closed := True\<rparr>)
   }"

text \<open>The destructor closes unless it was closed, and catches the exception.\<close>

definition FDWrapper_destroy :: "int \<times> int \<Rightarrow> FDWrapper \<Rightarrow> FDWrapper" where
  "FDWrapper_destroy close_result fd =
     (if fd_closed fd then fd else (case FDWrapper_close close_result fd of None \<Rightarrow> fd | Some fd \<Rightarrow> fd))"

definition register_read :: "FDWrapper \<Rightarrow> FDWrapper" where
  "register_read fd = fd\<lparr>fd_read_count := fd_read_count fd + 1\<rparr>"

definition register_write :: "FDWrapper \<Rightarrow> FDWrapper" where
  "register_write fd = fd\<lparr>fd_write_count := fd_write_count fd + 1\<rparr>"

section \<open>FileDescriptor\<close>

definition READ_BUFFER_SIZE :: u64 where
  "READ_BUFFER_SIZE = 1024 * 1024"

text \<open>\<open>sys_read n\<close> is what \<open>read\<close> returns when it is asked for \<open>n\<close> bytes, the \<open>errno\<close> and the bytes put into
  the buffer. A negative size cannot be given to the string.\<close>

definition FileDescriptor_read :: "(u64 \<Rightarrow> (int \<times> int) \<times> bytes) \<Rightarrow> u64 \<Rightarrow> FDWrapper \<Rightarrow> (bytes \<times> FDWrapper) option" where
  "FileDescriptor_read sys_read limit fd =
     (let size_to_read = min READ_BUFFER_SIZE limit; ((return_value, errno), data) = sys_read size_to_read in
      do {
        bytes_read \<leftarrow> SystemCall (to_int32 return_value) errno 0;
        let fd = (if limit > 0 \<and> bytes_read = 0 then fd\<lparr>fd_eof := True\<rparr> else fd);
        if bytes_read > int size_to_read then None
        else if bytes_read < 0 then None
        else Some (take (nat bytes_read) data, register_read fd)
      })"

text \<open>The loop of \<open>write\<close>, with the number of calls made and the bytes handed to the device so far.\<close>

function write_loop :: "(nat \<Rightarrow> (bytes \<times> u64) list \<Rightarrow> int \<times> int) \<Rightarrow> bool \<Rightarrow> nat \<Rightarrow> u64 \<Rightarrow> bytes \<Rightarrow> BufferViewList \<Rightarrow> FDWrapper \<Rightarrow>
    ((u64 \<times> bytes) \<times> FDWrapper) option" where
  "write_loop sys_writev write_all calls total_bytes_written written buffer fd =
     (let (return_value, errno) = sys_writev calls (BufferViewList_as_iovecs buffer) in
      case SystemCall (to_int32 return_value) errno 0 of
        None \<Rightarrow> None
      | Some bytes_written \<Rightarrow>
          if bytes_written = 0 \<and> BufferViewList_size buffer \<noteq> 0 then None
          else if bytes_written > int (BufferViewList_size buffer) then None
          else (let n = nat (bytes_written mod 2 ^ 64); fd = register_write fd in
            case BufferViewList_remove_prefix n buffer of
              None \<Rightarrow> None
            | Some rest \<Rightarrow>
                (let total_bytes_written = add64 total_bytes_written n; written = written @ take n (views_str buffer) in
                 if write_all \<and> BufferViewList_size rest \<noteq> 0
                 then write_loop sys_writev write_all (Suc calls) total_bytes_written written rest fd
                 else Some ((total_bytes_written, written), fd))))"
  by pat_completeness auto

lemma views_remove_prefix_Some:
  assumes "views_remove_prefix n vs = Some ws" and "n < 2 ^ 64"
  shows "n \<le> length (concat vs) \<and> concat ws = drop n (concat vs)"
  using assms
proof (induction n vs arbitrary: ws rule: views_remove_prefix.induct)
  case (1 n vs)
  show ?case
  proof (cases "n = 0 \<or> vs = []")
    case True
    then show ?thesis using "1.prems" by (auto simp: views_remove_prefix.simps [of n vs] split: if_splits)
  next
    case False
    then obtain v rest where vs: "vs = v # rest" by (cases vs) auto
    show ?thesis
    proof (cases "n < length v")
      case True
      then show ?thesis using False "1.prems" by (auto simp: views_remove_prefix.simps [of n "v # rest"] vs)
    next
      case long: False
      then have sub: "sub64 n (length v) = n - length v" using "1.prems"(2) by (intro sub64_exact) auto
      have r: "views_remove_prefix (sub64 n (length v)) rest = Some ws"
        using False long "1.prems"(1) by (simp add: views_remove_prefix.simps [of n "v # rest"] vs)
      have "sub64 n (length v) \<le> length (concat rest) \<and> concat ws = drop (sub64 n (length v)) (concat rest)"
        by (rule "1.IH" [OF _ vs long r]) (use False in simp_all)
      then show ?thesis using long by (auto simp: vs sub)
    qed
  qed
qed

lemma remove_prefix_Some:
  assumes "BufferViewList_remove_prefix n l = Some m" and "n < 2 ^ 64"
  shows "n \<le> length (views_str l) \<and> views_str m = drop n (views_str l)"
  using assms views_remove_prefix_Some [of n "bvl_views l"] by (auto simp: BufferViewList_remove_prefix_def)

lemma remove_prefix_0: "BufferViewList_remove_prefix 0 l = Some l"
  by (simp add: BufferViewList_remove_prefix_def views_remove_prefix.simps)

text \<open>Every round but the last takes bytes from the buffer.\<close>

lemma to_int32_range: "- (2 ^ 31) \<le> to_int32 n" "to_int32 n < 2 ^ 31"
  unfolding to_int32_def using pos_mod_bound [of "2 ^ 32" "n + 2 ^ 31"] pos_mod_sign [of "2 ^ 32" "n + 2 ^ 31"] by simp_all

lemma SystemCall_Some: "SystemCall rv errno m = Some n \<Longrightarrow> n = rv"
  by (simp add: SystemCall_def split: if_splits)

lemma write_round:
  assumes "SystemCall (to_int32 return_value) errno 0 = Some bytes_written"
    and "\<not> (bytes_written = 0 \<and> BufferViewList_size buffer \<noteq> 0)"
    and "BufferViewList_remove_prefix (nat (bytes_written mod 2 ^ 64)) buffer = Some rest" and "BufferViewList_size rest \<noteq> 0"
  shows "length (views_str rest) < length (views_str buffer)"
proof -
  let ?n = "nat (bytes_written mod 2 ^ 64)"
  have "?n < 2 ^ 64" by (simp add: nat_less_iff)
  from remove_prefix_Some [OF assms(3) this] have len: "?n \<le> length (views_str buffer)" "views_str rest = drop ?n (views_str buffer)"
    by simp_all
  have "?n \<noteq> 0"
  proof
    assume n: "?n = 0"
    have b: "- (2 ^ 31) \<le> bytes_written" "bytes_written < 2 ^ 31"
      using SystemCall_Some [OF assms(1)] to_int32_range [of return_value] by simp_all
    have "bytes_written mod 2 ^ 64 = 0" using n pos_mod_sign [of "2 ^ 64" bytes_written] by simp
    then have "2 ^ 64 dvd bytes_written" by (simp add: dvd_eq_mod_eq_0)
    then have "bytes_written = 0" using b by (auto dest: zdvd_imp_le)
    moreover have "rest = buffer" using assms(3) n by (simp add: remove_prefix_0)
    ultimately show False using assms(2,4) by simp
  qed
  then have "length (drop ?n (views_str buffer)) < length (views_str buffer)" using len(1) by (simp only: length_drop)
  then show ?thesis unfolding len(2) .
qed

termination write_loop
  by (relation "measure (\<lambda>(_, _, _, _, _, buffer, _). length (views_str buffer))") (auto dest!: write_round)

declare write_loop.simps [simp del]

definition FileDescriptor_write ::
  "(nat \<Rightarrow> (bytes \<times> u64) list \<Rightarrow> int \<times> int) \<Rightarrow> BufferViewList \<Rightarrow> bool \<Rightarrow> FDWrapper \<Rightarrow> ((u64 \<times> bytes) \<times> FDWrapper) option" where
  "FileDescriptor_write sys_writev buffer write_all fd = write_loop sys_writev write_all 0 0 [] buffer fd"

text \<open>\<open>fcntl\<close> is called twice; the second call is given the new flags.\<close>

definition O_NONBLOCK :: int where
  "O_NONBLOCK = 2048"

definition FileDescriptor_set_blocking :: "int \<times> int \<Rightarrow> (int \<Rightarrow> int \<times> int) \<Rightarrow> bool \<Rightarrow> int option" where
  "FileDescriptor_set_blocking getfl setfl blocking_state = do {
     flags \<leftarrow> SystemCall (fst getfl) (snd getfl) 0;
     let flags = (if blocking_state then flags XOR (flags AND O_NONBLOCK) else flags OR O_NONBLOCK);
     _ \<leftarrow> SystemCall (fst (setfl flags)) (snd (setfl flags)) 0;
     Some flags
   }"

section \<open>Socket::shutdown\<close>

datatype How = SHUT_RD | SHUT_WR | SHUT_RDWR

definition Socket_shutdown :: "int \<times> int \<Rightarrow> How \<Rightarrow> FDWrapper \<Rightarrow> FDWrapper option" where
  "Socket_shutdown shutdown_result how fd = do {
     _ \<leftarrow> SystemCall (fst shutdown_result) (snd shutdown_result) 0;
     Some (case how of SHUT_RD \<Rightarrow> register_read fd | SHUT_WR \<Rightarrow> register_write fd | SHUT_RDWR \<Rightarrow> register_write (register_read fd))
   }"

section \<open>Writing\<close>

text \<open>What \<open>writev\<close> is documented to do on a blocking descriptor without errors: it writes at least one
  byte when there is one, and at most all of them.\<close>

definition writev_ok :: "(nat \<Rightarrow> (bytes \<times> u64) list \<Rightarrow> int \<times> int) \<Rightarrow> bool" where
  "writev_ok sys_writev \<longleftrightarrow> (\<forall>k iov. \<exists>n. sys_writev k iov = (int n, 0) \<and> n \<le> sum_list (map snd iov) \<and>
     (0 < sum_list (map snd iov) \<longrightarrow> 0 < n))"

lemma views_size: "length (views_str l) < 2 ^ 64 \<Longrightarrow> BufferViewList_size l = length (views_str l)"
  using sum_sizes [of id "bvl_views l"] by (simp add: BufferViewList_size_def)

lemma iovecs_size: "sum_list (map snd (BufferViewList_as_iovecs l)) = length (views_str l)"
  by (simp add: BufferViewList_as_iovecs_def comp_def length_concat)

lemma write_loop_returns:
  assumes "writev_ok sys_writev" and "length (views_str buffer) < 2 ^ 31" and "\<forall>v \<in> set (bvl_views buffer). length v < 2 ^ 63"
    and "sofar + length (views_str buffer) < 2 ^ 64"
  shows "\<exists>n fd'. write_loop sys_writev write_all k sofar written buffer fd =
      Some ((sofar + n, written @ take n (views_str buffer)), fd') \<and> n \<le> length (views_str buffer) \<and>
    (views_str buffer \<noteq> [] \<longrightarrow> 0 < n) \<and> (write_all \<longrightarrow> n = length (views_str buffer)) \<and> fd_read_count fd' = fd_read_count fd \<and>
    fd_eof fd' = fd_eof fd \<and> fd_closed fd' = fd_closed fd \<and> (write_all \<or> fd' = register_write fd)"
  using assms(2-4)
proof (induction "length (views_str buffer)" arbitrary: k sofar written buffer fd rule: less_induct)
  case less
  let ?len = "length (views_str buffer)"
  obtain n where n: "sys_writev k (BufferViewList_as_iovecs buffer) = (int n, 0)" "n \<le> ?len" "0 < ?len \<longrightarrow> 0 < n"
    using assms(1) unfolding writev_ok_def iovecs_size [symmetric] by meson
  have sz: "BufferViewList_size buffer = ?len" using less.prems(1) by (intro views_size) simp
  have i: "to_int32 (int n) = int n" "nat (int n mod 2 ^ 64) = n"
    using n(2) less.prems(1) by (simp_all add: to_int32_def nat_mod_distrib)
  obtain rest where r: "BufferViewList_remove_prefix n buffer = Some rest" "views_str rest = drop n (views_str buffer)"
    "\<forall>v \<in> set (bvl_views rest). length v < 2 ^ 63"
    using buffer_views.remove_in_range [OF less.prems(2), of n] n(2) less.prems(1) by auto
  have rs: "BufferViewList_size rest = ?len - n" using r(2) less.prems(1) by (subst views_size) simp_all
  have tot: "add64 sofar n = sofar + n" using n(2) less.prems(3) by (intro add64_exact) simp
  let ?w = "written @ take n (views_str buffer)"
  define m where "m = ?len"
  have m: "BufferViewList_size buffer = m" "BufferViewList_size rest = m - n" "n \<le> m" "n = 0 \<longrightarrow> m = 0"
    using sz rs n(2,3) unfolding m_def by (simp_all only:) blast+
  have unf: "write_loop sys_writev write_all k sofar written buffer fd =
      (if write_all \<and> m - n \<noteq> 0 then write_loop sys_writev write_all (Suc k) (sofar + n) ?w rest (register_write fd)
       else Some ((sofar + n, ?w), register_write fd))"
    using n(1) r(1) i m by (auto simp: write_loop.simps [of _ _ k] SystemCall_def tot Let_def)
  show ?case
  proof (cases "write_all \<and> m - n \<noteq> 0")
    case True
    then have "m - n < m" using m(3,4) by linarith
    then have "length (views_str rest) < ?len" using r(2) by (simp add: m_def)
    moreover have "length (views_str rest) < 2 ^ 31" "sofar + n + length (views_str rest) < 2 ^ 64"
      using less.prems(1,3) n(2) r(2) by simp_all
    ultimately have "\<exists>j fd'. write_loop sys_writev write_all (Suc k) (sofar + n) ?w rest (register_write fd) =
        Some ((sofar + n + j, ?w @ take j (views_str rest)), fd') \<and> j \<le> length (views_str rest) \<and>
      (views_str rest \<noteq> [] \<longrightarrow> 0 < j) \<and> (write_all \<longrightarrow> j = length (views_str rest)) \<and> fd_read_count fd' = fd_read_count (register_write fd) \<and>
      fd_eof fd' = fd_eof (register_write fd) \<and> fd_closed fd' = fd_closed (register_write fd) \<and>
      (write_all \<or> fd' = register_write (register_write fd))"
      using r(3) by (intro less.hyps)
    then
    obtain j fd' where "write_loop sys_writev write_all (Suc k) (sofar + n) ?w rest (register_write fd) =
        Some ((sofar + n + j, ?w @ take j (views_str rest)), fd')" "j \<le> length (views_str rest)"
      "write_all \<longrightarrow> j = length (views_str rest)" "fd_read_count fd' = fd_read_count fd" "fd_eof fd' = fd_eof fd" "fd_closed fd' = fd_closed fd"
      unfolding register_write_def by auto
    then show ?thesis unfolding unf using True n(2,3) r(2)
      by (intro exI [of _ "n + j"] exI [of _ fd']) (auto simp: take_add m_def)
  next
    case False
    then show ?thesis unfolding unf using n(2,3)
      by (intro exI [of _ n] exI [of _ "register_write fd"]) (auto simp: register_write_def m_def)
  qed
qed

text \<open>One call of \<open>writev\<close> when not everything has to be written.\<close>

lemma FileDescriptor_write_once:
  assumes "writev_ok sys_writev" and "length data < 2 ^ 31"
  obtains n where "FileDescriptor_write sys_writev (BufferViewList_of_view data) False fd = Some ((n, take n data), register_write fd)"
    and "n \<le> length data" and "data \<noteq> [] \<longrightarrow> 0 < n"
  using write_loop_returns [OF assms(1), of "BufferViewList_of_view data" 0 False 0 "[]" fd] assms(2)
  by (auto simp: FileDescriptor_write_def BufferViewList_of_view_def)

section \<open>Reading\<close>

text \<open>What \<open>read\<close> is documented to do without errors: it puts at most the bytes asked for into the buffer.\<close>

definition read_ok :: "(u64 \<Rightarrow> (int \<times> int) \<times> bytes) \<Rightarrow> bool" where
  "read_ok sys_read \<longleftrightarrow> (\<forall>n. \<exists>m data. sys_read n = ((int m, 0), data) \<and> m \<le> n \<and> m \<le> length data)"

lemma FileDescriptor_read_returns:
  assumes "read_ok sys_read"
  obtains data where "FileDescriptor_read sys_read limit fd =
      Some (data, register_read (fd\<lparr>fd_eof := (fd_eof fd \<or> (0 < limit \<and> data = []))\<rparr>))" and "length data \<le> limit"
    and "\<exists>n. int (length data) = fst (fst (sys_read n))"
proof -
  obtain m data where m: "sys_read (min READ_BUFFER_SIZE limit) = ((int m, 0), data)" "m \<le> min READ_BUFFER_SIZE limit" "m \<le> length data"
    using assms unfolding read_ok_def by blast
  have i: "to_int32 (int m) = int m" using m(2) by (simp add: to_int32_def READ_BUFFER_SIZE_def)
  have e: "(if 0 < limit \<and> m = 0 then fd\<lparr>fd_eof := True\<rparr> else fd) =
      fd\<lparr>fd_eof := (fd_eof fd \<or> (0 < limit \<and> take m data = []))\<rparr>"
    using m(3) by (cases fd) auto
  have "FileDescriptor_read sys_read limit fd = Some (take m data, register_read (if 0 < limit \<and> m = 0 then fd\<lparr>fd_eof := True\<rparr> else fd))"
    using m by (simp add: FileDescriptor_read_def SystemCall_def i Let_def not_less)
  then show ?thesis unfolding e using m by (intro that [of "take m data"]) (auto intro!: exI [of _ "min READ_BUFFER_SIZE limit"])
qed

section \<open>Writing everything\<close>

text \<open>C32. Writing to a descriptor whose \<open>writev\<close> behaves as documented returns: it hands a prefix of the
  buffer to the device, in order and without repetition, not empty unless the buffer is; and all of
  it when that was asked for, whatever the pieces in which the device takes it.\<close>

theorem FileDescriptor_write_writes:
  assumes "writev_ok sys_writev" and "length (views_str buffer) < 2 ^ 31"
  shows "\<exists>n fd'. FileDescriptor_write sys_writev buffer write_all fd = Some ((n, take n (views_str buffer)), fd') \<and>
    n \<le> length (views_str buffer) \<and> (views_str buffer = [] \<or> 0 < n) \<and> (if write_all then n = length (views_str buffer) else True)"
proof -
  have "length v < 2 ^ 63" if "v \<in> set (bvl_views buffer)" for v
    using assms(2) member_le_sum_list [of "length v" "map length (bvl_views buffer)"] that by (simp add: length_concat)
  then obtain n fd' where "write_loop sys_writev write_all 0 0 [] buffer fd = Some ((n, take n (views_str buffer)), fd')"
    "n \<le> length (views_str buffer)" "views_str buffer \<noteq> [] \<longrightarrow> 0 < n" "write_all \<longrightarrow> n = length (views_str buffer)"
    using write_loop_returns [OF assms, of 0 write_all 0 "[]" fd] assms(2) by auto
  then show ?thesis unfolding FileDescriptor_write_def by (intro exI [of _ n] exI [of _ fd']) (auto simp del: concat_eq_Nil_conv)
qed

theorem FileDescriptor_write_writes_witness:
  "\<exists>n fd'. FileDescriptor_write (\<lambda>k iov. (if sum_list (map snd iov) = 0 then 0 else 1, 0)) \<lparr>bvl_views = [[1, 2], [3]]\<rparr> True
      \<lparr>fd_fd = 3, fd_eof = False, fd_closed = False, fd_read_count = 0, fd_write_count = 0\<rparr> = Some ((n, [1, 2, 3]), fd') \<and> n = 3"
proof -
  have "\<exists>n. (if s = 0 then 0 else 1, 0) = (int n, 0 :: int) \<and> n \<le> s \<and> (0 < s \<longrightarrow> 0 < n)" for s :: nat
    by (intro exI [of _ "if s = 0 then 0 else 1"]) auto
  then have "writev_ok (\<lambda>k iov. (if sum_list (map snd iov) = 0 then 0 else 1, 0))"
    unfolding writev_ok_def by blast
  from FileDescriptor_write_writes [OF this, of "\<lparr>bvl_views = [[1, 2], [3]]\<rparr>" True
      "\<lparr>fd_fd = 3, fd_eof = False, fd_closed = False, fd_read_count = 0, fd_write_count = 0\<rparr>"]
  show ?thesis by auto
qed

end
