(* ===== verification/Datagram_Adapters.thy ===== *)
theory Datagram_Adapters
  imports Adapters File_Descriptor
begin

text \<open>
  The adapters with their devices, as the template parameter of TCPSpongeSocket uses them, and
  UDPSocket::recv and UDPSocket::sendto (libsponge/util/socket.cc). An adapter is given by a record of its operations;
  those of an adapter over a TUN device, a UDP socket or a TAP device, and of a lossy adapter over
  any other, are built from the definitions of theory Adapters. System calls are arguments.

  The contract \<open>datagram_adapter\<close> is what a socket relies on: reading a datagram that holds a segment
  returns a segment with the same contents or nothing, and writing a segment makes datagrams that
  hold it. It is interpreted for every adapter.
\<close>

section \<open>UDPSocket\<close>

text \<open>What a receiving call returns when it is asked for at most \<open>n\<close> bytes: the result and the \<open>errno\<close>, the
  bytes received and the address of their source.\<close>

type_synonym receive_call = "u64 \<Rightarrow> (int \<times> int) \<times> (bytes \<times> bytes)"

type_synonym write_call = "nat \<Rightarrow> (bytes \<times> u64) list \<Rightarrow> int \<times> int"

definition UDPSocket_recv :: "receive_call \<Rightarrow> u64 \<Rightarrow> FDWrapper \<Rightarrow> ((Address \<times> bytes) \<times> FDWrapper) option" where
  "UDPSocket_recv recvfrom mtu fd =
     (let ((return_value, errno), (payload, address)) = recvfrom mtu in
      do {
        recv_len \<leftarrow> SystemCall (to_int32 return_value) errno 0;
        if recv_len > int mtu then None
        else do {
          let fd = register_read fd;
          source_address \<leftarrow> Address_of_sockaddr address (length address);
          if recv_len < 0 then None else Some ((source_address, take (nat recv_len) payload), fd)
        }
      })"

text \<open>The datagram that is sent, given the call of \<open>sendmsg\<close>.\<close>

definition sendmsg_helper :: "((bytes \<times> u64) list \<Rightarrow> int \<times> int) \<Rightarrow> BufferViewList \<Rightarrow> bytes option" where
  "sendmsg_helper sendmsg payload = do {
     let (return_value, errno) = sendmsg (BufferViewList_as_iovecs payload);
     bytes_sent \<leftarrow> SystemCall (to_int32 return_value) errno 0;
     if nat (bytes_sent mod 2 ^ 64) \<noteq> BufferViewList_size payload then None else Some (views_str payload)
   }"

definition UDPSocket_sendto :: "((bytes \<times> u64) list \<Rightarrow> int \<times> int) \<Rightarrow> BufferViewList \<Rightarrow> FDWrapper \<Rightarrow> (bytes \<times> FDWrapper) option" where
  "UDPSocket_sendto sendmsg payload fd = do {
     datagram \<leftarrow> sendmsg_helper sendmsg payload;
     Some (datagram, register_write fd)
   }"

definition UDPSocket_send :: "((bytes \<times> u64) list \<Rightarrow> int \<times> int) \<Rightarrow> BufferViewList \<Rightarrow> FDWrapper \<Rightarrow> (bytes \<times> FDWrapper) option" where
  "UDPSocket_send sendmsg payload fd = do {
     datagram \<leftarrow> sendmsg_helper sendmsg payload;
     Some (datagram, register_write fd)
   }"

section \<open>The operations of an adapter\<close>

text \<open>A write returns the datagrams it handed to the device; so does a tick. A read may write, too.\<close>

record 'a adapter_ops =
  ao_fd :: "'a \<Rightarrow> FDWrapper"
  ao_config :: "'a \<Rightarrow> FdAdapterConfig"
  ao_configure :: "FdAdapterConfig \<Rightarrow> 'a \<Rightarrow> 'a"
  ao_set_listening :: "bool \<Rightarrow> 'a \<Rightarrow> 'a"
  ao_read :: "receive_call \<Rightarrow> write_call \<Rightarrow> 'a \<Rightarrow> (TCPSegment option \<times> 'a) option"
  ao_write :: "write_call \<Rightarrow> TCPSegment \<Rightarrow> 'a \<Rightarrow> (bytes list \<times> 'a) option"
  ao_tick :: "write_call \<Rightarrow> u64 \<Rightarrow> 'a \<Rightarrow> (bytes list \<times> 'a) option"

text \<open>An adapter and the device it owns.\<close>

record 'a device_adapter =
  da_fd :: FDWrapper
  da_adapter :: 'a

definition base_configure :: "FdAdapterConfig \<Rightarrow> FdAdapterBase \<Rightarrow> FdAdapterBase" where
  "base_configure cfg a = a\<lparr>fa_cfg := cfg\<rparr>"

text \<open>\<open>FileDescriptor::read\<close> without a limit.\<close>

definition read_all :: "receive_call \<Rightarrow> FDWrapper \<Rightarrow> (bytes \<times> FDWrapper) option" where
  "read_all recv fd = FileDescriptor_read (\<lambda>n. let (r, (data, _)) = recv n in (r, data)) (2 ^ 64 - 1) fd"

definition tun_adapter :: "resolver \<Rightarrow> FdAdapterBase device_adapter adapter_ops" where
  "tun_adapter rs = \<lparr>
     ao_fd = da_fd,
     ao_config = (\<lambda>a. fa_cfg (da_adapter a)),
     ao_configure = (\<lambda>cfg a. a\<lparr>da_adapter := base_configure cfg (da_adapter a)\<rparr>),
     ao_set_listening = (\<lambda>l a. a\<lparr>da_adapter := FdAdapterBase_set_listening l (da_adapter a)\<rparr>),
     ao_read = (\<lambda>recv writev a. do {
       (data, fd) \<leftarrow> read_all recv (da_fd a);
       (seg, base) \<leftarrow> TCPOverIPv4OverTunFdAdapter_read rs data (da_adapter a);
       Some (seg, \<lparr>da_fd = fd, da_adapter = base\<rparr>)
     }),
     ao_write = (\<lambda>writev seg a. do {
       (out, seg) \<leftarrow> TCPOverIPv4OverTunFdAdapter_write rs seg (da_adapter a);
       ((_, written), fd) \<leftarrow> FileDescriptor_write writev (BufferViewList_of_BufferList out) True (da_fd a);
       Some ([written], a\<lparr>da_fd := fd\<rparr>)
     }),
     ao_tick = (\<lambda>writev ms a. Some ([], a))\<rparr>"

definition udp_adapter :: "resolver \<Rightarrow> FdAdapterBase device_adapter adapter_ops" where
  "udp_adapter rs = \<lparr>
     ao_fd = da_fd,
     ao_config = (\<lambda>a. fa_cfg (da_adapter a)),
     ao_configure = (\<lambda>cfg a. a\<lparr>da_adapter := base_configure cfg (da_adapter a)\<rparr>),
     ao_set_listening = (\<lambda>l a. a\<lparr>da_adapter := FdAdapterBase_set_listening l (da_adapter a)\<rparr>),
     ao_read = (\<lambda>recv writev a. do {
       (datagram, fd) \<leftarrow> UDPSocket_recv recv 65536 (da_fd a);
       (seg, base) \<leftarrow> TCPOverUDPSocketAdapter_read datagram (da_adapter a);
       Some (seg, \<lparr>da_fd = fd, da_adapter = base\<rparr>)
     }),
     ao_write = (\<lambda>writev seg a. do {
       ((_, out), seg) \<leftarrow> TCPOverUDPSocketAdapter_write rs seg (da_adapter a);
       (datagram, fd) \<leftarrow> UDPSocket_sendto (writev 0) (BufferViewList_of_BufferList out) (da_fd a);
       Some ([datagram], a\<lparr>da_fd := fd\<rparr>)
     }),
     ao_tick = (\<lambda>writev ms a. Some ([], a))\<rparr>"

text \<open>The frames of the Ethernet adapter go to the device one by one.\<close>

fun write_frames :: "write_call \<Rightarrow> BufferList list \<Rightarrow> FDWrapper \<Rightarrow> (bytes list \<times> FDWrapper) option" where
  "write_frames writev [] fd = Some ([], fd)"
| "write_frames writev (frame # frames) fd = do {
     ((_, written), fd) \<leftarrow> FileDescriptor_write writev (BufferViewList_of_BufferList frame) True fd;
     (rest, fd) \<leftarrow> write_frames writev frames fd;
     Some (written # rest, fd)
   }"

definition ethernet_adapter :: "resolver \<Rightarrow> TCPOverIPv4OverEthernetAdapter device_adapter adapter_ops" where
  "ethernet_adapter rs = \<lparr>
     ao_fd = da_fd,
     ao_config = (\<lambda>a. fa_cfg (ea_base (da_adapter a))),
     ao_configure = (\<lambda>cfg a. a\<lparr>da_adapter := (da_adapter a)\<lparr>ea_base := base_configure cfg (ea_base (da_adapter a))\<rparr>\<rparr>),
     ao_set_listening = (\<lambda>l a. a\<lparr>da_adapter := (da_adapter a)\<lparr>ea_base := FdAdapterBase_set_listening l (ea_base (da_adapter a))\<rparr>\<rparr>),
     ao_read = (\<lambda>recv writev a. do {
       (data, fd) \<leftarrow> read_all recv (da_fd a);
       ((seg, sent), e) \<leftarrow> TCPOverIPv4OverEthernetAdapter_read rs data (da_adapter a);
       (_, fd) \<leftarrow> write_frames writev sent fd;
       Some (seg, \<lparr>da_fd = fd, da_adapter = e\<rparr>)
     }),
     ao_write = (\<lambda>writev seg a. do {
       ((sent, seg), e) \<leftarrow> TCPOverIPv4OverEthernetAdapter_write rs seg (da_adapter a);
       (written, fd) \<leftarrow> write_frames writev sent (da_fd a);
       Some (written, \<lparr>da_fd = fd, da_adapter = e\<rparr>)
     }),
     ao_tick = (\<lambda>writev ms a. do {
       let (sent, e) = TCPOverIPv4OverEthernetAdapter_tick ms (da_adapter a);
       (written, fd) \<leftarrow> write_frames writev sent (da_fd a);
       Some (written, \<lparr>da_fd = fd, da_adapter = e\<rparr>)
     })\<rparr>"

definition lossy_adapter :: "'a adapter_ops \<Rightarrow> 'a LossyFdAdapter adapter_ops" where
  "lossy_adapter ops = \<lparr>
     ao_fd = (\<lambda>ly. ao_fd ops (ly_adapter ly)),
     ao_config = (\<lambda>ly. ao_config ops (ly_adapter ly)),
     ao_configure = (\<lambda>cfg ly. ly\<lparr>ly_adapter := ao_configure ops cfg (ly_adapter ly)\<rparr>),
     ao_set_listening = (\<lambda>l ly. ly\<lparr>ly_adapter := ao_set_listening ops l (ly_adapter ly)\<rparr>),
     ao_read = (\<lambda>recv writev ly. LossyFdAdapter_read (ao_config ops) (ao_read ops recv writev) ly),
     ao_write = (\<lambda>writev seg ly. do {
       ((out, seg), ly) \<leftarrow> LossyFdAdapter_write (ao_config ops) (\<lambda>seg a. map_option (\<lambda>r. (r, seg)) (ao_write ops writev seg a)) seg ly;
       Some (case out of None \<Rightarrow> ([], ly) | Some (datagrams, a) \<Rightarrow> (datagrams, ly\<lparr>ly_adapter := a\<rparr>))
     }),
     ao_tick = (\<lambda>writev ms ly. do {
       (datagrams, a) \<leftarrow> ao_tick ops writev ms (ly_adapter ly);
       Some (datagrams, ly\<lparr>ly_adapter := a\<rparr>)
     })\<rparr>"

section \<open>The contract\<close>

text \<open>A device takes a datagram as a whole, and gives one as a whole.\<close>

definition takes_datagrams :: "write_call \<Rightarrow> bool" where
  "takes_datagrams writev \<longleftrightarrow> (\<forall>k iov. writev k iov = (int (sum_list (map snd iov)), 0))"

definition gives_datagram :: "receive_call \<Rightarrow> bytes \<times> bytes \<Rightarrow> bool" where
  "gives_datagram recv d \<longleftrightarrow> length (fst d) \<le> 65536 \<and> (\<forall>n \<ge> 65536. recv n = ((int (length (fst d)), 0), d))"

text \<open>Configurations with two IPv4 addresses.\<close>

definition ipv4_config :: "FdAdapterConfig \<Rightarrow> bool" where
  "ipv4_config cfg \<longleftrightarrow> (\<exists>ip p ip' p'. fc_source cfg = ipv4_address ip p \<and> fc_destination cfg = ipv4_address ip' p')"

text \<open>\<open>ok\<close> is the invariant of the adapter, \<open>carried d seg\<close> tells that the datagram \<open>d\<close> may hold the
  segment \<open>seg\<close> of a peer, \<open>foreign d\<close> that it is not traffic of the adapter. The second component of a datagram is the address
  of its source.\<close>

locale datagram_adapter =
  fixes rs :: resolver and ops :: "'a adapter_ops" and ok :: "'a \<Rightarrow> bool"
    and carried :: "bytes \<times> bytes \<Rightarrow> TCPSegment \<Rightarrow> bool" and source :: "bytes \<Rightarrow> bool" and foreign :: "bytes \<times> bytes \<Rightarrow> bool"
  assumes config: "ao_config ops (ao_configure ops cfg a) = cfg"
    and configure: "ok a \<Longrightarrow> ipv4_config cfg \<Longrightarrow> ok (ao_configure ops cfg a)"
    and set_listening: "ok a \<Longrightarrow> ok (ao_set_listening ops l a)"
    and destination: "ok a \<Longrightarrow> \<exists>name. Address_to_string rs (fc_destination (ao_config ops a)) = Some name"
    and reads: "ok a \<Longrightarrow> gives_datagram recv d \<Longrightarrow> takes_datagrams writev \<Longrightarrow> carried d seg \<or> foreign d \<Longrightarrow>
      \<exists>r b. ao_read ops recv writev a = Some (r, b) \<and> ok b \<and>
        fd_read_count (ao_fd ops b) = fd_read_count (ao_fd ops a) + 1 \<and>
        (foreign d \<longrightarrow> r = None) \<and> (\<forall>seg'. r = Some seg' \<longrightarrow> carried d seg \<longrightarrow> same_contents seg' seg)"
    and writes: "ok a \<Longrightarrow> takes_datagrams writev \<Longrightarrow> fits_datagram seg \<Longrightarrow>
      \<exists>ds b. ao_write ops writev seg a = Some (ds, b) \<and> ok b \<and> (\<forall>d \<in> set ds. \<forall>address. source address \<longrightarrow> carried (d, address) seg)"
    and ticks: "ok a \<Longrightarrow> takes_datagrams writev \<Longrightarrow> \<exists>b. ao_tick ops writev ms a = Some ([], b) \<and> ok b"
begin

text \<open>What a read does when the datagram is foreign or holds one of the segments in \<open>W\<close>.\<close>

lemma read_one_of:
  assumes "ok a" and "gives_datagram recv d" and "takes_datagrams writev" and "foreign d \<or> (\<exists>seg \<in> W. carried d seg)"
  obtains r b where "ao_read ops recv writev a = Some (r, b)" and "ok b"
    and "fd_read_count (ao_fd ops b) = fd_read_count (ao_fd ops a) + 1"
    and "r = None \<or> (\<exists>seg' seg. r = Some seg' \<and> seg \<in> W \<and> same_contents seg' seg)"
  using assms(4)
proof
  assume "foreign d"
  then show ?thesis using reads [OF assms(1-3), of undefined] that by auto
next
  assume "\<exists>seg \<in> W. carried d seg"
  then obtain seg where "seg \<in> W" "carried d seg" by auto
  then show ?thesis using reads [OF assms(1-3), of seg] that by (metis not_None_eq)
qed

end

section \<open>Devices\<close>

lemma to_int32_small: "n < 2 ^ 31 \<Longrightarrow> to_int32 (int n) = int n"
  by (simp add: to_int32_def)

lemma read_all_gives:
  assumes "gives_datagram recv d"
  obtains fd' where "read_all recv fd = Some (fst d, fd')" and "fd_read_count fd' = fd_read_count fd + 1"
proof -
  have "recv (min READ_BUFFER_SIZE (2 ^ 64 - 1)) = ((int (length (fst d)), 0), d)" "length (fst d) \<le> 65536"
    using assms by (simp_all add: gives_datagram_def READ_BUFFER_SIZE_def)
  then show ?thesis using to_int32_small [of "length (fst d)"]
    by (intro that) (auto simp: read_all_def FileDescriptor_read_def SystemCall_def READ_BUFFER_SIZE_def Let_def case_prod_beta
      register_read_def)
qed

lemma takes_writev_ok: "takes_datagrams writev \<Longrightarrow> writev_ok writev"
  by (auto simp: takes_datagrams_def writev_ok_def)

lemma views_of_BufferList [simp]: "views_str (BufferViewList_of_BufferList l) = BufferList_concatenate l"
  by (simp add: BufferViewList_of_BufferList_def concatenate_eq)

lemma write_datagram:
  assumes "takes_datagrams writev" and "length (BufferList_concatenate out) < 2 ^ 31"
  obtains n fd' where "FileDescriptor_write writev (BufferViewList_of_BufferList out) True fd = Some ((n, BufferList_concatenate out), fd')"
proof -
  let ?b = "BufferViewList_of_BufferList out"
  have "length v < 2 ^ 63" if "v \<in> set (bvl_views ?b)" for v
    using assms(2) [folded views_of_BufferList] member_le_sum_list [of "length v" "map length (bvl_views ?b)"] that
    by (simp add: length_concat del: views_of_BufferList)
  then show ?thesis
    using write_loop_returns [OF takes_writev_ok [OF assms(1)], of ?b 0 True 0 "[]" fd] assms(2) that
    by (auto simp: FileDescriptor_write_def simp flip: views_of_BufferList)
qed

lemma ipv4_config_connects: "ipv4_config (fa_cfg a) \<longleftrightarrow> (\<exists>us them. connects a us them)"
  by (auto simp: ipv4_config_def connects_def)

lemma ipv4_destination:
  "numeric_resolver rs \<Longrightarrow> ipv4_config cfg \<Longrightarrow> \<exists>name. Address_to_string rs (fc_destination cfg) = Some name"
  by (auto simp: ipv4_config_def Address_to_string_def ip_port_ipv4)

text \<open>An adapter with its device that has two IPv4 addresses.\<close>

definition wired :: "resolver \<Rightarrow> FdAdapterBase device_adapter \<Rightarrow> bool" where
  "wired rs a \<longleftrightarrow> numeric_resolver rs \<and> ipv4_config (fa_cfg (da_adapter a))"

section \<open>Adapters over TUN devices\<close>

definition tun_carried :: "resolver \<Rightarrow> bytes \<times> bytes \<Rightarrow> TCPSegment \<Rightarrow> bool" where
  "tun_carried rs d seg \<longleftrightarrow> fits_datagram seg \<and> (\<exists>a out sent. ipv4_config (fa_cfg a) \<and>
     TCPOverIPv4OverTunFdAdapter_write rs seg a = Some (out, sent) \<and> fst d = BufferList_concatenate out)"

text \<open>Traffic that is not TCP.\<close>

definition not_tcp :: "bytes \<times> bytes \<Rightarrow> bool" where
  "not_tcp d \<longleftrightarrow> (\<exists>result dgram. IPv4Datagram_parse (Buffer_init (fst d)) IPv4Datagram_default = Some (result, dgram) \<and>
     (result \<noteq> NoError \<or> ih_proto (dg_header dgram) \<noteq> IPv4Header_PROTO_TCP))"

lemma tun_read_carried:
  assumes rs: "numeric_resolver rs" and "ipv4_config (fa_cfg b)" and "tun_carried rs d seg"
  shows "\<exists>r b'. TCPOverIPv4OverTunFdAdapter_read rs (fst d) b = Some (r, b') \<and> ipv4_config (fa_cfg b') \<and>
    (r = None \<or> (\<exists>seg'. r = Some seg' \<and> same_contents seg' seg))"
proof -
  obtain a out sent ip p ip' p' where a: "connects a (ip, p) (ip', p')" "fits_datagram seg"
    "TCPOverIPv4OverTunFdAdapter_write rs seg a = Some (out, sent)" "fst d = BufferList_concatenate out"
    using assms(3) by (auto simp: tun_carried_def ipv4_config_connects)
  obtain u v u' v' where b: "fc_source (fa_cfg b) = ipv4_address u v" "fc_destination (fa_cfg b) = ipv4_address u' v'"
    using assms(2) by (auto simp: ipv4_config_def)
  obtain dgram buf seg' where w:
    "IPv4Datagram_parse (Buffer_init (fst d)) IPv4Datagram_default = Some (NoError, dgram)"
    "ih_src (dg_header dgram) = ip" "ih_dst (dg_header dgram) = ip'" "ih_proto (dg_header dgram) = IPv4Header_PROTO_TCP"
    "BufferList_to_Buffer (dg_payload dgram) = Some buf"
    "TCPSegment_parse buf (IPv4Header_pseudo_cksum (dg_header dgram)) TCPSegment_default = Some (NoError, seg')"
    "th_sport (seg_header seg') = p" "th_dport (seg_header seg') = p'" "same_contents seg' seg"
    by (rule wrapped_datagram [OF rs a(1,2)]) (use a(3,4) in simp)
  show ?thesis using w b rs
    by (auto simp: TCPOverIPv4OverTunFdAdapter_read_def TCPOverIPv4Adapter_unwrap_tcp_in_ip_def unwrap_address_matches_def
      unwrap_from_peer_def FdAdapterBase_set_listening_def Address_of_quad ipv4_config_def)
qed

lemma tun_read_foreign:
  assumes "numeric_resolver rs" and "ipv4_config (fa_cfg b)" and "not_tcp d"
  shows "TCPOverIPv4OverTunFdAdapter_read rs (fst d) b = Some (None, b)"
  using assms by (auto simp: not_tcp_def ipv4_config_def TCPOverIPv4OverTunFdAdapter_read_def
    TCPOverIPv4Adapter_unwrap_tcp_in_ip_def unwrap_address_matches_def)

lemma tun_reads:
  assumes "wired rs a" and "gives_datagram recv d" and "tun_carried rs d seg \<or> not_tcp d"
  shows "\<exists>r b. ao_read (tun_adapter rs) recv writev a = Some (r, b) \<and> wired rs b \<and>
    fd_read_count (ao_fd (tun_adapter rs) b) = fd_read_count (ao_fd (tun_adapter rs) a) + 1 \<and>
    (not_tcp d \<longrightarrow> r = None) \<and> (\<forall>seg'. r = Some seg' \<longrightarrow> tun_carried rs d seg \<longrightarrow> same_contents seg' seg)"
proof -
  have rs: "numeric_resolver rs" "ipv4_config (fa_cfg (da_adapter a))" using assms(1) by (simp_all add: wired_def)
  obtain fd where fd: "read_all recv (da_fd a) = Some (fst d, fd)" "fd_read_count fd = fd_read_count (da_fd a) + 1"
    by (rule read_all_gives [OF assms(2)])
  obtain r b where "TCPOverIPv4OverTunFdAdapter_read rs (fst d) (da_adapter a) = Some (r, b)" "ipv4_config (fa_cfg b)"
    "not_tcp d \<longrightarrow> r = None" "tun_carried rs d seg \<longrightarrow> r = None \<or> (\<exists>seg'. r = Some seg' \<and> same_contents seg' seg)"
    using assms(3) tun_read_carried [OF rs] tun_read_foreign [OF rs] rs(2) by (metis option.inject prod.inject)
  then show ?thesis using fd rs by (auto simp: tun_adapter_def wired_def)
qed

lemma tun_writes:
  assumes "wired rs a" and "takes_datagrams writev" and "fits_datagram seg"
  shows "\<exists>ds b. ao_write (tun_adapter rs) writev seg a = Some (ds, b) \<and> wired rs b \<and>
    (\<forall>d \<in> set ds. \<forall>address. tun_carried rs (d, address) seg)"
proof -
  have rs: "numeric_resolver rs" using assms(1) by (simp add: wired_def)
  obtain ip p ip' p' where c: "connects (da_adapter a) (ip, p) (ip', p')"
    using assms(1) by (auto simp: wired_def ipv4_config_connects)
  obtain out sent where w: "TCPOverIPv4OverTunFdAdapter_write rs seg (da_adapter a) = Some (out, sent)"
    "length (BufferList_concatenate out) < 2 ^ 17"
    by (rule wrapped_datagram [OF rs c assms(3)]) blast
  obtain n fd where "FileDescriptor_write writev (BufferViewList_of_BufferList out) True (da_fd a) = Some ((n, BufferList_concatenate out), fd)"
    by (rule write_datagram [OF assms(2), of out]) (use w(2) in auto)
  then show ?thesis using w(1) assms(1,3) by (auto simp: tun_adapter_def wired_def tun_carried_def)
qed

interpretation tun: datagram_adapter rs "tun_adapter rs" "wired rs" "tun_carried rs" "\<lambda>_. True" not_tcp for rs
proof (unfold_locales, goal_cases)
  case (5 a recv d writev seg)
  then show ?case by (intro tun_reads) auto
next
  case (6 a writev seg)
  then show ?case using tun_writes by simp
qed (auto simp: tun_adapter_def wired_def base_configure_def FdAdapterBase_set_listening_def ipv4_destination)

section \<open>Adapters over UDP sockets\<close>

definition ipv4_source :: "bytes \<Rightarrow> bool" where
  "ipv4_source address \<longleftrightarrow> (\<exists>ip port. address = sockaddr_in ip port)"

definition udp_carried :: "resolver \<Rightarrow> bytes \<times> bytes \<Rightarrow> TCPSegment \<Rightarrow> bool" where
  "udp_carried rs d seg \<longleftrightarrow> fits_datagram seg \<and> ipv4_source (snd d) \<and> (\<exists>a destination out sent. ipv4_config (fa_cfg a) \<and>
     TCPOverUDPSocketAdapter_write rs seg a = Some ((destination, out), sent) \<and> fst d = BufferList_concatenate out)"

text \<open>Datagrams that hold no segment.\<close>

definition no_segment :: "bytes \<times> bytes \<Rightarrow> bool" where
  "no_segment d \<longleftrightarrow> ipv4_source (snd d) \<and>
     (\<exists>result seg. TCPSegment_parse (Buffer_init (fst d)) 0 TCPSegment_default = Some (result, seg) \<and> result \<noteq> NoError)"

lemma recv_gives:
  assumes "gives_datagram recv d" and "ipv4_source (snd d)"
  obtains ip port where "UDPSocket_recv recv 65536 fd = Some ((ipv4_address ip port, fst d), register_read fd)"
proof -
  obtain ip port where a: "snd d = sockaddr_in ip port" using assms(2) by (auto simp: ipv4_source_def)
  have "recv 65536 = ((int (length (fst d)), 0), fst d, sockaddr_in ip port)" "length (fst d) \<le> 65536"
    using assms(1) a by (simp_all add: gives_datagram_def flip: a)
  then show ?thesis using to_int32_small [of "length (fst d)"]
    by (intro that [of ip port]) (simp add: UDPSocket_recv_def SystemCall_def Address_of_sockaddr_in)
qed

lemma sendto_takes:
  assumes "takes_datagrams writev" and "length (BufferList_concatenate out) < 2 ^ 31"
  shows "UDPSocket_sendto (writev k) (BufferViewList_of_BufferList out) fd = Some (BufferList_concatenate out, register_write fd)"
  using assms iovecs_size [of "BufferViewList_of_BufferList out"] views_size [of "BufferViewList_of_BufferList out"]
    to_int32_small [OF assms(2)]
  by (simp add: UDPSocket_sendto_def sendmsg_helper_def takes_datagrams_def SystemCall_def nat_mod_distrib)

lemma udp_read_carried:
  assumes rs: "numeric_resolver rs" and "ipv4_config (fa_cfg b)" and "udp_carried rs d seg"
  shows "\<exists>r b'. TCPOverUDPSocketAdapter_read (ipv4_address ip port, fst d) b = Some (r, b') \<and> ipv4_config (fa_cfg b') \<and>
    (r = None \<or> (\<exists>seg'. r = Some seg' \<and> same_contents seg' seg))"
proof -
  obtain a destination out sent u v u' v' where a: "connects a (u, v) (u', v')" "fits_datagram seg"
    "TCPOverUDPSocketAdapter_write rs seg a = Some ((destination, out), sent)" "fst d = BufferList_concatenate out"
    using assms(3) by (auto simp: udp_carried_def ipv4_config_connects)
  obtain seg' where w: "TCPSegment_parse (Buffer_init (fst d)) 0 TCPSegment_default = Some (NoError, seg')" "same_contents seg' seg"
    by (rule udp_datagram [OF rs a(1,2)]) (use a(3,4) in simp)
  show ?thesis using w assms(2)
    by (auto simp: TCPOverUDPSocketAdapter_read_def FdAdapterBase_set_listening_def ipv4_config_def)
qed

lemma udp_read_foreign: "no_segment d \<Longrightarrow> TCPOverUDPSocketAdapter_read (source, fst d) b = Some (None, b)"
  by (auto simp: no_segment_def TCPOverUDPSocketAdapter_read_def)

lemma udp_reads:
  assumes "wired rs a" and "gives_datagram recv d" and "udp_carried rs d seg \<or> no_segment d"
  shows "\<exists>r b. ao_read (udp_adapter rs) recv writev a = Some (r, b) \<and> wired rs b \<and>
    fd_read_count (ao_fd (udp_adapter rs) b) = fd_read_count (ao_fd (udp_adapter rs) a) + 1 \<and>
    (no_segment d \<longrightarrow> r = None) \<and> (\<forall>seg'. r = Some seg' \<longrightarrow> udp_carried rs d seg \<longrightarrow> same_contents seg' seg)"
proof -
  have rs: "numeric_resolver rs" "ipv4_config (fa_cfg (da_adapter a))" using assms(1) by (simp_all add: wired_def)
  have "ipv4_source (snd d)" using assms(3) by (auto simp: udp_carried_def no_segment_def)
  then obtain ip port where fd: "UDPSocket_recv recv 65536 (da_fd a) = Some ((ipv4_address ip port, fst d), register_read (da_fd a))"
    by (rule recv_gives [OF assms(2)])
  obtain r b where "TCPOverUDPSocketAdapter_read (ipv4_address ip port, fst d) (da_adapter a) = Some (r, b)" "ipv4_config (fa_cfg b)"
    "no_segment d \<longrightarrow> r = None" "udp_carried rs d seg \<longrightarrow> r = None \<or> (\<exists>seg'. r = Some seg' \<and> same_contents seg' seg)"
    using assms(3) udp_read_carried [OF rs] udp_read_foreign rs(2) by (metis option.inject prod.inject)
  then show ?thesis using fd rs by (auto simp: udp_adapter_def wired_def register_read_def)
qed

lemma udp_writes:
  assumes "wired rs a" and "takes_datagrams writev" and "fits_datagram seg"
  shows "\<exists>ds b. ao_write (udp_adapter rs) writev seg a = Some (ds, b) \<and> wired rs b \<and>
    (\<forall>d \<in> set ds. \<forall>address. ipv4_source address \<longrightarrow> udp_carried rs (d, address) seg)"
proof -
  have rs: "numeric_resolver rs" using assms(1) by (simp add: wired_def)
  obtain ip p ip' p' where c: "connects (da_adapter a) (ip, p) (ip', p')"
    using assms(1) by (auto simp: wired_def ipv4_config_connects)
  obtain out sent where w: "TCPOverUDPSocketAdapter_write rs seg (da_adapter a) = Some ((ipv4_address ip' p', out), sent)"
    "length (BufferList_concatenate out) < 2 ^ 31"
    by (rule udp_datagram [OF rs c assms(3)]) auto
  then show ?thesis using sendto_takes [OF assms(2) w(2)] assms(1,3) by (auto simp: udp_adapter_def wired_def udp_carried_def)
qed

interpretation udp: datagram_adapter rs "udp_adapter rs" "wired rs" "udp_carried rs" ipv4_source no_segment for rs
proof (unfold_locales, goal_cases)
  case (5 a recv d writev seg)
  then show ?case by (intro udp_reads) auto
next
  case (6 a writev seg)
  then show ?case by (rule udp_writes)
qed (auto simp: udp_adapter_def wired_def base_configure_def FdAdapterBase_set_listening_def ipv4_destination)

section \<open>Lossy adapters\<close>

text \<open>A lossy adapter over one that keeps the contract keeps it.\<close>

context datagram_adapter
begin

lemma lossy_reads:
  assumes "ao_read ops recv writev (ly_adapter ly) = Some (r, b)"
  obtains r' ly' where "ao_read (lossy_adapter ops) recv writev ly = Some (r', ly')" and "ly_adapter ly' = b" and "r' = r \<or> r' = None"
proof -
  obtain lost ly' where d: "LossyFdAdapter_should_drop (ao_config ops) False (ly\<lparr>ly_adapter := b\<rparr>) = (lost, ly')" by fastforce
  have "ly_adapter ly' = b" using d by (auto simp: LossyFdAdapter_should_drop_def Let_def split: if_splits)
  then show ?thesis using assms d
    by (intro that [of "if lost then None else r" ly']) (auto simp: lossy_adapter_def LossyFdAdapter_read_def)
qed

lemma lossy_writes:
  assumes "ao_write ops writev seg (ly_adapter ly) = Some (ds, b)"
  obtains ds' ly' where "ao_write (lossy_adapter ops) writev seg ly = Some (ds', ly')"
    and "ds' = [] \<and> ly_adapter ly' = ly_adapter ly \<or> ds' = ds \<and> ly_adapter ly' = b"
proof -
  obtain lost ly' where d: "LossyFdAdapter_should_drop (ao_config ops) True ly = (lost, ly')" by fastforce
  have "ly_adapter ly' = ly_adapter ly" using d by (auto simp: LossyFdAdapter_should_drop_def Let_def split: if_splits)
  then show ?thesis using assms d
    by (intro that [of "if lost then [] else ds" "if lost then ly' else ly'\<lparr>ly_adapter := b\<rparr>"])
      (auto simp: lossy_adapter_def LossyFdAdapter_write_def)
qed

lemma lossy_contract: "datagram_adapter rs (lossy_adapter ops) (\<lambda>ly. ok (ly_adapter ly)) carried source foreign"
proof (unfold_locales, goal_cases)
  case (5 ly recv d writev seg)
  obtain r b where r: "ao_read ops recv writev (ly_adapter ly) = Some (r, b)" "ok b"
    "fd_read_count (ao_fd ops b) = fd_read_count (ao_fd ops (ly_adapter ly)) + 1"
    "foreign d \<longrightarrow> r = None" "\<forall>seg'. r = Some seg' \<longrightarrow> carried d seg \<longrightarrow> same_contents seg' seg"
    using reads [OF 5] by blast
  obtain r' ly' where "ao_read (lossy_adapter ops) recv writev ly = Some (r', ly')" "ly_adapter ly' = b" "r' = r \<or> r' = None"
    by (rule lossy_reads [OF r(1)])
  then show ?case using r by (auto simp: lossy_adapter_def)
next
  case (6 ly writev seg)
  obtain ds b where w: "ao_write ops writev seg (ly_adapter ly) = Some (ds, b)" "ok b"
    "\<forall>d \<in> set ds. \<forall>address. source address \<longrightarrow> carried (d, address) seg"
    using writes [OF 6] by blast
  obtain ds' ly' where "ao_write (lossy_adapter ops) writev seg ly = Some (ds', ly')"
    "ds' = [] \<and> ly_adapter ly' = ly_adapter ly \<or> ds' = ds \<and> ly_adapter ly' = b"
    by (rule lossy_writes [OF w(1)])
  then show ?case using w(2,3) 6(1) by auto
next
  case (7 ly writev ms)
  then show ?case using ticks [of "ly_adapter ly" writev ms] by (auto simp: lossy_adapter_def)
qed (simp_all add: lossy_adapter_def config configure set_listening destination)

end

interpretation lossy_tun: datagram_adapter rs "lossy_adapter (tun_adapter rs)" "\<lambda>ly. wired rs (ly_adapter ly)" "tun_carried rs" "\<lambda>_. True" not_tcp for rs
  by (rule tun.lossy_contract)

interpretation lossy_udp: datagram_adapter rs "lossy_adapter (udp_adapter rs)" "\<lambda>ly. wired rs (ly_adapter ly)" "udp_carried rs" ipv4_source no_segment for rs
  by (rule udp.lossy_contract)

section \<open>Adapters over TAP devices\<close>

text \<open>With the network interface that drops everything no frame is written and no segment read.\<close>

definition tapped :: "resolver \<Rightarrow> TCPOverIPv4OverEthernetAdapter device_adapter \<Rightarrow> bool" where
  "tapped rs a \<longleftrightarrow> numeric_resolver rs \<and> ipv4_config (fa_cfg (ea_base (da_adapter a))) \<and>
     ni_frames_out (ea_interface (da_adapter a)) = [] \<and> Address_ipv4_numeric (ea_next_hop (da_adapter a)) \<noteq> None"

definition is_frame :: "bytes \<times> bytes \<Rightarrow> bool" where
  "is_frame d \<longleftrightarrow> EthernetFrame_parse (Buffer_init (fst d)) EthernetFrame_default \<noteq> None"

lemma tap_reads:
  assumes "tapped rs a" and "gives_datagram recv d" and "is_frame d"
  shows "\<exists>b. ao_read (ethernet_adapter rs) recv writev a = Some (None, b) \<and> tapped rs b \<and> fd_read_count (da_fd b) = fd_read_count (da_fd a) + 1"
proof -
  obtain fd where fd: "read_all recv (da_fd a) = Some (fst d, fd)" "fd_read_count fd = fd_read_count (da_fd a) + 1"
    by (rule read_all_gives [OF assms(2)])
  show ?thesis using assms(1,3) fd
    by (auto simp: ethernet_adapter_def TCPOverIPv4OverEthernetAdapter_read_def is_frame_def tapped_def
      NetworkInterface_recv_frame_def TCPOverIPv4OverEthernetAdapter_send_pending_def)
qed

lemma tap_writes:
  assumes "tapped rs a" and "fits_datagram seg"
  shows "\<exists>b. ao_write (ethernet_adapter rs) writev seg a = Some ([], b) \<and> tapped rs b"
proof -
  have rs: "numeric_resolver rs" using assms(1) by (simp add: tapped_def)
  obtain ip p ip' p' where c: "connects (ea_base (da_adapter a)) (ip, p) (ip', p')"
    using assms(1) by (auto simp: tapped_def ipv4_config_connects)
  obtain r where "TCPOverIPv4OverTunFdAdapter_write rs seg (ea_base (da_adapter a)) = Some r"
    by (rule wrapped_datagram [OF rs c assms(2)])
  then obtain dgram sent where "TCPOverIPv4Adapter_wrap_tcp_in_ip rs seg (ea_base (da_adapter a)) = Some (dgram, sent)"
    by (auto simp: TCPOverIPv4OverTunFdAdapter_write_def split: bind_splits)
  then show ?thesis using assms(1)
    by (auto simp: ethernet_adapter_def TCPOverIPv4OverEthernetAdapter_write_def NetworkInterface_send_datagram_def tapped_def
      TCPOverIPv4OverEthernetAdapter_send_pending_def)
qed

interpretation tap: datagram_adapter rs "ethernet_adapter rs" "tapped rs" "\<lambda>_ _. False" "\<lambda>_. True" is_frame for rs
proof (unfold_locales, goal_cases)
  case (5 a recv d writev seg)
  then show ?case using tap_reads [of rs a recv d writev] by (auto simp: ethernet_adapter_def)
next
  case (6 a writev seg)
  then show ?case using tap_writes [of rs a seg writev] by auto
qed (auto simp: ethernet_adapter_def tapped_def base_configure_def FdAdapterBase_set_listening_def ipv4_destination
  TCPOverIPv4OverEthernetAdapter_tick_def NetworkInterface_tick_def TCPOverIPv4OverEthernetAdapter_send_pending_def)

end
