(* ===== verification/Event_Loop.thy ===== *)
theory Event_Loop
  imports File_Descriptor "HOL-Library.Sublist"
begin

unbundle bit_operations_syntax

text \<open>
  EventLoop (libsponge/util/eventloop.hh, eventloop.cc). The callbacks of a rule work on the state of
  the program that owns the loop, of the type \<open>'s\<close>; a rule refers to its file descriptor in that state.
  \<open>poll\<close> is an argument: given the timeout and the descriptors it returns its result, the \<open>errno\<close> and the
  events found. Exceptions, of the loop and of callbacks, are \<open>None\<close>.

  The locale \<open>served_rules\<close> is the contract of a set of rules. A rule that is interested has its
  guard, which the callbacks and cancellations of the other rules keep; a callback that is called
  with its guard keeps the invariant of the program and serves its descriptor or loses interest.
  Under the contract a round of the loop neither throws nor breaks the invariant.
\<close>

section \<open>The class\<close>

datatype Direction = In | Out

definition POLLIN :: u16 where
  "POLLIN = 1"

definition POLLOUT :: u16 where
  "POLLOUT = 4"

definition POLLERR :: u16 where
  "POLLERR = 8"

definition POLLHUP :: u16 where
  "POLLHUP = 16"

definition POLLNVAL :: u16 where
  "POLLNVAL = 32"

definition EINTR :: int where
  "EINTR = 4"

definition Direction_events :: "Direction \<Rightarrow> u16" where
  "Direction_events d = (case d of In \<Rightarrow> POLLIN | Out \<Rightarrow> POLLOUT)"

record 's Rule =
  ru_fd :: "'s \<Rightarrow> FDWrapper"
  ru_direction :: Direction
  ru_callback :: "'s \<Rightarrow> 's option"
  ru_interest :: "'s \<Rightarrow> bool"
  ru_cancel :: "'s \<Rightarrow> 's option"

datatype Result = Success | Timeout | Exit

record pollfd =
  pf_fd :: int
  pf_events :: u16
  pf_revents :: u16

type_synonym poll = "int \<Rightarrow> pollfd list \<Rightarrow> (int \<times> int) \<times> u16 list"

definition Rule_service_count :: "'s Rule \<Rightarrow> 's \<Rightarrow> u32" where
  "Rule_service_count r s = (if ru_direction r = In then fd_read_count (ru_fd r s) else fd_write_count (ru_fd r s))"

definition EventLoop_add_rule :: "'s Rule \<Rightarrow> 's Rule list \<Rightarrow> 's Rule list" where
  "EventLoop_add_rule r rules = rules @ [r]"

text \<open>The first loop: the rules kept, their descriptors to be polled and whether one is interested.\<close>

fun poll_setup :: "'s Rule list \<Rightarrow> 's \<Rightarrow> (('s Rule list \<times> pollfd list \<times> bool) \<times> 's) option" where
  "poll_setup [] s = Some (([], [], False), s)"
| "poll_setup (this_rule # rules) s =
     (if ru_direction this_rule = In \<and> fd_eof (ru_fd this_rule s) then do {
        s \<leftarrow> ru_cancel this_rule s;
        poll_setup rules s
      }
      else if fd_closed (ru_fd this_rule s) then do {
        s \<leftarrow> ru_cancel this_rule s;
        poll_setup rules s
      }
      else do {
        let interested = ru_interest this_rule s;
        let pfd = \<lparr>pf_fd = fd_fd (ru_fd this_rule s),
          pf_events = (if interested then Direction_events (ru_direction this_rule) else 0), pf_revents = 0\<rparr>;
        ((kept, pollfds, something_to_poll), s) \<leftarrow> poll_setup rules s;
        Some ((this_rule # kept, pfd # pollfds, interested \<or> something_to_poll), s)
      })"

text \<open>The second loop, over the rules and the results of \<open>poll\<close>. Reading past the end of the results is
  undefined.\<close>

fun poll_results :: "'s Rule list \<Rightarrow> pollfd list \<Rightarrow> 's \<Rightarrow> ('s Rule list \<times> 's) option" where
  "poll_results [] pollfds s = Some ([], s)"
| "poll_results (this_rule # rules) [] s = None"
| "poll_results (this_rule # rules) (this_pollfd # pollfds) s =
     (if pf_revents this_pollfd AND (POLLERR OR POLLNVAL) \<noteq> 0 then None
      else (let poll_ready = (pf_revents this_pollfd AND pf_events this_pollfd \<noteq> 0);
                poll_hup = (pf_revents this_pollfd AND POLLHUP \<noteq> 0) in
        if poll_hup \<and> pf_events this_pollfd \<noteq> 0 \<and> \<not> poll_ready then do {
          s \<leftarrow> ru_cancel this_rule s;
          poll_results rules pollfds s
        }
        else do {
          s \<leftarrow> (if poll_ready then do {
              let count_before = Rule_service_count this_rule s;
              s \<leftarrow> ru_callback this_rule s;
              if count_before = Rule_service_count this_rule s \<and> ru_interest this_rule s then None else Some s
            } else Some s);
          (kept, s) \<leftarrow> poll_results rules pollfds s;
          Some (this_rule # kept, s)
        }))"

text \<open>An error of \<open>poll\<close> other than an interrupt is caught and the results are gone through.\<close>

definition EventLoop_wait_next_event :: "poll \<Rightarrow> int \<Rightarrow> 's Rule list \<Rightarrow> 's \<Rightarrow> (Result \<times> 's Rule list \<times> 's) option" where
  "EventLoop_wait_next_event poll timeout_ms rules s = do {
     ((rules, pollfds, something_to_poll), s) \<leftarrow> poll_setup rules s;
     if \<not> something_to_poll then Some (Exit, rules, s)
     else (let ((return_value, errno), revents) = poll timeout_ms pollfds;
               pollfds = map2 (\<lambda>pfd r. pfd\<lparr>pf_revents := r\<rparr>) pollfds revents in
       case SystemCall return_value errno 0 of
         Some n \<Rightarrow>
           if n = 0 then Some (Timeout, rules, s)
           else map_option (\<lambda>(rules, s). (Success, rules, s)) (poll_results rules pollfds s)
       | None \<Rightarrow>
           if errno = EINTR then Some (Exit, rules, s)
           else map_option (\<lambda>(rules, s). (Success, rules, s)) (poll_results rules pollfds s))
   }"

section \<open>Rounds of the loop\<close>

lemma subseq_set: "subseq xs ys \<Longrightarrow> set xs \<subseteq> set ys"
  by (auto dest: list_emb_set)

lemma subseq_distinct: "subseq xs ys \<Longrightarrow> distinct ys \<Longrightarrow> distinct xs"
  by (induction rule: list_emb.induct) (auto dest: subseq_set)

lemma poll_setup_step:
  assumes "poll_setup (q # rules) s = Some ((kept, pollfds, st), t)"
  obtains (cancelled) u where "ru_cancel q s = Some u" and "poll_setup rules u = Some ((kept, pollfds, st), t)"
  | (kept) kept' pollfds' st' where "poll_setup rules s = Some ((kept', pollfds', st'), t)" and "kept = q # kept'"
    and "st = (ru_interest q s \<or> st')" and "length pollfds = Suc (length pollfds')"
  using assms by (auto simp: Let_def split: if_splits bind_splits)

lemma poll_setup_kept:
  assumes "poll_setup rules s = Some ((kept, pollfds, st), s')"
  shows "subseq kept rules \<and> length pollfds = length kept"
  using assms
proof (induction rules arbitrary: s kept pollfds st s')
  case (Cons r rules)
  from Cons.prems show ?case by (cases rule: poll_setup_step) (auto dest: Cons.IH)
qed simp

lemma poll_results_kept:
  assumes "poll_results rules pollfds s = Some (kept, s')"
  shows "subseq kept rules"
  using assms
proof (induction rules pollfds s arbitrary: kept s' rule: poll_results.induct)
  case (3 r rules pfd pollfds s)
  then show ?case by (auto simp: Let_def split: if_splits bind_splits) (fastforce)+
qed simp_all

lemma wait_next_event_kept:
  assumes "EventLoop_wait_next_event poll timeout_ms rules s = Some (res, kept, s')"
  shows "subseq kept rules"
  using assms unfolding EventLoop_wait_next_event_def
  by (auto simp: Let_def split: bind_splits if_splits prod.splits option.splits dest!: poll_setup_kept poll_results_kept
    intro: subseq_order.trans)

text \<open>What the rules that are kept are not interested in, when nothing is left to poll: a consequence of
  a rule's lack of interest holds, if cancelling a rule keeps it.\<close>

lemma poll_setup_stable:
  assumes "poll_setup rules s = Some ((kept, pollfds, st), t)" and "Q s"
    and "\<And>r s u. r \<in> set rules \<Longrightarrow> ru_cancel r s = Some u \<Longrightarrow> Q s \<Longrightarrow> Q u"
  shows "Q t"
  using assms
proof (induction rules arbitrary: s kept pollfds st)
  case (Cons q rules)
  have "Q u" if "ru_cancel q s = Some u" for u using Cons.prems(3) [OF _ that Cons.prems(2)] by simp
  with Cons.prems(1,2) obtain u kept' pollfds' st' where "poll_setup rules u = Some ((kept', pollfds', st'), t)" "Q u"
    by (cases rule: poll_setup_step) blast+
  then show ?case by (rule Cons.IH) (use Cons.prems(3) in auto)
qed simp

lemma poll_setup_idle:
  assumes "poll_setup rules s = Some ((kept, pollfds, False), t)" and "r \<in> set kept"
    and "\<And>s. \<not> ru_interest r s \<Longrightarrow> Q s"
    and "\<And>r s u. r \<in> set rules \<Longrightarrow> ru_cancel r s = Some u \<Longrightarrow> Q s \<Longrightarrow> Q u"
  shows "Q t"
  using assms(1,2,4)
proof (induction rules arbitrary: s kept pollfds)
  case (Cons q rules)
  from Cons.prems(1) show ?case
  proof (cases rule: poll_setup_step)
    case (cancelled u)
    show ?thesis by (rule Cons.IH [OF cancelled(2) Cons.prems(2)]) (use Cons.prems(3) in auto)
  next
    case (kept kept' pollfds' st')
    then have k: "poll_setup rules s = Some ((kept', pollfds', False), t)" "\<not> ru_interest q s" by auto
    have "Q t" if "r \<in> set kept'" by (rule Cons.IH [OF k(1) that]) (use Cons.prems(3) in auto)
    moreover have "Q t" if "r = q"
      by (rule poll_setup_stable [OF k(1)]) (use that k(2) assms(3) Cons.prems(3) in auto)
    ultimately show ?thesis using Cons.prems(2) kept(2) by auto
  qed
qed simp

text \<open>Rules on open descriptors are all kept.\<close>

lemma poll_setup_open:
  assumes "\<And>r. r \<in> set rules \<Longrightarrow> \<not> fd_closed (ru_fd r s) \<and> \<not> fd_eof (ru_fd r s)"
  shows "\<exists>pollfds. poll_setup rules s = Some ((rules, pollfds, \<exists>r \<in> set rules. ru_interest r s), s)"
  using assms
proof (induction rules)
  case (Cons r rules)
  then obtain pollfds where "poll_setup rules s = Some ((rules, pollfds, \<exists>r \<in> set rules. ru_interest r s), s)" by auto
  then show ?case using Cons.prems [of r] by (simp add: Let_def)
qed simp

text \<open>A \<open>poll\<close> that reports one set of events for every descriptor and neither an error nor an invalid
  descriptor among them, and is not interrupted by a signal; it may fail as a whole.\<close>

definition poll_ok :: "poll \<Rightarrow> bool" where
  "poll_ok poll \<longleftrightarrow> (\<forall>t pollfds. length (snd (poll t pollfds)) = length pollfds \<and>
     snd (fst (poll t pollfds)) \<noteq> EINTR \<and> (\<forall>r \<in> set (snd (poll t pollfds)). r AND (POLLERR OR POLLNVAL) = 0))"

text \<open>The rules that will be called when they are ready have their guards.\<close>

definition guarded :: "('s Rule \<Rightarrow> 's \<Rightarrow> bool) \<Rightarrow> 's Rule list \<Rightarrow> pollfd list \<Rightarrow> 's \<Rightarrow> bool" where
  "guarded guard rs pollfds s \<longleftrightarrow> list_all2 (\<lambda>r p. pf_events p \<noteq> 0 \<longrightarrow> guard r s) rs pollfds"

locale served_rules =
  fixes rules :: "'s Rule list"
    and inv :: "'s \<Rightarrow> bool"
    and guard :: "'s Rule \<Rightarrow> 's \<Rightarrow> bool"
  assumes distinct_rules: "distinct rules"
    and interest_guard: "r \<in> set rules \<Longrightarrow> inv s \<Longrightarrow> ru_interest r s \<Longrightarrow> guard r s"
    and callback_serves: "r \<in> set rules \<Longrightarrow> inv s \<Longrightarrow> guard r s \<Longrightarrow> \<exists>t. ru_callback r s = Some t \<and> inv t \<and>
      (Rule_service_count r t \<noteq> Rule_service_count r s \<or> \<not> ru_interest r t)"
    and callback_keeps: "r \<in> set rules \<Longrightarrow> q \<in> set rules \<Longrightarrow> q \<noteq> r \<Longrightarrow> inv s \<Longrightarrow> guard r s \<Longrightarrow> guard q s \<Longrightarrow>
      ru_callback r s = Some t \<Longrightarrow> guard q t"
    and cancel_returns: "r \<in> set rules \<Longrightarrow> inv s \<Longrightarrow> \<exists>t. ru_cancel r s = Some t \<and> inv t"
    and cancel_keeps: "r \<in> set rules \<Longrightarrow> q \<in> set rules \<Longrightarrow> q \<noteq> r \<Longrightarrow> inv s \<Longrightarrow> guard q s \<Longrightarrow>
      ru_cancel r s = Some t \<Longrightarrow> guard q t"
begin

lemma guarded_step:
  assumes "guarded guard rs pollfds s" and "\<And>q. q \<in> set rs \<Longrightarrow> guard q s \<Longrightarrow> guard q t"
  shows "guarded guard rs pollfds t"
  using assms unfolding guarded_def by (metis (mono_tags, lifting) list.rel_mono_strong)

lemma setup_keeps_guard:
  assumes "poll_setup rs s = Some ((kept, pollfds, st), t)" and "set rs \<subseteq> set rules" and "inv s"
    and "guard q s" and "q \<in> set rules" and "q \<notin> set rs"
  shows "guard q t"
  using assms
proof (induction rs arbitrary: s kept pollfds st)
  case (Cons r rs)
  from Cons.prems(1) show ?case
  proof (cases rule: poll_setup_step)
    case (cancelled u)
    then have "guard q u" "inv u" using cancel_keeps [of r q s u] cancel_returns [of r s] Cons.prems by auto
    then show ?thesis using Cons.IH [OF cancelled(2)] Cons.prems by simp
  next
    case (kept kept' pollfds' st')
    then show ?thesis using Cons.IH [OF kept(1)] Cons.prems by simp
  qed
qed simp

lemma setup_returns:
  assumes "set rs \<subseteq> set rules" and "inv s" and "distinct rs"
  shows "\<exists>kept pollfds st t. poll_setup rs s = Some ((kept, pollfds, st), t) \<and> inv t \<and> guarded guard kept pollfds t"
  using assms
proof (induction rs arbitrary: s)
  case Nil
  then show ?case by (force simp: guarded_def)
next
  case (Cons r rs)
  obtain u where u: "ru_cancel r s = Some u" "inv u" using cancel_returns [of r s] Cons.prems by auto
  obtain kept pollfds st t where k: "poll_setup rs s = Some ((kept, pollfds, st), t)" "inv t" "guarded guard kept pollfds t"
    using Cons.IH [of s] Cons.prems by auto
  have "guard r t" if "ru_interest r s"
    using setup_keeps_guard [OF k(1), of r] interest_guard [of r s] that Cons.prems by simp
  then have "guarded guard (r # kept) (\<lparr>pf_fd = fd_fd (ru_fd r s), pf_events = (if ru_interest r s
      then Direction_events (ru_direction r) else 0), pf_revents = 0\<rparr> # pollfds) t"
    using k(3) by (simp add: guarded_def)
  moreover have "\<exists>kept pollfds st t. poll_setup rs u = Some ((kept, pollfds, st), t) \<and> inv t \<and> guarded guard kept pollfds t"
    using Cons.IH [of u] Cons.prems u(2) by simp
  ultimately show ?case using u(1) k by (auto simp: Let_def)
qed

lemma results_return:
  assumes "set rs \<subseteq> set rules" and "inv s" and "distinct rs" and "guarded guard rs pollfds s"
    and "\<forall>p \<in> set pollfds. pf_revents p AND (POLLERR OR POLLNVAL) = 0"
  shows "\<exists>kept t. poll_results rs pollfds s = Some (kept, t) \<and> inv t"
  using assms
proof (induction rs arbitrary: pollfds s)
  case Nil
  then show ?case by simp
next
  case (Cons r rs)
  obtain p ps where ps: "pollfds = p # ps" and g: "pf_events p \<noteq> 0 \<longrightarrow> guard r s" "guarded guard rs ps s"
    using Cons.prems(4) by (auto simp: guarded_def list_all2_Cons1)
  have r: "r \<in> set rules" "r \<notin> set rs" "distinct rs" "set rs \<subseteq> set rules" using Cons.prems by auto
  have err: "pf_revents p AND (POLLERR OR POLLNVAL) = 0" "\<forall>p \<in> set ps. pf_revents p AND (POLLERR OR POLLNVAL) = 0"
    using Cons.prems(5) ps by simp_all
  have rest: "\<exists>kept t. poll_results rs ps x = Some (kept, t) \<and> inv t" if "inv x" "\<And>q. q \<in> set rs \<Longrightarrow> guard q s \<Longrightarrow> guard q x" for x
    using that(1) guarded_step [OF g(2) that(2)] by (intro Cons.IH [OF r(4) _ r(3) _ err(2)])
  obtain u where u: "ru_cancel r s = Some u" "inv u" using cancel_returns [of r s] r(1) Cons.prems(2) by auto
  have "guard q u" if "q \<in> set rs" "guard q s" for q using cancel_keeps [OF r(1), of q s u] that r u(1) Cons.prems(2) by auto
  note ru = rest [OF u(2) this]
  show ?case
  proof (cases "pf_revents p AND pf_events p \<noteq> 0")
    case True
    then have gr: "guard r s" using g(1) by auto
    obtain v where v: "ru_callback r s = Some v" "inv v" "Rule_service_count r v \<noteq> Rule_service_count r s \<or> \<not> ru_interest r v"
      using callback_serves [OF r(1) Cons.prems(2) gr] by auto
    have "guard q v" if "q \<in> set rs" "guard q s" for q using callback_keeps [OF r(1), of q s v] that r gr v(1) Cons.prems(2) by auto
    from rest [OF v(2) this] show ?thesis using v True err(1) by (auto simp: Let_def ps)
  next
    case False
    then show ?thesis using rest [OF Cons.prems(2)] ru u(1) err(1) by (auto simp: Let_def ps)
  qed
qed

lemma round_returns:
  assumes "subseq rs rules" and "inv s" and "poll_ok poll"
  shows "\<exists>res kept t. EventLoop_wait_next_event poll timeout_ms rs s = Some (res, kept, t) \<and> subseq kept rules \<and> inv t"
proof -
  have rs: "set rs \<subseteq> set rules" "distinct rs" using assms(1) subseq_set subseq_distinct distinct_rules by blast+
  obtain kept pollfds st t where u: "poll_setup rs s = Some ((kept, pollfds, st), t)" "inv t" "guarded guard kept pollfds t"
    using setup_returns [OF rs(1) assms(2) rs(2)] by blast
  have k: "subseq kept rs" "length pollfds = length kept" using poll_setup_kept [OF u(1)] by auto
  obtain rv errno revents where p: "poll timeout_ms pollfds = ((rv, errno), revents)" by (metis surj_pair)
  let ?pfds = "map2 (\<lambda>pfd r. pfd\<lparr>pf_revents := r\<rparr>) pollfds revents"
  have r: "length revents = length pollfds" "\<forall>r \<in> set revents. r AND (POLLERR OR POLLNVAL) = 0"
    using assms(3) p unfolding poll_ok_def by (metis snd_conv)+
  have "guarded guard kept ?pfds t" using u(3) r(1) by (auto simp: guarded_def list_all2_conv_all_nth)
  moreover have "\<forall>p \<in> set ?pfds. pf_revents p AND (POLLERR OR POLLNVAL) = 0" using r(2) by (auto dest: set_zip_rightD)
  moreover have "set kept \<subseteq> set rules" "distinct kept" using k(1) rs subseq_set subseq_distinct by blast+
  ultimately obtain kept' t' where q: "poll_results kept ?pfds t = Some (kept', t')" "inv t'"
    using results_return [of kept t ?pfds] u(2) by blast
  have "subseq kept rules" "subseq kept' rules"
    using poll_results_kept [OF q(1)] k(1) assms(1) subseq_order.trans by blast+
  then show ?thesis using u q p by (auto simp: EventLoop_wait_next_event_def SystemCall_def)
qed

end

text \<open>The loop ends when no rule that is kept is interested.\<close>

lemma wait_next_event_exit:
  assumes "EventLoop_wait_next_event poll timeout_ms rules s = Some (Exit, kept, t)" and "poll_ok poll" and "r \<in> set kept"
    and "\<And>s. \<not> ru_interest r s \<Longrightarrow> Q s"
    and "\<And>r s u. r \<in> set rules \<Longrightarrow> ru_cancel r s = Some u \<Longrightarrow> Q s \<Longrightarrow> Q u"
  shows "Q t"
proof -
  obtain pollfds st where "poll_setup rules s = Some ((kept, pollfds, st), t)" "\<not> st"
  proof -
    obtain kept' pollfds st t' where u: "poll_setup rules s = Some ((kept', pollfds, st), t')"
      using assms(1) by (auto simp: EventLoop_wait_next_event_def split: bind_splits)
    obtain rv errno revents where p: "poll timeout_ms pollfds = ((rv, errno), revents)" by (metis surj_pair)
    have "errno \<noteq> EINTR" using assms(2) p unfolding poll_ok_def by (metis fst_conv snd_conv)
    then have "\<not> st \<and> kept' = kept \<and> t' = t" using assms(1) u p
      by (auto simp: EventLoop_wait_next_event_def Let_def split: if_splits option.splits)
    then show ?thesis using u that by blast
  qed
  then show ?thesis using poll_setup_idle [of rules s kept pollfds t r Q] assms(3-5) by simp
qed

end
