(* ===== verification/Byte_Stream.thy ===== *)
theory Byte_Stream
  imports Sponge_Prelude
begin

text \<open>
  ByteStream (libsponge/byte\_stream.hh, byte\_stream.cc): a bounded in-order byte channel
  over a ring buffer. The record holds the fields of the class; each method is one
  definition. \<open>bs_inv\<close> is the representation invariant and \<open>bs_content\<close> the
  abstraction to the list of bytes written and not yet read. The locale \<open>byte_channel\<close>
  states the contract the reassembler, the sender and the applications rely on, and is
  interpreted on these definitions.

  \<open>buffer_.capacity()\<close> is the length of the list: the vector is built with its final size and
  never grows.
\<close>

section \<open>The class\<close>

record ByteStream =
  bs_buffer :: bytes
  bs_used_size :: u64
  bs_start_pos :: u64
  bs_bytes_read :: u64
  bs_bytes_written :: u64
  bs_input_ended :: bool
  bs_error :: bool

definition ByteStream_init :: "u64 \<Rightarrow> ByteStream" where
  "ByteStream_init capacity = \<lparr>bs_buffer = replicate capacity 0, bs_used_size = 0,
     bs_start_pos = 0, bs_bytes_read = 0, bs_bytes_written = 0,
     bs_input_ended = False, bs_error = False\<rparr>"

definition bs_capacity :: "ByteStream \<Rightarrow> u64" where
  "bs_capacity s = length (bs_buffer s)"

definition ByteStream_remaining_capacity :: "ByteStream \<Rightarrow> u64" where
  "ByteStream_remaining_capacity s = sub64 (bs_capacity s) (bs_used_size s)"

definition ByteStream_end_pos :: "ByteStream \<Rightarrow> u64 option" where
  "ByteStream_end_pos s = rem64 (add64 (bs_start_pos s) (bs_used_size s)) (bs_capacity s)"

definition ByteStream_write :: "bytes \<Rightarrow> ByteStream \<Rightarrow> (u64 \<times> ByteStream) option" where
  "ByteStream_write data s =
     (let write_size = min (length data) (ByteStream_remaining_capacity s) in
      if write_size = 0 then Some (0, s)
      else do {
        e \<leftarrow> ByteStream_end_pos s;
        buf \<leftarrow> (if e < bs_start_pos s \<or> add64 e write_size \<le> bs_capacity s
          then memcpy (bs_buffer s) e data 0 write_size
          else (let copy1 = sub64 (bs_capacity s) e in do {
            b \<leftarrow> memcpy (bs_buffer s) e data 0 copy1;
            memcpy b 0 data copy1 (sub64 write_size copy1)
          }));
        let used = add64 (bs_used_size s) write_size;
        cpp_assert (used \<le> bs_capacity s);
        Some (write_size, s\<lparr>bs_buffer := buf, bs_used_size := used,
          bs_bytes_written := add64 (bs_bytes_written s) write_size\<rparr>)
      })"

definition ByteStream_peek_output :: "u64 \<Rightarrow> ByteStream \<Rightarrow> bytes option" where
  "ByteStream_peek_output len s =
     (let read_size = min len (bs_used_size s); ret = replicate read_size 0 in
      if add64 (bs_start_pos s) read_size \<le> bs_capacity s
      then memcpy ret 0 (bs_buffer s) (bs_start_pos s) read_size
      else (let copy1 = sub64 (bs_capacity s) (bs_start_pos s) in do {
        r \<leftarrow> memcpy ret 0 (bs_buffer s) (bs_start_pos s) copy1;
        memcpy r copy1 (bs_buffer s) 0 (sub64 read_size copy1)
      }))"

definition ByteStream_pop_output :: "u64 \<Rightarrow> ByteStream \<Rightarrow> ByteStream option" where
  "ByteStream_pop_output len s =
     (let pop_size = min len (bs_used_size s) in do {
        start \<leftarrow> rem64 (add64 (bs_start_pos s) pop_size) (bs_capacity s);
        Some (s\<lparr>bs_start_pos := start, bs_used_size := sub64 (bs_used_size s) pop_size,
          bs_bytes_read := add64 (bs_bytes_read s) pop_size\<rparr>)
      })"

definition ByteStream_read :: "u64 \<Rightarrow> ByteStream \<Rightarrow> (bytes \<times> ByteStream) option" where
  "ByteStream_read len s = do {
     ret \<leftarrow> ByteStream_peek_output len s;
     t \<leftarrow> ByteStream_pop_output len s;
     Some (ret, t)
   }"

definition ByteStream_end_input :: "ByteStream \<Rightarrow> ByteStream" where
  "ByteStream_end_input s = s\<lparr>bs_input_ended := True\<rparr>"

definition ByteStream_set_error :: "ByteStream \<Rightarrow> ByteStream" where
  "ByteStream_set_error s = s\<lparr>bs_error := True\<rparr>"

definition ByteStream_buffer_size :: "ByteStream \<Rightarrow> u64" where
  "ByteStream_buffer_size s = bs_used_size s"

definition ByteStream_buffer_empty :: "ByteStream \<Rightarrow> bool" where
  "ByteStream_buffer_empty s = (bs_used_size s = 0)"

definition ByteStream_eof :: "ByteStream \<Rightarrow> bool" where
  "ByteStream_eof s = (bs_used_size s = 0 \<and> bs_input_ended s)"

declare ByteStream_init_def [sponge_eval] bs_capacity_def [sponge_eval]
  ByteStream_remaining_capacity_def [sponge_eval] ByteStream_end_pos_def [sponge_eval]
  ByteStream_write_def [sponge_eval] ByteStream_peek_output_def [sponge_eval]
  ByteStream_pop_output_def [sponge_eval] ByteStream_read_def [sponge_eval]
  ByteStream_end_input_def [sponge_eval] ByteStream_set_error_def [sponge_eval]
  ByteStream_buffer_size_def [sponge_eval] ByteStream_buffer_empty_def [sponge_eval]
  ByteStream_eof_def [sponge_eval]

section \<open>Invariant and abstraction\<close>

text \<open>
  The capacity bound is the largest size of a \<open>std::vector<char>\<close>, 2 to the 63 minus 1.
  The counters may wrap; their difference still is the number of bytes held.
\<close>

definition bs_inv :: "ByteStream \<Rightarrow> bool" where
  "bs_inv s \<longleftrightarrow> bs_capacity s < 2 ^ 63 \<and> bs_used_size s \<le> bs_capacity s \<and>
     (0 < bs_capacity s \<longrightarrow> bs_start_pos s < bs_capacity s) \<and>
     (bs_capacity s = 0 \<longrightarrow> bs_start_pos s = 0) \<and>
     bs_bytes_read s < 2 ^ 64 \<and> bs_bytes_written s = add64 (bs_bytes_read s) (bs_used_size s)"

definition bs_content :: "ByteStream \<Rightarrow> bytes" where
  "bs_content s = ring_get (bs_buffer s) (bs_start_pos s) (bs_used_size s)"

declare bs_content_def [sponge_eval]

lemma bs_inv_init: "capacity < 2 ^ 63 \<Longrightarrow> bs_inv (ByteStream_init capacity)"
  by (simp add: bs_inv_def ByteStream_init_def bs_capacity_def)

lemma bs_init_simps [simp]:
  "bs_capacity (ByteStream_init c) = c" "bs_content (ByteStream_init c) = []"
  "bs_bytes_read (ByteStream_init c) = 0" "bs_bytes_written (ByteStream_init c) = 0"
  "bs_used_size (ByteStream_init c) = 0"
  "bs_input_ended (ByteStream_init c) = False" "bs_error (ByteStream_init c) = False"
  by (simp_all add: bs_capacity_def bs_content_def ByteStream_init_def)

lemma length_bs_content [simp]: "length (bs_content s) = bs_used_size s"
  by (simp add: bs_content_def)

lemma remaining_capacity_eq:
  "bs_inv s \<Longrightarrow> ByteStream_remaining_capacity s = bs_capacity s - length (bs_content s)"
  by (simp add: ByteStream_remaining_capacity_def bs_inv_def u64_simps)

text \<open>Both ends keep the flags and the capacity.\<close>

definition bs_same_flags :: "ByteStream \<Rightarrow> ByteStream \<Rightarrow> bool" where
  "bs_same_flags s t \<longleftrightarrow> bs_capacity t = bs_capacity s \<and>
     bs_input_ended t = bs_input_ended s \<and> bs_error t = bs_error s"

lemma bs_same_flags_refl [simp]: "bs_same_flags s s"
  by (simp add: bs_same_flags_def)

lemma bs_same_flags_capacity: "bs_same_flags s t \<Longrightarrow> bs_capacity t = bs_capacity s"
  by (simp add: bs_same_flags_def)

section \<open>The operations\<close>

text \<open>The ring copy of \<open>write\<close>: both branches store the bytes behind the used part.\<close>

lemma write_copy:
  assumes inv: "bs_inv s" and n: "0 < n" "n \<le> length data" "bs_used_size s + n \<le> bs_capacity s"
    and e: "e = (bs_start_pos s + bs_used_size s) mod bs_capacity s"
  obtains buf where "(if e < bs_start_pos s \<or> add64 e n \<le> bs_capacity s
          then memcpy (bs_buffer s) e data 0 n
          else (let copy1 = sub64 (bs_capacity s) e in do {
            b \<leftarrow> memcpy (bs_buffer s) e data 0 copy1;
            memcpy b 0 data copy1 (sub64 n copy1)
          })) = Some buf"
    and "ring_stored (bs_buffer s) e data n buf"
proof -
  have c: "0 < bs_capacity s" "bs_start_pos s < bs_capacity s" "bs_capacity s < 2 ^ 63"
    using inv n by (auto simp: bs_inv_def)
  then have e': "e < length (bs_buffer s)" using e by (simp add: bs_capacity_def)
  have e2: "e = (if bs_start_pos s + bs_used_size s < bs_capacity s
      then bs_start_pos s + bs_used_size s else bs_start_pos s + bs_used_size s - bs_capacity s)"
    using e c n by (simp add: ring_mod)
  have "add64 e n = e + n" using e' n c by (intro add64_exact) (simp add: bs_capacity_def)
  then have guard: "(e < bs_start_pos s \<or> add64 e n \<le> bs_capacity s) = (add64 e n \<le> bs_capacity s)"
    using e2 n(3) c by (auto split: if_splits)
  have "n \<le> length (bs_buffer s)" "length (bs_buffer s) < 2 ^ 63"
    using n(3) c(3) by (simp_all add: bs_capacity_def)
  from ring_copy_in [OF e' this(1) n(2) this(2)] obtain buf
    where "(if add64 e n \<le> length (bs_buffer s) then memcpy (bs_buffer s) e data 0 n
      else (let copy1 = sub64 (length (bs_buffer s)) e in do {
        b \<leftarrow> memcpy (bs_buffer s) e data 0 copy1;
        memcpy b 0 data copy1 (sub64 n copy1)
      })) = Some buf" and "ring_stored (bs_buffer s) e data n buf" .
  then show ?thesis by (rule that [unfolded guard, unfolded bs_capacity_def])
qed

lemma ByteStream_write_spec:
  assumes inv: "bs_inv s"
    and n: "n = min (length data) (bs_capacity s - bs_used_size s)"
  obtains t where "ByteStream_write data s = Some (n, t)" and "bs_inv t"
    and "bs_content t = bs_content s @ take n data"
    and "bs_bytes_written t = add64 (bs_bytes_written s) n"
    and "bs_bytes_read t = bs_bytes_read s" and "bs_same_flags s t"
proof (cases "n = 0")
  case True
  then have "ByteStream_write data s = Some (n, s)"
    using n remaining_capacity_eq [OF inv] by (simp add: ByteStream_write_def Let_def)
  moreover have "bs_bytes_written s = add64 (bs_bytes_written s) n"
    using inv True by (simp add: bs_inv_def)
  ultimately show ?thesis using True inv by (intro that [of s]) auto
next
  case False
  define e where "e = (bs_start_pos s + bs_used_size s) mod bs_capacity s"
  define t where "t buf = s\<lparr>bs_buffer := buf, bs_used_size := bs_used_size s + n,
    bs_bytes_written := add64 (bs_bytes_written s) n\<rparr>" for buf
  have r: "n = min (length data) (ByteStream_remaining_capacity s)"
    using n remaining_capacity_eq [OF inv] by simp
  have c: "bs_used_size s + n \<le> bs_capacity s" "n \<le> length data" "0 < bs_capacity s"
    "bs_capacity s < 2 ^ 63" "bs_start_pos s < bs_capacity s"
    using False n inv by (auto simp: bs_inv_def)
  have used: "add64 (bs_used_size s) n = bs_used_size s + n" using c by (intro add64_exact) simp
  have endp: "ByteStream_end_pos s = Some e"
    using c unfolding ByteStream_end_pos_def e_def by (simp add: u64_simps)
  obtain buf where buf: "(if e < bs_start_pos s \<or> add64 e n \<le> bs_capacity s
          then memcpy (bs_buffer s) e data 0 n
          else (let copy1 = sub64 (bs_capacity s) e in do {
            b \<leftarrow> memcpy (bs_buffer s) e data 0 copy1;
            memcpy b 0 data copy1 (sub64 n copy1)
          })) = Some buf" and st: "ring_stored (bs_buffer s) e data n buf"
    using write_copy [OF inv _ c(2,1) e_def] False by blast
  have "ByteStream_write data s = Some (n, t buf)"
    unfolding ByteStream_write_def r [symmetric] Let_def endp used t_def
    using False c(1) buf [unfolded Let_def] by simp
  moreover have "bs_content (t buf) = bs_content s @ take n data"
    using ring_get_append [OF st [unfolded e_def bs_capacity_def]] c
    by (simp add: bs_content_def t_def bs_capacity_def)
  moreover have "bs_inv (t buf)"
    using inv c ring_stored_length [OF st]
    by (simp add: bs_inv_def t_def bs_capacity_def add64_add64)
  moreover have "bs_same_flags s (t buf)"
    using ring_stored_length [OF st] by (simp add: bs_same_flags_def t_def bs_capacity_def)
  ultimately show ?thesis by (intro that [of "t buf"]) (simp_all add: t_def)
qed

lemma ByteStream_peek_output_spec:
  assumes inv: "bs_inv s"
  shows "ByteStream_peek_output len s = Some (take len (bs_content s))"
proof -
  define n where "n = min len (bs_used_size s)"
  have "n \<le> bs_capacity s" "bs_capacity s < 2 ^ 63" "bs_start_pos s \<le> bs_capacity s"
    using inv by (auto simp: bs_inv_def n_def)
  moreover have "take len (bs_content s) = ring_get (bs_buffer s) (bs_start_pos s) n"
    by (simp add: bs_content_def take_ring_get n_def)
  ultimately show ?thesis
    using ring_copy_out [of "bs_start_pos s" "bs_buffer s" n "replicate n 0"]
    unfolding ByteStream_peek_output_def n_def [symmetric] bs_capacity_def Let_def
    by (simp only: length_replicate)
qed

lemma ByteStream_pop_output_spec:
  assumes inv: "bs_inv s" and cap: "0 < bs_capacity s"
    and n: "n = min len (bs_used_size s)"
  obtains t where "ByteStream_pop_output len s = Some t" and "bs_inv t"
    and "bs_content t = drop len (bs_content s)"
    and "bs_bytes_read t = add64 (bs_bytes_read s) n"
    and "bs_bytes_written t = bs_bytes_written s" and "bs_same_flags s t"
proof -
  define t where "t = s\<lparr>bs_start_pos := (bs_start_pos s + n) mod bs_capacity s,
    bs_used_size := bs_used_size s - n, bs_bytes_read := add64 (bs_bytes_read s) n\<rparr>"
  have c: "n \<le> bs_used_size s" "bs_used_size s \<le> bs_capacity s" "bs_capacity s < 2 ^ 63"
    "bs_start_pos s < bs_capacity s"
    using inv cap n by (auto simp: bs_inv_def)
  have "ByteStream_pop_output len s = Some t"
    using c cap by (simp add: ByteStream_pop_output_def n [symmetric] u64_simps t_def)
  moreover have "bs_content t = drop len (bs_content s)"
    using c n by (auto simp: bs_content_def t_def drop_ring_get bs_capacity_def min_def)
  moreover have "bs_inv t"
    using inv c cap by (auto simp: bs_inv_def t_def bs_capacity_def add64_add64)
  ultimately show ?thesis
    by (intro that [of t]) (simp_all add: t_def bs_same_flags_def bs_capacity_def)
qed

lemma ByteStream_pop_output_no_capacity:
  "bs_capacity s = 0 \<Longrightarrow> ByteStream_pop_output len s = None"
  by (simp add: ByteStream_pop_output_def Let_def)

lemma ByteStream_read_spec:
  assumes inv: "bs_inv s" and cap: "0 < bs_capacity s"
    and n: "n = min len (bs_used_size s)"
  obtains t where "ByteStream_read len s = Some (take len (bs_content s), t)" and "bs_inv t"
    and "bs_content t = drop len (bs_content s)"
    and "bs_bytes_read t = add64 (bs_bytes_read s) n"
    and "bs_bytes_written t = bs_bytes_written s" and "bs_same_flags s t"
proof -
  obtain t where t: "ByteStream_pop_output len s = Some t" "bs_inv t"
    "bs_content t = drop len (bs_content s)" "bs_bytes_read t = add64 (bs_bytes_read s) n"
    "bs_bytes_written t = bs_bytes_written s" "bs_same_flags s t"
    by (rule ByteStream_pop_output_spec [OF inv cap n])
  then show ?thesis
    by (intro that [of t]) (simp_all add: ByteStream_read_def ByteStream_peek_output_spec [OF inv])
qed

lemma end_input_simps [simp]:
  "bs_inv (ByteStream_end_input s) = bs_inv s"
  "bs_content (ByteStream_end_input s) = bs_content s"
  "bs_capacity (ByteStream_end_input s) = bs_capacity s"
  "bs_bytes_read (ByteStream_end_input s) = bs_bytes_read s"
  "bs_bytes_written (ByteStream_end_input s) = bs_bytes_written s"
  "bs_used_size (ByteStream_end_input s) = bs_used_size s"
  "bs_input_ended (ByteStream_end_input s)"
  "bs_error (ByteStream_end_input s) = bs_error s"
  by (simp_all add: ByteStream_end_input_def bs_inv_def bs_content_def bs_capacity_def)

lemma set_error_simps [simp]:
  "bs_inv (ByteStream_set_error s) = bs_inv s"
  "bs_content (ByteStream_set_error s) = bs_content s"
  "bs_capacity (ByteStream_set_error s) = bs_capacity s"
  "bs_bytes_read (ByteStream_set_error s) = bs_bytes_read s"
  "bs_bytes_written (ByteStream_set_error s) = bs_bytes_written s"
  "bs_used_size (ByteStream_set_error s) = bs_used_size s"
  "bs_input_ended (ByteStream_set_error s) = bs_input_ended s"
  "bs_error (ByteStream_set_error s)"
  by (simp_all add: ByteStream_set_error_def bs_inv_def bs_content_def bs_capacity_def)

section \<open>The contract of a byte channel\<close>

text \<open>
  A client of the stream writes at one end and reads at the other. A session records the
  bytes accepted by the writes and the bytes returned by the reads.
\<close>

datatype channel_op = Write bytes | Read u64

fun session :: "(bytes \<Rightarrow> 's \<Rightarrow> (u64 \<times> 's) option) \<Rightarrow> (u64 \<Rightarrow> 's \<Rightarrow> (bytes \<times> 's) option) \<Rightarrow>
    's \<Rightarrow> channel_op list \<Rightarrow> (bytes \<times> bytes \<times> 's) option" where
  "session wr rd s [] = Some ([], [], s)"
| "session wr rd s (Write data # ops) = do {
     (n, t) \<leftarrow> wr data s;
     (acc, del, u) \<leftarrow> session wr rd t ops;
     Some (take n data @ acc, del, u)
   }"
| "session wr rd s (Read len # ops) = do {
     (data, t) \<leftarrow> rd len s;
     (acc, del, u) \<leftarrow> session wr rd t ops;
     Some (acc, data @ del, u)
   }"

locale byte_channel =
  fixes inv :: "'s \<Rightarrow> bool"
    and capacity :: "'s \<Rightarrow> nat"
    and content :: "'s \<Rightarrow> bytes"
    and wr :: "bytes \<Rightarrow> 's \<Rightarrow> (u64 \<times> 's) option"
    and rd :: "u64 \<Rightarrow> 's \<Rightarrow> (bytes \<times> 's) option"
  assumes bounded: "inv s \<Longrightarrow> length (content s) \<le> capacity s"
    and write_law: "inv s \<Longrightarrow> \<exists>t. wr data s =
        Some (min (length data) (capacity s - length (content s)), t) \<and> inv t \<and>
        capacity t = capacity s \<and> content t = content s @ take (capacity s - length (content s)) data"
    and read_law: "inv s \<Longrightarrow> 0 < capacity s \<Longrightarrow> \<exists>t. rd len s =
        Some (take len (content s), t) \<and> inv t \<and>
        capacity t = capacity s \<and> content t = drop len (content s)"
begin

lemma session_fifo:
  "inv s \<Longrightarrow> 0 < capacity s \<Longrightarrow> \<exists>acc del t. session wr rd s ops = Some (acc, del, t) \<and>
     content s @ acc = del @ content t \<and> inv t \<and> capacity t = capacity s"
proof (induction ops arbitrary: s)
  case Nil
  then show ?case by simp
next
  case (Cons op ops)
  show ?case
  proof (cases op)
    case (Write data)
    obtain t where t: "wr data s = Some (min (length data) (capacity s - length (content s)), t)"
      "inv t" "capacity t = capacity s"
      "content t = content s @ take (capacity s - length (content s)) data"
      using write_law [OF Cons.prems(1), of data] by blast
    with Cons.prems Cons.IH [of t] obtain acc del u where
      "session wr rd t ops = Some (acc, del, u)" "content t @ acc = del @ content u"
      "inv u" "capacity u = capacity s" by auto
    with t Write show ?thesis by (auto simp: min_def)
  next
    case (Read len)
    obtain t where t: "rd len s = Some (take len (content s), t)" "inv t"
      "capacity t = capacity s" "content t = drop len (content s)"
      using read_law [OF Cons.prems] by blast
    with Cons.prems Cons.IH [of t] obtain acc del u where
      "session wr rd t ops = Some (acc, del, u)" "content t @ acc = del @ content u"
      "inv u" "capacity u = capacity s" by auto
    moreover from this t have "content s @ acc = take len (content s) @ del @ content u"
      by (metis append.assoc append_take_drop_id)
    ultimately show ?thesis using t Read by auto
  qed
qed

text \<open>What was accepted and not yet delivered never exceeds the capacity.\<close>

lemma session_bounded:
  assumes "inv s" "0 < capacity s" "content s = []" "session wr rd s ops = Some (acc, del, t)"
  shows "length acc \<le> length del + capacity s"
proof -
  have "acc = del @ content t" "inv t" "capacity t = capacity s"
    using session_fifo [OF assms(1,2), of ops] assms(3,4) by auto
  then show ?thesis using bounded [of t] by simp
qed

end

interpretation bs: byte_channel bs_inv bs_capacity bs_content ByteStream_write ByteStream_read
proof
  fix s
  show "bs_inv s \<Longrightarrow> length (bs_content s) \<le> bs_capacity s"
    by (simp add: bs_inv_def)
next
  fix s data assume "bs_inv s"
  then obtain t where "ByteStream_write data s =
      Some (min (length data) (bs_capacity s - bs_used_size s), t)" "bs_inv t"
    "bs_content t = bs_content s @ take (min (length data) (bs_capacity s - bs_used_size s)) data"
    "bs_same_flags s t"
    by (rule ByteStream_write_spec [OF _ refl])
  then show "\<exists>t. ByteStream_write data s =
      Some (min (length data) (bs_capacity s - length (bs_content s)), t) \<and> bs_inv t \<and>
      bs_capacity t = bs_capacity s \<and>
      bs_content t = bs_content s @ take (bs_capacity s - length (bs_content s)) data"
    by (auto simp: bs_same_flags_def min_def)
next
  fix s len assume "bs_inv s" and "0 < bs_capacity s"
  then obtain t where "ByteStream_read len s = Some (take len (bs_content s), t)" "bs_inv t"
    "bs_content t = drop len (bs_content s)" "bs_same_flags s t"
    by (rule ByteStream_read_spec [OF _ _ refl])
  then show "\<exists>t. ByteStream_read len s = Some (take len (bs_content s), t) \<and> bs_inv t \<and>
      bs_capacity t = bs_capacity s \<and> bs_content t = drop len (bs_content s)"
    by (auto simp: bs_same_flags_def)
qed

section \<open>Properties\<close>

text \<open>C8. ByteStream is a lossless FIFO channel: any sequence of writes and reads on a fresh
  stream of positive capacity runs to the end (no copy leaves the ring buffer, no assertion
  fails), and the bytes the writes accepted are exactly the bytes the reads returned followed
  by the bytes still held, which never exceed the capacity.\<close>

theorem ByteStream_fifo:
  assumes "0 < capacity" and "capacity < 2 ^ 63"
  shows "\<exists>acc del t. session ByteStream_write ByteStream_read (ByteStream_init capacity) ops =
      Some (acc, del, t) \<and> acc = del @ bs_content t \<and> length (bs_content t) \<le> capacity"
proof -
  let ?s = "ByteStream_init capacity"
  have "bs_inv ?s" using assms(2) by (rule bs_inv_init)
  then obtain acc del t where "session ByteStream_write ByteStream_read ?s ops = Some (acc, del, t)"
    "bs_content ?s @ acc = del @ bs_content t" "bs_inv t" "bs_capacity t = bs_capacity ?s"
    using bs.session_fifo [of ?s ops] assms(1) by auto
  then show ?thesis using bs.bounded [of t] by auto
qed

theorem ByteStream_fifo_witness:
  "\<exists>acc del t. session ByteStream_write ByteStream_read (ByteStream_init 4)
      [Write [1, 2, 3], Read 2, Write [4, 5, 6, 7], Read 9] = Some (acc, del, t) \<and>
      acc = del @ bs_content t \<and> length (bs_content t) \<le> 4"
  using ByteStream_fifo [of 4 "[Write [1, 2, 3], Read 2, Write [4, 5, 6, 7], Read 9]"] by simp

text \<open>A write stores the longest prefix that fits, reports its length, appends it to the
  bytes held and advances the write counter by as much; flags and read counter stay.\<close>

theorem ByteStream_write_appends:
  assumes "bs_inv s"
  shows "\<exists>n t. ByteStream_write data s = Some (n, t) \<and>
      n = min (length data) (ByteStream_remaining_capacity s) \<and> bs_inv t \<and>
      bs_content t = bs_content s @ take n data \<and>
      bs_bytes_written t = add64 (bs_bytes_written s) n \<and>
      bs_bytes_read t = bs_bytes_read s \<and> bs_same_flags s t"
proof -
  define n where "n = min (length data) (bs_capacity s - bs_used_size s)"
  obtain t where "ByteStream_write data s = Some (n, t)" "bs_inv t"
    "bs_content t = bs_content s @ take n data"
    "bs_bytes_written t = add64 (bs_bytes_written s) n"
    "bs_bytes_read t = bs_bytes_read s" "bs_same_flags s t"
    by (rule ByteStream_write_spec [OF assms n_def])
  then show ?thesis using remaining_capacity_eq [OF assms] by (auto simp: n_def)
qed

theorem ByteStream_write_appends_witness:
  "\<exists>n t. ByteStream_write [7, 8, 9] (ByteStream_init 2) = Some (n, t) \<and>
      n = min (length [7, 8, 9 :: u8]) (ByteStream_remaining_capacity (ByteStream_init 2)) \<and> bs_inv t \<and>
      bs_content t = bs_content (ByteStream_init 2) @ take n [7, 8, 9] \<and>
      bs_bytes_written t = add64 (bs_bytes_written (ByteStream_init 2)) n \<and>
      bs_bytes_read t = bs_bytes_read (ByteStream_init 2) \<and> bs_same_flags (ByteStream_init 2) t"
  by (rule ByteStream_write_appends) (rule bs_inv_init, simp)


end
