(* ===== verification/Stream_Copy.thy ===== *)
theory Stream_Copy
  imports Event_Loop Byte_Stream
begin

unbundle bit_operations_syntax

text \<open>
  bidirectional\_stream\_copy (apps/bidirectional\_stream\_copy.cc): standard input is copied to a
  socket and the socket to standard output, by four rules of an EventLoop over two ByteStreams. The
  operating system is a parameter, with answers that may differ from round to round of the loop; the
  number of the round and the bytes each device has given and taken are recorded in the state. The
  loop runs for a given number of rounds.

  The rules meet the contract \<open>served_rules\<close> of the event loop with the invariant that on each side
  the bytes read are the bytes written followed by the bytes held.
\<close>

section \<open>The program\<close>

datatype Device = Standard_Input | Standard_Output | Network_Socket

record operating_system =
  os_read :: "Device \<Rightarrow> nat \<Rightarrow> u64 \<Rightarrow> (int \<times> int) \<times> bytes"
  os_writev :: "Device \<Rightarrow> nat \<Rightarrow> nat \<Rightarrow> (bytes \<times> u64) list \<Rightarrow> int \<times> int"
  os_shutdown :: "nat \<Rightarrow> int \<times> int"
  os_close :: "Device \<Rightarrow> nat \<Rightarrow> int \<times> int"
  os_poll :: "nat \<Rightarrow> poll"
  os_getfl :: "Device \<Rightarrow> int \<times> int"
  os_setfl :: "Device \<Rightarrow> int \<Rightarrow> int \<times> int"

record stream_copy =
  sc_input :: FDWrapper
  sc_output :: FDWrapper
  sc_socket :: FDWrapper
  sc_outbound :: ByteStream
  sc_inbound :: ByteStream
  sc_outbound_shutdown :: bool
  sc_inbound_shutdown :: bool
  sc_round :: nat
  sc_from_input :: bytes
  sc_to_socket :: bytes
  sc_from_socket :: bytes
  sc_to_output :: bytes

definition max_copy_length :: u64 where
  "max_copy_length = 65536"

definition copy_buffer_size :: u64 where
  "copy_buffer_size = 1048576"

text \<open>Reading what a stream has room for, and writing what it holds; the first component of the result
  is what passed.\<close>

definition device_to_stream ::
  "(u64 \<Rightarrow> (int \<times> int) \<times> bytes) \<Rightarrow> ByteStream \<Rightarrow> FDWrapper \<Rightarrow> (bytes \<times> ByteStream \<times> FDWrapper) option" where
  "device_to_stream sys_read stream fd = do {
     (data, fd) \<leftarrow> FileDescriptor_read sys_read (ByteStream_remaining_capacity stream) fd;
     (_, stream) \<leftarrow> ByteStream_write data stream;
     Some (data, if fd_eof fd then ByteStream_end_input stream else stream, fd)
   }"

definition stream_to_device ::
  "(nat \<Rightarrow> (bytes \<times> u64) list \<Rightarrow> int \<times> int) \<Rightarrow> ByteStream \<Rightarrow> FDWrapper \<Rightarrow> (bytes \<times> ByteStream \<times> FDWrapper) option" where
  "stream_to_device sys_writev stream fd = do {
     let bytes_to_write = min max_copy_length (ByteStream_buffer_size stream);
     data \<leftarrow> ByteStream_peek_output bytes_to_write stream;
     ((bytes_written, written), fd) \<leftarrow> FileDescriptor_write sys_writev (BufferViewList_of_view data) False fd;
     stream \<leftarrow> ByteStream_pop_output bytes_written stream;
     Some (written, stream, fd)
   }"

text \<open>Rule 1 reads from standard input into the outbound stream.\<close>

definition input_rule :: "operating_system \<Rightarrow> stream_copy Rule" where
  "input_rule os = \<lparr>ru_fd = sc_input, ru_direction = In,
     ru_callback = (\<lambda>s. do {
       (data, outbound, input) \<leftarrow> device_to_stream (os_read os Standard_Input (sc_round s)) (sc_outbound s) (sc_input s);
       Some (s\<lparr>sc_input := input, sc_outbound := outbound, sc_from_input := sc_from_input s @ data\<rparr>)
     }),
     ru_interest = (\<lambda>s. \<not> bs_error (sc_outbound s) \<and> ByteStream_remaining_capacity (sc_outbound s) > 0 \<and>
       \<not> bs_error (sc_inbound s)),
     ru_cancel = (\<lambda>s. Some (s\<lparr>sc_outbound := ByteStream_end_input (sc_outbound s)\<rparr>))\<rparr>"

text \<open>Rule 2 writes the outbound stream to the socket and shuts the socket down at its end.\<close>

definition to_socket_rule :: "operating_system \<Rightarrow> stream_copy Rule" where
  "to_socket_rule os = \<lparr>ru_fd = sc_socket, ru_direction = Out,
     ru_callback = (\<lambda>s. do {
       (written, outbound, socket) \<leftarrow> stream_to_device (os_writev os Network_Socket (sc_round s)) (sc_outbound s) (sc_socket s);
       let s = s\<lparr>sc_socket := socket, sc_outbound := outbound, sc_to_socket := sc_to_socket s @ written\<rparr>;
       if ByteStream_eof outbound then do {
         socket \<leftarrow> Socket_shutdown (os_shutdown os (sc_round s)) SHUT_WR socket;
         Some (s\<lparr>sc_socket := socket, sc_outbound_shutdown := True\<rparr>)
       } else Some s
     }),
     ru_interest = (\<lambda>s. \<not> ByteStream_buffer_empty (sc_outbound s) \<or>
       (ByteStream_eof (sc_outbound s) \<and> \<not> sc_outbound_shutdown s)),
     ru_cancel = (\<lambda>s. Some (s\<lparr>sc_outbound := ByteStream_end_input (sc_outbound s)\<rparr>))\<rparr>"

text \<open>Rule 3 reads from the socket into the inbound stream.\<close>

definition from_socket_rule :: "operating_system \<Rightarrow> stream_copy Rule" where
  "from_socket_rule os = \<lparr>ru_fd = sc_socket, ru_direction = In,
     ru_callback = (\<lambda>s. do {
       (data, inbound, socket) \<leftarrow> device_to_stream (os_read os Network_Socket (sc_round s)) (sc_inbound s) (sc_socket s);
       Some (s\<lparr>sc_socket := socket, sc_inbound := inbound, sc_from_socket := sc_from_socket s @ data\<rparr>)
     }),
     ru_interest = (\<lambda>s. \<not> bs_error (sc_inbound s) \<and> ByteStream_remaining_capacity (sc_inbound s) > 0 \<and>
       \<not> bs_error (sc_outbound s)),
     ru_cancel = (\<lambda>s. Some (s\<lparr>sc_inbound := ByteStream_end_input (sc_inbound s)\<rparr>))\<rparr>"

text \<open>Rule 4 writes the inbound stream to standard output and closes it at its end.\<close>

definition output_rule :: "operating_system \<Rightarrow> stream_copy Rule" where
  "output_rule os = \<lparr>ru_fd = sc_output, ru_direction = Out,
     ru_callback = (\<lambda>s. do {
       (written, inbound, output) \<leftarrow> stream_to_device (os_writev os Standard_Output (sc_round s)) (sc_inbound s) (sc_output s);
       let s = s\<lparr>sc_output := output, sc_inbound := inbound, sc_to_output := sc_to_output s @ written\<rparr>;
       if ByteStream_eof inbound then do {
         output \<leftarrow> FDWrapper_close (os_close os Standard_Output (sc_round s)) output;
         Some (s\<lparr>sc_output := output, sc_inbound_shutdown := True\<rparr>)
       } else Some s
     }),
     ru_interest = (\<lambda>s. \<not> ByteStream_buffer_empty (sc_inbound s) \<or>
       (ByteStream_eof (sc_inbound s) \<and> \<not> sc_inbound_shutdown s)),
     ru_cancel = (\<lambda>s. Some (s\<lparr>sc_inbound := ByteStream_end_input (sc_inbound s)\<rparr>))\<rparr>"

definition copy_rules :: "operating_system \<Rightarrow> stream_copy Rule list" where
  "copy_rules os = EventLoop_add_rule (output_rule os) (EventLoop_add_rule (from_socket_rule os)
     (EventLoop_add_rule (to_socket_rule os) (EventLoop_add_rule (input_rule os) [])))"

text \<open>The loop, for at most the given number of rounds; the first component of the result tells
  whether it has ended.\<close>

fun copy_loop :: "operating_system \<Rightarrow> nat \<Rightarrow> stream_copy Rule list \<Rightarrow> stream_copy \<Rightarrow> (bool \<times> stream_copy Rule list \<times> stream_copy) option" where
  "copy_loop os 0 rules s = Some (False, rules, s)"
| "copy_loop os (Suc rounds) rules s = do {
     (res, rules, s) \<leftarrow> EventLoop_wait_next_event (os_poll os (sc_round s)) (- 1) rules s;
     let s = s\<lparr>sc_round := Suc (sc_round s)\<rparr>;
     if res = Exit then Some (True, rules, s) else copy_loop os rounds rules s
   }"

definition copy_start :: "FDWrapper \<Rightarrow> FDWrapper \<Rightarrow> FDWrapper \<Rightarrow> stream_copy" where
  "copy_start input output socket = \<lparr>sc_input = input, sc_output = output, sc_socket = socket,
     sc_outbound = ByteStream_init copy_buffer_size, sc_inbound = ByteStream_init copy_buffer_size,
     sc_outbound_shutdown = False, sc_inbound_shutdown = False, sc_round = 0,
     sc_from_input = [], sc_to_socket = [], sc_from_socket = [], sc_to_output = []\<rparr>"

definition bidirectional_stream_copy ::
  "operating_system \<Rightarrow> nat \<Rightarrow> FDWrapper \<Rightarrow> (bool \<times> stream_copy Rule list \<times> stream_copy) option" where
  "bidirectional_stream_copy os rounds socket = do {
     input \<leftarrow> FDWrapper_init 0;
     output \<leftarrow> FDWrapper_init 1;
     _ \<leftarrow> FileDescriptor_set_blocking (os_getfl os Network_Socket) (os_setfl os Network_Socket) False;
     _ \<leftarrow> FileDescriptor_set_blocking (os_getfl os Standard_Input) (os_setfl os Standard_Input) False;
     _ \<leftarrow> FileDescriptor_set_blocking (os_getfl os Standard_Output) (os_setfl os Standard_Output) False;
     copy_loop os rounds (copy_rules os) (copy_start input output socket)
   }"

section \<open>The callbacks\<close>

text \<open>A stream of the program that has taken \<open>taken\<close> and given \<open>given\<close>.\<close>

definition carries :: "bytes \<Rightarrow> ByteStream \<Rightarrow> bytes \<Rightarrow> bool" where
  "carries taken stream given \<longleftrightarrow> bs_inv stream \<and> bs_capacity stream = copy_buffer_size \<and> \<not> bs_error stream \<and>
     taken = given @ bs_content stream"

lemma carries_end_input [simp]: "carries taken (ByteStream_end_input stream) given = carries taken stream given"
  by (simp add: carries_def)

lemma carries_start: "carries [] (ByteStream_init copy_buffer_size) []"
  by (simp add: carries_def bs_inv_init copy_buffer_size_def)

lemma device_to_stream_returns:
  assumes "read_ok sys_read" and "carries taken stream given"
  obtains data stream' fd' where "device_to_stream sys_read stream fd = Some (data, stream', fd')"
    and "carries (taken @ data) stream' given" and "fd_read_count fd' = fd_read_count fd + 1"
proof -
  have inv: "bs_inv stream" using assms(2) by (simp add: carries_def)
  obtain data fd' where d: "FileDescriptor_read sys_read (ByteStream_remaining_capacity stream) fd = Some (data, fd')"
    "length data \<le> ByteStream_remaining_capacity stream" "fd_read_count fd' = fd_read_count fd + 1"
    by (rule FileDescriptor_read_returns [OF assms(1), of "ByteStream_remaining_capacity stream" fd]) (auto simp: register_read_def)
  have "length data = min (length data) (bs_capacity stream - bs_used_size stream)"
    using d(2) remaining_capacity_eq [OF inv] by simp
  from ByteStream_write_spec [OF inv this] obtain t where "ByteStream_write data stream = Some (length data, t)" "bs_inv t"
    "bs_content t = bs_content stream @ data" "bs_same_flags stream t" by auto
  then show ?thesis using d assms(2)
    by (intro that [of data "if fd_eof fd' then ByteStream_end_input t else t" fd'])
      (auto simp: device_to_stream_def carries_def bs_same_flags_def)
qed

text \<open>What is written was read from the stream.\<close>

lemma stream_to_device_reads:
  assumes "writev_ok sys_writev" and "bs_inv stream" and "0 < bs_capacity stream"
  obtains n written stream' where "stream_to_device sys_writev stream fd = Some (written, stream', register_write fd)"
    and "ByteStream_read n stream = Some (written, stream')" and "written @ bs_content stream' = bs_content stream"
    and "bs_inv stream'" and "bs_same_flags stream stream'"
proof -
  let ?data = "take (min max_copy_length (ByteStream_buffer_size stream)) (bs_content stream)"
  have p: "ByteStream_peek_output (min max_copy_length (ByteStream_buffer_size stream)) stream = Some ?data"
    by (rule ByteStream_peek_output_spec [OF assms(2)])
  have "length ?data < 2 ^ 31" by (simp add: max_copy_length_def)
  from FileDescriptor_write_once [OF assms(1) this, of fd] obtain n where
    n: "FileDescriptor_write sys_writev (BufferViewList_of_view ?data) False fd = Some ((n, take n ?data), register_write fd)"
    "n \<le> length ?data" by metis
  obtain t where t: "ByteStream_pop_output n stream = Some t" "bs_inv t" "bs_content t = drop n (bs_content stream)"
    "bs_same_flags stream t"
    by (rule ByteStream_pop_output_spec [OF assms(2,3) refl, of n]) blast
  have w: "take n ?data = take n (bs_content stream)" using n(2) by simp
  then have "take n ?data @ bs_content t = bs_content stream" unfolding t(3) by simp
  moreover have "ByteStream_read n stream = Some (take n ?data, t)"
    using t(1) ByteStream_peek_output_spec [OF assms(2), of n] unfolding w by (simp add: ByteStream_read_def)
  ultimately show ?thesis using p n(1) t by (intro that [of "take n ?data" t n]) (simp_all add: stream_to_device_def Let_def)
qed

lemma stream_to_device_returns:
  assumes "writev_ok sys_writev" and "carries taken stream given"
  obtains written stream' where "stream_to_device sys_writev stream fd = Some (written, stream', register_write fd)"
    and "carries taken stream' (given @ written)"
proof -
  have inv: "bs_inv stream" "0 < bs_capacity stream" using assms(2) by (auto simp: carries_def copy_buffer_size_def)
  obtain n written t where "stream_to_device sys_writev stream fd = Some (written, t, register_write fd)"
    "written @ bs_content t = bs_content stream" "bs_inv t" "bs_same_flags stream t"
    by (rule stream_to_device_reads [OF assms(1) inv]) blast
  then show ?thesis using assms(2) by (intro that [of written t]) (auto simp: carries_def bs_same_flags_def)
qed

section \<open>The rules serve\<close>

definition copy_inv :: "stream_copy \<Rightarrow> bool" where
  "copy_inv s \<longleftrightarrow> carries (sc_from_input s) (sc_outbound s) (sc_to_socket s) \<and>
     carries (sc_from_socket s) (sc_inbound s) (sc_to_output s)"

text \<open>What the system calls are documented to do when none of them fails.\<close>

definition os_ok :: "operating_system \<Rightarrow> bool" where
  "os_ok os \<longleftrightarrow> (\<forall>d k. read_ok (os_read os d k) \<and> writev_ok (os_writev os d k) \<and> os_close os d k = (0, 0)) \<and>
     (\<forall>k. os_shutdown os k = (0, 0) \<and> poll_ok (os_poll os k)) \<and> (\<forall>d f. 0 \<le> fst (os_getfl os d) \<and> 0 \<le> fst (os_setfl os d f))"

lemma os_okD:
  assumes "os_ok os"
  shows "read_ok (os_read os d k)" "writev_ok (os_writev os d k)" "os_close os d k = (0, 0)" "os_shutdown os k = (0, 0)"
    "poll_ok (os_poll os k)" "0 \<le> fst (os_getfl os d)" "0 \<le> fst (os_setfl os d f)"
  using assms by (simp_all add: os_ok_def)

lemma copy_invD:
  assumes "copy_inv s"
  shows "carries (sc_from_input s) (sc_outbound s) (sc_to_socket s)" "carries (sc_from_socket s) (sc_inbound s) (sc_to_output s)"
  using assms by (simp_all add: copy_inv_def)

lemmas copy_rule_defs = input_rule_def to_socket_rule_def from_socket_rule_def output_rule_def

lemma set_copy_rules: "set (copy_rules os) = {input_rule os, to_socket_rule os, from_socket_rule os, output_rule os}"
  by (auto simp: copy_rules_def EventLoop_add_rule_def)

lemma input_serves:
  assumes "os_ok os" and "copy_inv s"
  shows "\<exists>t. ru_callback (input_rule os) s = Some t \<and> copy_inv t \<and>
    Rule_service_count (input_rule os) t \<noteq> Rule_service_count (input_rule os) s"
proof -
  obtain data st fd where "device_to_stream (os_read os Standard_Input (sc_round s)) (sc_outbound s) (sc_input s) = Some (data, st, fd)"
    "carries (sc_from_input s @ data) st (sc_to_socket s)" "fd_read_count fd = fd_read_count (sc_input s) + 1"
    by (rule device_to_stream_returns [OF os_okD(1) [OF assms(1)] copy_invD(1) [OF assms(2)]])
  then show ?thesis using assms(2) by (simp add: input_rule_def copy_inv_def Rule_service_count_def)
qed

lemma from_socket_serves:
  assumes "os_ok os" and "copy_inv s"
  shows "\<exists>t. ru_callback (from_socket_rule os) s = Some t \<and> copy_inv t \<and>
    Rule_service_count (from_socket_rule os) t \<noteq> Rule_service_count (from_socket_rule os) s"
proof -
  obtain data st fd where "device_to_stream (os_read os Network_Socket (sc_round s)) (sc_inbound s) (sc_socket s) = Some (data, st, fd)"
    "carries (sc_from_socket s @ data) st (sc_to_output s)" "fd_read_count fd = fd_read_count (sc_socket s) + 1"
    by (rule device_to_stream_returns [OF os_okD(1) [OF assms(1)] copy_invD(2) [OF assms(2)]])
  then show ?thesis using assms(2) by (simp add: from_socket_rule_def copy_inv_def Rule_service_count_def)
qed

lemma to_socket_serves:
  assumes "os_ok os" and "copy_inv s"
  shows "\<exists>t. ru_callback (to_socket_rule os) s = Some t \<and> copy_inv t \<and>
    Rule_service_count (to_socket_rule os) t \<noteq> Rule_service_count (to_socket_rule os) s"
proof -
  obtain data st where "stream_to_device (os_writev os Network_Socket (sc_round s)) (sc_outbound s) (sc_socket s) =
      Some (data, st, register_write (sc_socket s))" "carries (sc_from_input s) st (sc_to_socket s @ data)"
    by (rule stream_to_device_returns [OF os_okD(2) [OF assms(1)] copy_invD(1) [OF assms(2)]])
  then show ?thesis using assms
    by (simp add: to_socket_rule_def copy_inv_def Rule_service_count_def Socket_shutdown_def SystemCall_def os_okD(4)
        register_write_def Let_def)
qed

lemma output_serves:
  assumes "os_ok os" and "copy_inv s"
  shows "\<exists>t. ru_callback (output_rule os) s = Some t \<and> copy_inv t \<and>
    Rule_service_count (output_rule os) t \<noteq> Rule_service_count (output_rule os) s"
proof -
  obtain data st where "stream_to_device (os_writev os Standard_Output (sc_round s)) (sc_inbound s) (sc_output s) =
      Some (data, st, register_write (sc_output s))" "carries (sc_from_socket s) st (sc_to_output s @ data)"
    by (rule stream_to_device_returns [OF os_okD(2) [OF assms(1)] copy_invD(2) [OF assms(2)]])
  then show ?thesis using assms
    by (simp add: output_rule_def copy_inv_def Rule_service_count_def FDWrapper_close_def SystemCall_def os_okD(3)
        register_write_def Let_def to_int32_def)
qed

lemma cancel_copy_rule:
  assumes "r \<in> set (copy_rules os)" and "copy_inv s"
  shows "\<exists>t. ru_cancel r s = Some t \<and> copy_inv t"
  using assms
  by (auto simp: set_copy_rules input_rule_def to_socket_rule_def from_socket_rule_def output_rule_def copy_inv_def)

lemma serve_copy_rule:
  assumes "r \<in> set (copy_rules os)" and "os_ok os" and "copy_inv s"
  shows "\<exists>t. ru_callback r s = Some t \<and> copy_inv t \<and> Rule_service_count r t \<noteq> Rule_service_count r s"
  using assms(1) input_serves [OF assms(2,3)] to_socket_serves [OF assms(2,3)] from_socket_serves [OF assms(2,3)]
    output_serves [OF assms(2,3)] unfolding set_copy_rules by blast

lemma distinct_copy_rules: "distinct (copy_rules os)"
proof -
  let ?fd = "\<lparr>fd_fd = 0, fd_eof = False, fd_closed = False, fd_read_count = 0, fd_write_count = 0\<rparr>"
  have "ru_cancel (input_rule os) (copy_start ?fd ?fd ?fd) \<noteq> ru_cancel (from_socket_rule os) (copy_start ?fd ?fd ?fd)"
    "ru_cancel (to_socket_rule os) (copy_start ?fd ?fd ?fd) \<noteq> ru_cancel (output_rule os) (copy_start ?fd ?fd ?fd)"
    by (auto simp: copy_rule_defs copy_start_def ByteStream_end_input_def ByteStream_init_def)
  then have "input_rule os \<noteq> from_socket_rule os" "to_socket_rule os \<noteq> output_rule os" by auto
  then show ?thesis by (auto simp: copy_rules_def EventLoop_add_rule_def) (auto simp: copy_rule_defs)
qed

text \<open>A callback may run at any time.\<close>

interpretation copy: served_rules "copy_rules os" "\<lambda>s. os_ok os \<and> copy_inv s" "\<lambda>_ _. True" for os
  using serve_copy_rule cancel_copy_rule distinct_copy_rules by unfold_locales blast+

section \<open>The loop\<close>

text \<open>The end of the loop: a side whose writing rule is left has written all it read, and reads no more.\<close>

definition copy_finished :: "operating_system \<Rightarrow> stream_copy Rule list \<Rightarrow> stream_copy \<Rightarrow> bool" where
  "copy_finished os kept s \<longleftrightarrow>
     (to_socket_rule os \<in> set kept \<longrightarrow> sc_to_socket s = sc_from_input s \<and> input_rule os \<notin> set kept) \<and>
     (output_rule os \<in> set kept \<longrightarrow> sc_to_output s = sc_from_socket s \<and> from_socket_rule os \<notin> set kept)"

lemma carries_room: "carries taken stream given \<Longrightarrow> bs_content stream = [] \<Longrightarrow> 0 < ByteStream_remaining_capacity stream"
  by (auto simp: carries_def remaining_capacity_eq copy_buffer_size_def)

lemma remaining_end_input [simp]: "ByteStream_remaining_capacity (ByteStream_end_input s) = ByteStream_remaining_capacity s"
  by (simp add: ByteStream_remaining_capacity_def)

lemma cancel_keeps:
  assumes "r \<in> set (copy_rules os)" and "ru_cancel r s = Some u"
  shows "bs_content (sc_outbound u) = bs_content (sc_outbound s)" "bs_content (sc_inbound u) = bs_content (sc_inbound s)"
    "ByteStream_remaining_capacity (sc_outbound u) = ByteStream_remaining_capacity (sc_outbound s)"
    "ByteStream_remaining_capacity (sc_inbound u) = ByteStream_remaining_capacity (sc_inbound s)"
    "bs_error (sc_outbound u) = bs_error (sc_outbound s)" "bs_error (sc_inbound u) = bs_error (sc_inbound s)"
  using assms by (auto simp: set_copy_rules copy_rule_defs)

lemma copy_exit:
  assumes "EventLoop_wait_next_event (os_poll os k) timeout_ms rs s = Some (Exit, kept, t)" and "os_ok os"
    and "set rs \<subseteq> set (copy_rules os)" and "copy_inv t"
  shows "copy_finished os kept t"
proof -
  note exit = wait_next_event_exit [OF assms(1) os_okD(5) [OF assms(2)]]
  have keeps: "Q u" if "r \<in> set rs" "ru_cancel r s = Some u" "Q s"
    "Q = (\<lambda>s. bs_content (sc_outbound s) = []) \<or> Q = (\<lambda>s. bs_content (sc_inbound s) = []) \<or>
     Q = (\<lambda>s. bs_error (sc_outbound s) \<or> bs_error (sc_inbound s) \<or> ByteStream_remaining_capacity (sc_outbound s) = 0) \<or>
     Q = (\<lambda>s. bs_error (sc_outbound s) \<or> bs_error (sc_inbound s) \<or> ByteStream_remaining_capacity (sc_inbound s) = 0)" for r s u Q
  proof -
    have "r \<in> set (copy_rules os)" using that(1) assms(3) by auto
    from cancel_keeps [OF this that(2)] show ?thesis using that(3,4) by (elim disjE) (simp_all only:)
  qed
  have empty_out: "bs_content (sc_outbound t) = []" if "to_socket_rule os \<in> set kept"
    by (rule exit [OF that _ keeps]) (auto simp: to_socket_rule_def ByteStream_buffer_empty_def simp flip: length_bs_content)
  have empty_in: "bs_content (sc_inbound t) = []" if "output_rule os \<in> set kept"
    by (rule exit [OF that _ keeps]) (auto simp: output_rule_def ByteStream_buffer_empty_def simp flip: length_bs_content)
  have full_out: "bs_error (sc_outbound t) \<or> bs_error (sc_inbound t) \<or> ByteStream_remaining_capacity (sc_outbound t) = 0"
    if "input_rule os \<in> set kept" by (rule exit [OF that _ keeps]) (auto simp: input_rule_def)
  have full_in: "bs_error (sc_outbound t) \<or> bs_error (sc_inbound t) \<or> ByteStream_remaining_capacity (sc_inbound t) = 0"
    if "from_socket_rule os \<in> set kept" by (rule exit [OF that _ keeps]) (auto simp: from_socket_rule_def)
  note inv = copy_invD [OF assms(4)]
  show ?thesis
    using empty_out empty_in full_out full_in inv carries_room [OF inv(1)] carries_room [OF inv(2)]
    unfolding copy_finished_def carries_def by auto
qed

lemma copy_loop_copies:
  assumes "os_ok os" and "copy_inv s" and "subseq rs (copy_rules os)"
  shows "\<exists>ended kept t. copy_loop os rounds rs s = Some (ended, kept, t) \<and> copy_inv t \<and> (ended \<longrightarrow> copy_finished os kept t)"
  using assms(2,3)
proof (induction rounds arbitrary: rs s)
  case 0
  then show ?case by force
next
  case (Suc rounds)
  obtain res kept t where r: "EventLoop_wait_next_event (os_poll os (sc_round s)) (- 1) rs s = Some (res, kept, t)"
    "subseq kept (copy_rules os)" "copy_inv t"
    using copy.round_returns [OF Suc.prems(2) _ os_okD(5) [OF assms(1)]] assms(1) Suc.prems(1) by blast
  let ?t = "t\<lparr>sc_round := Suc (sc_round t)\<rparr>"
  have inv: "copy_inv ?t" using r(3) by (simp add: copy_inv_def)
  have "copy_finished os kept ?t" if "res = Exit"
    using copy_exit [OF r(1) [unfolded that] assms(1) subseq_set [OF Suc.prems(2)] r(3)] by (simp add: copy_finished_def)
  then show ?case using r(1) Suc.IH [OF inv r(2)] inv by (auto simp: Let_def)
qed


text \<open>A system that gives three bytes on standard input and none on the socket, takes all it is given and
  finds every descriptor ready.\<close>

definition example_os :: operating_system where
  "example_os = \<lparr>
     os_read = (\<lambda>d k n. if d = Standard_Input \<and> k = 0 \<and> n \<ge> 3 then ((3, 0), [1, 2, 3]) else ((0, 0), [])),
     os_writev = (\<lambda>d k j iov. (int (sum_list (map snd iov)), 0)),
     os_shutdown = (\<lambda>k. (0, 0)), os_close = (\<lambda>d k. (0, 0)),
     os_poll = (\<lambda>k t pollfds. ((int (length pollfds), 0), map (\<lambda>p. pf_events p AND (POLLIN OR POLLOUT)) pollfds)),
     os_getfl = (\<lambda>d. (0, 0)), os_setfl = (\<lambda>d f. (0, 0))\<rparr>"

lemma example_os_ok: "os_ok example_os"
proof -
  have "read_ok (os_read example_os d k)" for d k
  proof -
    have "\<exists>m data. os_read example_os d k n = ((int m, 0), data) \<and> m \<le> n \<and> m \<le> length data" for n
      by (cases "d = Standard_Input \<and> k = 0 \<and> n \<ge> 3")
        (auto simp: example_os_def intro!: exI [of _ "3 :: nat"] exI [of _ "0 :: nat"])
    then show ?thesis by (simp add: read_ok_def)
  qed
  moreover have "writev_ok (os_writev example_os d k)" for d k by (auto simp: writev_ok_def example_os_def)
  moreover have "poll_ok (os_poll example_os k)" for k
  proof -
    have e: "(POLLIN OR POLLOUT) AND (POLLERR OR POLLNVAL) = 0"
      by (simp add: POLLIN_def POLLOUT_def POLLERR_def POLLNVAL_def)
    have "(e AND (POLLIN OR POLLOUT)) AND (POLLERR OR POLLNVAL) = 0" for e :: u16 by (simp add: and.assoc e)
    then show ?thesis by (auto simp: poll_ok_def example_os_def EINTR_def)
  qed
  ultimately show ?thesis by (simp add: os_ok_def) (simp add: example_os_def)
qed


end
