(* ===== verification/Unassemble_Buffer.thy ===== *)
theory Unassemble_Buffer
  imports Sponge_Prelude
begin

text \<open>
  UnAssembleBuffer (libsponge/stream\_reassembler.hh, stream\_reassembler.cc): substrings of
  a byte stream that arrive out of order and overlapping are kept in a ring buffer, with a
  \<open>std::map\<close> of the intervals held, until the first gap is filled.

  The map is its list of entries in key order, an iterator a split of that list.
  \<open>iv_set\<close> is the set of positions a map stands for; MergeInterval is shown to add an
  interval to it and to keep the map sorted and separated. \<open>ub_inv\<close> relates the ring to the
  stream that is being received.
\<close>

section \<open>The interval map\<close>

type_synonym interval_map = "(u64 \<times> u64) list"

text \<open>\<open>std::map::emplace_hint\<close>: the entry is inserted in key order unless its key is present.\<close>

fun map_emplace :: "u64 \<Rightarrow> u64 \<Rightarrow> interval_map \<Rightarrow> interval_map" where
  "map_emplace k v [] = [(k, v)]"
| "map_emplace k v ((a, b) # m) =
     (if k < a then (k, v) # (a, b) # m
      else if k = a then (a, b) # m
      else (a, b) # map_emplace k v m)"

text \<open>\<open>std::map::lower_bound\<close>: the iterator stands before the first key not below \<open>k\<close>.\<close>

definition map_lower_bound :: "u64 \<Rightarrow> interval_map \<Rightarrow> interval_map \<times> interval_map" where
  "map_lower_bound k m = (takeWhile (\<lambda>e. fst e < k) m, dropWhile (\<lambda>e. fst e < k) m)"

record UnAssembleBuffer =
  ub_buffer :: bytes
  ub_index_map :: interval_map
  ub_used_size :: u64
  ub_start_pos :: u64

definition UnAssembleBuffer_init :: "u64 \<Rightarrow> UnAssembleBuffer" where
  "UnAssembleBuffer_init capacity = \<lparr>ub_buffer = replicate capacity 0, ub_index_map = [],
     ub_used_size = 0, ub_start_pos = 0\<rparr>"

text \<open>The while loop of MergeInterval: the iterator stands between \<open>pre\<close> and the last list.\<close>

fun merge_loop :: "interval_map \<Rightarrow> u64 \<Rightarrow> u64 \<Rightarrow> u64 \<Rightarrow> interval_map \<Rightarrow> interval_map \<times> u64" where
  "merge_loop pre index str_size used [] =
     (map_emplace index str_size pre, add64 used str_size)"
| "merge_loop pre index str_size used ((k, n) # post) =
     (if add64 index str_size < k
      then (map_emplace index str_size (pre @ (k, n) # post), add64 used str_size)
      else if index > add64 k n
      then merge_loop (pre @ [(k, n)]) index str_size used post
      else (let last = max (add64 index str_size) (add64 k n); index' = min index k
            in merge_loop pre index' (sub64 last index') (sub64 used n) post))"

definition UnAssembleBuffer_MergeInterval ::
    "u64 \<Rightarrow> u64 \<Rightarrow> UnAssembleBuffer \<Rightarrow> UnAssembleBuffer" where
  "UnAssembleBuffer_MergeInterval index str_size b =
     (if ub_index_map b = []
      then b\<lparr>ub_index_map := [(index, str_size)], ub_used_size := add64 (ub_used_size b) str_size\<rparr>
      else (let (pre, post) = map_lower_bound index (ub_index_map b);
                (pre, post) = (if post = [] \<or> (fst (hd post) > index \<and> pre \<noteq> [])
                  then (butlast pre, last pre # post) else (pre, post));
                (m, used) = merge_loop pre index str_size (ub_used_size b) post
            in b\<lparr>ub_index_map := m, ub_used_size := used\<rparr>))"

definition UnAssembleBuffer_push_substring ::
    "bytes \<Rightarrow> u64 \<Rightarrow> u64 \<Rightarrow> UnAssembleBuffer \<Rightarrow> (bytes \<times> UnAssembleBuffer) option" where
  "UnAssembleBuffer_push_substring data index start_index b =
     (let cap = length (ub_buffer b) in do {
        cpp_assert (index \<ge> start_index);
        cpp_assert (sub64 index start_index < cap);
        pos \<leftarrow> rem64 (sub64 (add64 (ub_start_pos b) index) start_index) cap;
        buf \<leftarrow> (if add64 pos (length data) \<le> cap
          then memcpy (ub_buffer b) pos data 0 (length data)
          else (let copy1 = sub64 cap pos in do {
            b1 \<leftarrow> memcpy (ub_buffer b) pos data 0 copy1;
            memcpy b1 0 data copy1 (sub64 (length data) copy1)
          }));
        let b1 = UnAssembleBuffer_MergeInterval index (length data) (b\<lparr>ub_buffer := buf\<rparr>);
        (case ub_index_map b1 of
          [] \<Rightarrow> Some ([], b1)
        | (k, str_size) # rest \<Rightarrow>
            if k \<noteq> start_index then Some ([], b1)
            else do {
              let popped = replicate str_size 0;
              let start = ub_start_pos b1;
              popped \<leftarrow> (if add64 start str_size \<le> cap
                then memcpy popped 0 (ub_buffer b1) start str_size
                else (let copy1 = sub64 cap start in do {
                  p1 \<leftarrow> memcpy popped 0 (ub_buffer b1) start copy1;
                  memcpy p1 copy1 (ub_buffer b1) 0 (sub64 str_size copy1)
                }));
              start' \<leftarrow> rem64 (add64 start str_size) cap;
              Some (popped, b1\<lparr>ub_used_size := sub64 (ub_used_size b1) str_size,
                ub_index_map := rest, ub_start_pos := start'\<rparr>)
            })
      })"

definition UnAssembleBuffer_empty :: "UnAssembleBuffer \<Rightarrow> bool" where
  "UnAssembleBuffer_empty b = (ub_used_size b = 0)"

declare map_lower_bound_def [sponge_eval] UnAssembleBuffer_init_def [sponge_eval]
  UnAssembleBuffer_MergeInterval_def [sponge_eval]
  UnAssembleBuffer_push_substring_def [sponge_eval] UnAssembleBuffer_empty_def [sponge_eval]

section \<open>Interval lists\<close>

text \<open>The set of positions an interval list stands for, its well-formedness (positive
  lengths, sorted, with a gap between neighbours) and its total length.\<close>

definition iv_set :: "interval_map \<Rightarrow> nat set" where
  "iv_set m = (\<Union>(k, n) \<in> set m. {k..<k + n})"

fun iv_ok :: "interval_map \<Rightarrow> bool" where
  "iv_ok [] = True"
| "iv_ok ((k, n) # m) = (0 < n \<and> (\<forall>(k', n') \<in> set m. k + n < k') \<and> iv_ok m)"

definition iv_total :: "interval_map \<Rightarrow> nat" where
  "iv_total m = sum_list (map snd m)"

lemma iv_set_simps [simp]:
  "iv_set [] = {}" "iv_set ((k, n) # m) = {k..<k + n} \<union> iv_set m"
  "iv_set (m @ m') = iv_set m \<union> iv_set m'"
  by (auto simp: iv_set_def)

lemma iv_total_simps [simp]:
  "iv_total [] = 0" "iv_total ((k, n) # m) = n + iv_total m"
  "iv_total (m @ m') = iv_total m + iv_total m'"
  by (simp_all add: iv_total_def)

lemma iv_ok_append:
  "iv_ok (m @ m') \<longleftrightarrow> iv_ok m \<and> iv_ok m' \<and>
     (\<forall>(k, n) \<in> set m. \<forall>(k', n') \<in> set m'. k + n < k')"
  by (induction m rule: iv_ok.induct) auto

lemma iv_total_bound:
  "iv_ok m \<Longrightarrow> \<forall>(k, n) \<in> set m. a \<le> k \<and> k + n \<le> b \<Longrightarrow> a \<le> b \<Longrightarrow> iv_total m \<le> b - a"
proof (induction m arbitrary: a rule: iv_ok.induct)
  case 1
  then show ?case by simp
next
  case (2 k n m)
  then have "iv_total m \<le> b - (k + n)" by (intro "2.IH") auto
  with 2 show ?case by auto
qed

lemma map_emplace_last:
  "\<forall>(k, n) \<in> set m. k < i \<Longrightarrow> map_emplace i sz m = m @ [(i, sz)]"
  by (induction m) auto

lemma map_emplace_middle:
  "\<forall>(k, n) \<in> set m. k < i \<Longrightarrow> \<forall>(k, n) \<in> set m'. i < k \<Longrightarrow>
     map_emplace i sz (m @ m') = m @ (i, sz) # m'"
  by (induction m) (cases m', auto)

lemma card_iv_set: "iv_ok m \<Longrightarrow> card (iv_set m) = iv_total m \<and> finite (iv_set m)"
proof (induction m rule: iv_ok.induct)
  case 1
  then show ?case by simp
next
  case (2 k n m)
  then have "{k..<k + n} \<inter> iv_set m = {}" by (fastforce simp: iv_set_def)
  with 2 show ?case by (simp add: card_Un_disjoint)
qed

section \<open>MergeInterval adds an interval\<close>

text \<open>The loop invariant: what is before the iterator ends before the interval to insert.\<close>

lemma merge_loop_spec:
  assumes "iv_ok (pre @ post)" and "0 < sz" and "i + sz < 2 ^ 64"
    and "\<forall>(k, n) \<in> set pre. k + n < i" and "\<forall>(k, n) \<in> set post. k + n < 2 ^ 64"
    and "merge_loop pre i sz (iv_total (pre @ post)) post = (m, used)"
  shows "iv_ok m \<and> iv_set m = iv_set (pre @ post) \<union> {i..<i + sz} \<and> used = iv_total m"
  using assms
proof (induction post arbitrary: pre i sz)
  case Nil
  have m: "m = pre @ [(i, sz)]" "used = add64 (iv_total pre) sz"
    using Nil.prems(4,6) map_emplace_last [of pre i sz] by fastforce+
  have "iv_total pre \<le> i - 0"
    using Nil.prems(1,4) by (intro iv_total_bound) fastforce+
  then have "used = iv_total m" using Nil.prems(3) m by (simp add: u64_simps)
  with Nil.prems m show ?case by (auto simp: iv_ok_append)
next
  case (Cons e post)
  obtain k n where e: "e = (k, n)" by (cases e)
  have kn: "k + n < 2 ^ 64" "0 < n" using Cons.prems(1,5) e by (auto simp: iv_ok_append)
  have arith: "add64 i sz = i + sz" "add64 k n = k + n" using Cons.prems(3) kn by (simp_all add: u64_simps)
  have total: "iv_total (pre @ e # post) < 2 ^ 64"
  proof -
    have "iv_total (pre @ e # post) \<le> (2 ^ 64 - 1) - 0"
      using Cons.prems(1,3,4,5) by (intro iv_total_bound) fastforce+
    then show ?thesis by simp
  qed
  consider (before) "i + sz < k" | (after) "k + n < i" "\<not> i + sz < k"
    | (merge) "k \<le> i + sz" "i \<le> k + n" by linarith
  then show ?case
  proof cases
    case before
    have above: "\<forall>(k', n') \<in> set (e # post). i < k'"
      using before Cons.prems(1) e by (fastforce simp: iv_ok_append)
    have m: "m = pre @ (i, sz) # e # post" "used = add64 (iv_total (pre @ e # post)) sz"
      using before arith Cons.prems(4,6) e above map_emplace_middle [of pre i "e # post" sz]
      by fastforce+
    have ok: "iv_ok m"
      using Cons.prems(1,2,4) before e m by (fastforce simp: iv_ok_append)
    have "iv_total m \<le> (2 ^ 64 - 1) - 0"
      using ok Cons.prems(3,4,5) m by (intro iv_total_bound) fastforce+
    then have "used = iv_total m" using m e by (simp add: add64_def)
    with ok m e show ?thesis by auto
  next
    case after
    then have "merge_loop (pre @ [e]) i sz (iv_total ((pre @ [e]) @ post)) post = (m, used)"
      using arith Cons.prems(6) e by simp
    moreover have "iv_ok ((pre @ [e]) @ post)" using Cons.prems(1) by simp
    moreover have "\<forall>(k, n) \<in> set (pre @ [e]). k + n < i" using Cons.prems(4) after e by auto
    ultimately have "iv_ok m \<and> iv_set m = iv_set ((pre @ [e]) @ post) \<union> {i..<i + sz} \<and> used = iv_total m"
      using Cons.prems(2,3,5) by (intro Cons.IH) auto
    then show ?thesis by simp
  next
    case merge
    define l where "l = max (i + sz) (k + n)"
    have l: "l < 2 ^ 64" "min i k < l" "sub64 l (min i k) = l - min i k"
      using Cons.prems(2,3) kn unfolding l_def by (auto intro!: sub64_exact)
    have u: "sub64 (iv_total (pre @ e # post)) n = iv_total (pre @ post)"
      using total e by (simp add: u64_simps)
    have "merge_loop pre (min i k) (l - min i k) (iv_total (pre @ post)) post = (m, used)"
      using merge arith Cons.prems(6) e l(3) u by (simp add: Let_def l_def [symmetric])
    moreover have "iv_ok (pre @ post)" using Cons.prems(1) e by (auto simp: iv_ok_append)
    moreover have "\<forall>(k', n') \<in> set pre. k' + n' < min i k"
      using Cons.prems(1,4) e by (fastforce simp: iv_ok_append)
    ultimately have "iv_ok m \<and> iv_set m = iv_set (pre @ post) \<union> {min i k..<min i k + (l - min i k)} \<and>
        used = iv_total m"
      using Cons.prems(2,5) l by (intro Cons.IH) auto
    moreover have "{min i k..<min i k + (l - min i k)} = {i..<i + sz} \<union> {k..<k + n}"
      using merge Cons.prems(2) kn(2) by (auto simp: l_def)
    ultimately show ?thesis using e by auto
  qed
qed

text \<open>The iterator MergeInterval starts from satisfies the loop invariant.\<close>

lemma merge_start:
  assumes ok: "iv_ok m" and ne: "m \<noteq> []"
    and lb: "map_lower_bound i m = (pre0, post0)"
    and st: "(pre, post) = (if post0 = [] \<or> (fst (hd post0) > i \<and> pre0 \<noteq> [])
        then (butlast pre0, last pre0 # post0) else (pre0, post0))"
  shows "pre @ post = m \<and> (\<forall>(k, n) \<in> set pre. k + n < i)"
proof -
  have m: "m = pre0 @ post0" and below: "\<forall>e \<in> set pre0. fst e < i"
    and hd: "post0 \<noteq> [] \<Longrightarrow> i \<le> fst (hd post0)"
    using lb hd_dropWhile [of "\<lambda>e. fst e < i" m]
    by (auto simp: map_lower_bound_def dest: set_takeWhileD)
  show ?thesis
  proof (cases "post0 = [] \<or> (fst (hd post0) > i \<and> pre0 \<noteq> [])")
    case True
    then have p: "pre0 \<noteq> []" using m ne by auto
    with True st have pp: "pre = butlast pre0" "post = last pre0 # post0" by auto
    with p have pre0: "pre0 = pre @ [last pre0]" by simp
    then have "iv_ok (pre @ [last pre0])" using ok m by (simp add: iv_ok_append)
    moreover have "fst (last pre0) < i" using below p by simp
    ultimately have "\<forall>(k, n) \<in> set pre. k + n < i"
      by (cases "last pre0") (fastforce simp: iv_ok_append)
    then show ?thesis using m pre0 pp by (metis append.assoc append_Cons append_Nil)
  next
    case False
    with st have pp: "pre = pre0" "post = post0" by auto
    have "k + n < i" if "(k, n) \<in> set pre0" for k n
    proof -
      have ne0: "pre0 \<noteq> []" using that by auto
      with False hd have "post0 \<noteq> []" "fst (hd post0) = i" by auto
      then have "(i, snd (hd post0)) \<in> set post0" by (cases post0) auto
      with ok m that show ?thesis by (fastforce simp: iv_ok_append)
    qed
    with m pp show ?thesis by auto
  qed
qed

lemma MergeInterval_spec:
  assumes ok: "iv_ok (ub_index_map b)" and used: "ub_used_size b = iv_total (ub_index_map b)"
    and ends: "\<forall>(k, n) \<in> set (ub_index_map b). k + n < 2 ^ 64"
    and new: "0 < sz" "i + sz < 2 ^ 64"
  obtains m where "UnAssembleBuffer_MergeInterval i sz b =
      b\<lparr>ub_index_map := m, ub_used_size := iv_total m\<rparr>"
    and "iv_ok m" and "iv_set m = iv_set (ub_index_map b) \<union> {i..<i + sz}"
proof (cases "ub_index_map b = []")
  case True
  then show ?thesis
    using new used by (intro that [of "[(i, sz)]"])
      (simp_all add: UnAssembleBuffer_MergeInterval_def u64_simps)
next
  case False
  obtain pre0 post0 where lb: "map_lower_bound i (ub_index_map b) = (pre0, post0)" by fastforce
  obtain pre post where st: "(pre, post) = (if post0 = [] \<or> (fst (hd post0) > i \<and> pre0 \<noteq> [])
        then (butlast pre0, last pre0 # post0) else (pre0, post0))" by (metis surj_pair)
  obtain m u where loop: "merge_loop pre i sz (ub_used_size b) post = (m, u)" by fastforce
  have start: "pre @ post = ub_index_map b" "\<forall>(k, n) \<in> set pre. k + n < i"
    using merge_start [OF ok False lb st] by auto
  have "\<forall>(k, n) \<in> set post. k + n < 2 ^ 64" using ends unfolding start(1) [symmetric] by auto
  then have "iv_ok m \<and> iv_set m = iv_set (pre @ post) \<union> {i..<i + sz} \<and> u = iv_total m"
    using merge_loop_spec [of pre post sz i m u] loop ok used new start by simp
  moreover have "UnAssembleBuffer_MergeInterval i sz b = b\<lparr>ub_index_map := m, ub_used_size := u\<rparr>"
    unfolding UnAssembleBuffer_MergeInterval_def lb Let_def prod.case st [symmetric] loop
    using False by simp
  ultimately show ?thesis using start by (intro that [of m]) auto
qed

section \<open>UnAssembleBuffer\<close>

text \<open>
  \<open>S\<close> gives the bytes of the stream being received, \<open>W\<close> is the first position not yet
  delivered. The byte of position \<open>i\<close> held by an interval stands \<open>i - W\<close> places after the
  start of the ring.
\<close>

definition ub_inv :: "(nat \<Rightarrow> u8) \<Rightarrow> nat \<Rightarrow> UnAssembleBuffer \<Rightarrow> bool" where
  "ub_inv S W b \<longleftrightarrow> ub_start_pos b < length (ub_buffer b) \<and> length (ub_buffer b) < 2 ^ 63 \<and>
     W < 2 ^ 64 \<and> iv_ok (ub_index_map b) \<and> ub_used_size b = iv_total (ub_index_map b) \<and>
     (\<forall>i \<in> iv_set (ub_index_map b). W < i \<and> i < W + length (ub_buffer b) \<and> i < 2 ^ 64 - 1 \<and>
        ub_buffer b ! ((ub_start_pos b + (i - W)) mod length (ub_buffer b)) = S i)"

lemma iv_entry_mem:
  "iv_ok m \<Longrightarrow> (k, n) \<in> set m \<Longrightarrow> k \<in> iv_set m \<and> k + n - 1 \<in> iv_set m \<and> 0 < n"
  by (induction m rule: iv_ok.induct) (auto simp: iv_set_def)

lemma ub_inv_mem:
  "ub_inv S W b \<Longrightarrow> i \<in> iv_set (ub_index_map b) \<Longrightarrow>
     W < i \<and> i < W + length (ub_buffer b) \<and> i < 2 ^ 64 - 1"
  unfolding ub_inv_def by blast

lemma ub_inv_byte:
  "ub_inv S W b \<Longrightarrow> i \<in> iv_set (ub_index_map b) \<Longrightarrow>
     ub_buffer b ! ((ub_start_pos b + (i - W)) mod length (ub_buffer b)) = S i"
  unfolding ub_inv_def by blast

lemma ub_inv_init: "0 < capacity \<Longrightarrow> capacity < 2 ^ 63 \<Longrightarrow> ub_inv S 0 (UnAssembleBuffer_init capacity)"
  by (simp add: ub_inv_def UnAssembleBuffer_init_def)

lemma ub_inv_ends:
  assumes "ub_inv S W b" and "(k, n) \<in> set (ub_index_map b)"
  shows "k + n < 2 ^ 64"
proof -
  have mem: "k + n - 1 \<in> iv_set (ub_index_map b)" "0 < n"
    using assms iv_entry_mem [of "ub_index_map b" k n] by (simp_all add: ub_inv_def)
  then have "k + n - 1 < 2 ^ 64 - 1" using assms(1) by (simp add: ub_inv_def)
  with mem(2) show ?thesis by simp
qed

text \<open>Storing a substring and merging its interval.\<close>

lemma ub_store:
  assumes inv: "ub_inv S W b" and lo: "W \<le> index" and ne: "0 < length data"
    and hi: "index + length data \<le> W + length (ub_buffer b)" "index + length data < 2 ^ 64"
    and S: "\<forall>j < length data. data ! j = S (index + j)"
    and st: "ring_stored (ub_buffer b) ((ub_start_pos b + (index - W)) mod length (ub_buffer b))
        data (length data) buf"
  obtains m where "UnAssembleBuffer_MergeInterval index (length data) (b\<lparr>ub_buffer := buf\<rparr>) =
      b\<lparr>ub_buffer := buf, ub_index_map := m, ub_used_size := iv_total m\<rparr>"
    and "iv_ok m" and "iv_set m = iv_set (ub_index_map b) \<union> {index..<index + length data}"
    and "\<forall>i \<in> iv_set m. W \<le> i \<and> i < W + length (ub_buffer b) \<and> i < 2 ^ 64 - 1 \<and>
        buf ! ((ub_start_pos b + (i - W)) mod length (ub_buffer b)) = S i"
proof -
  let ?c = "length (ub_buffer b)"
  obtain m where m: "UnAssembleBuffer_MergeInterval index (length data) (b\<lparr>ub_buffer := buf\<rparr>) =
      b\<lparr>ub_buffer := buf, ub_index_map := m, ub_used_size := iv_total m\<rparr>" "iv_ok m"
    "iv_set m = iv_set (ub_index_map b) \<union> {index..<index + length data}"
  proof (rule MergeInterval_spec [of "b\<lparr>ub_buffer := buf\<rparr>" "length data" index])
    show "iv_ok (ub_index_map (b\<lparr>ub_buffer := buf\<rparr>))"
      and "ub_used_size (b\<lparr>ub_buffer := buf\<rparr>) = iv_total (ub_index_map (b\<lparr>ub_buffer := buf\<rparr>))"
      using inv by (simp_all add: ub_inv_def)
    show "\<forall>(k, n) \<in> set (ub_index_map (b\<lparr>ub_buffer := buf\<rparr>)). k + n < 2 ^ 64"
      using ub_inv_ends [OF inv] by auto
  qed (use ne hi in simp_all)
  have "\<forall>i \<in> iv_set m. W \<le> i \<and> i < W + ?c \<and> i < 2 ^ 64 - 1 \<and>
      buf ! ((ub_start_pos b + (i - W)) mod ?c) = S i"
  proof
    fix i assume i: "i \<in> iv_set m"
    have range: "W \<le> i" "i < W + ?c" "i < 2 ^ 64 - 1"
      using i m(3) ub_inv_mem [OF inv, of i] lo hi by auto
    have at: "buf ! ((ub_start_pos b + (i - W)) mod ?c) =
        (if index - W \<le> i - W \<and> i - W < index - W + length data then data ! (i - W - (index - W))
         else ub_buffer b ! ((ub_start_pos b + (i - W)) mod ?c))"
      using lo hi range by (intro ring_stored_offset [OF st]) auto
    show "W \<le> i \<and> i < W + ?c \<and> i < 2 ^ 64 - 1 \<and>
        buf ! ((ub_start_pos b + (i - W)) mod ?c) = S i"
    proof (cases "i \<in> {index..<index + length data}")
      case True
      then have "data ! (i - index) = S (index + (i - index))" by (intro S [rule_format]) auto
      with True at lo range show ?thesis by auto
    next
      case False
      then have "i \<in> iv_set (ub_index_map b)" using i m(3) by blast
      with inv have "ub_buffer b ! ((ub_start_pos b + (i - W)) mod ?c) = S i"
        by (rule ub_inv_byte)
      moreover have "\<not> (index - W \<le> i - W \<and> i - W < index - W + length data)"
        using False range lo by auto
      note at [unfolded if_not_P [OF this]]
      ultimately show ?thesis using range by simp
    qed
  qed
  with m show ?thesis by (rule that)
qed

lemma ub_head:
  assumes "iv_ok ((k, n) # rest)" and "i \<in> iv_set rest"
  shows "k + n < i"
  using assms by (fastforce simp: iv_set_def)

lemma UnAssembleBuffer_push_spec:
  assumes inv: "ub_inv S W b" and lo: "W \<le> index" and ne: "0 < length data"
    and hi: "index + length data \<le> W + length (ub_buffer b)" "index + length data < 2 ^ 64"
    and S: "\<forall>j < length data. data ! j = S (index + j)"
  obtains n t where "UnAssembleBuffer_push_substring data index W b = Some (map S [W..<W + n], t)"
    and "ub_inv S (W + n) t" and "length (ub_buffer t) = length (ub_buffer b)"
    and "iv_set (ub_index_map t) \<union> {W..<W + n} =
      iv_set (ub_index_map b) \<union> {index..<index + length data}"
proof -
  let ?c = "length (ub_buffer b)" and ?s = "ub_start_pos b"
  define pos where "pos = (?s + (index - W)) mod ?c"
  have c: "?s < ?c" "?c < 2 ^ 63" "W < 2 ^ 64" using inv by (auto simp: ub_inv_def)
  have sub: "sub64 index W = index - W" using lo hi by (intro sub64_exact) auto
  have "sub64 (add64 ?s index) W = ?s + (index - W)" using lo hi c by (intro sub64_add64) auto
  then have pos: "rem64 (sub64 (add64 ?s index) W) ?c = Some pos"
    using c unfolding pos_def by (metis rem64_pos gr_zeroI not_less_zero)
  have "pos < ?c" using c by (auto simp: pos_def intro: mod_less_divisor)
  moreover have "length data \<le> ?c" using lo hi by simp
  ultimately obtain buf where buf: "(if add64 pos (length data) \<le> ?c
        then memcpy (ub_buffer b) pos data 0 (length data)
        else (let copy1 = sub64 ?c pos in do {
          b1 \<leftarrow> memcpy (ub_buffer b) pos data 0 copy1;
          memcpy b1 0 data copy1 (sub64 (length data) copy1)
        })) = Some buf"
    and st: "ring_stored (ub_buffer b) pos data (length data) buf"
    using c(2) by (rule ring_copy_in [OF _ _ order.refl])
  obtain m where m: "UnAssembleBuffer_MergeInterval index (length data) (b\<lparr>ub_buffer := buf\<rparr>) =
      b\<lparr>ub_buffer := buf, ub_index_map := m, ub_used_size := iv_total m\<rparr>" "iv_ok m"
    "iv_set m = iv_set (ub_index_map b) \<union> {index..<index + length data}"
    "\<forall>i \<in> iv_set m. W \<le> i \<and> i < W + ?c \<and> i < 2 ^ 64 - 1 \<and> buf ! ((?s + (i - W)) mod ?c) = S i"
    by (rule ub_store [OF inv lo ne hi S st [unfolded pos_def]])
  have len: "length buf = ?c" using st by (rule ring_stored_length)
  have "m \<noteq> []" using m(3) ne by auto
  then obtain k n rest where mk: "m = (k, n) # rest" by (cases m) auto
  have kn: "k \<in> iv_set m" "k + n - 1 \<in> iv_set m" "0 < n"
    using iv_entry_mem [OF m(2), of k n] mk by auto
  let ?b1 = "b\<lparr>ub_buffer := buf, ub_index_map := m, ub_used_size := iv_total m\<rparr>"
  have lt: "index - W < ?c" using lo hi ne by linarith
  have start: "UnAssembleBuffer_push_substring data index W b =
      (if k \<noteq> W then Some ([], ?b1)
       else do {
         popped \<leftarrow> (if add64 ?s n \<le> ?c then memcpy (replicate n 0) 0 buf ?s n
           else (let copy1 = sub64 ?c ?s in do {
             p1 \<leftarrow> memcpy (replicate n 0) 0 buf ?s copy1;
             memcpy p1 copy1 buf 0 (sub64 n copy1)
           }));
         start' \<leftarrow> rem64 (add64 ?s n) ?c;
         Some (popped, ?b1\<lparr>ub_used_size := sub64 (iv_total m) n,
           ub_index_map := rest, ub_start_pos := start'\<rparr>)
       })"
    unfolding UnAssembleBuffer_push_substring_def sub pos buf Let_def Option.bind.bind_lunit
    using lo lt by (simp add: buf [unfolded Let_def] m(1) mk)
  show ?thesis
  proof (cases "k = W")
    case False
    then have "W < k" using bspec [OF m(4) kn(1)] by simp
    then have "W < i" if "i \<in> iv_set m" for i
      using that mk ub_head [OF m(2) [unfolded mk]] by fastforce
    then have "ub_inv S (W + 0) (b\<lparr>ub_buffer := buf, ub_index_map := m, ub_used_size := iv_total m\<rparr>)"
      using m(2,4) c len unfolding ub_inv_def by (simp del: Nat.add_diff_assoc)
    moreover have "UnAssembleBuffer_push_substring data index W b =
        Some (map S [W..<W + 0], b\<lparr>ub_buffer := buf, ub_index_map := m, ub_used_size := iv_total m\<rparr>)"
      using False mk lo hi ne by (simp add: start)
    ultimately show ?thesis using m(3) len by (intro that [of 0 ?b1]) auto
  next
    case True
    let ?t = "b\<lparr>ub_buffer := buf, ub_index_map := rest, ub_used_size := iv_total rest,
      ub_start_pos := (?s + n) mod ?c\<rparr>"
    have n: "n \<le> ?c" "W + n < 2 ^ 64" using bspec [OF m(4) kn(2)] kn(3) True by auto
    have "iv_total m \<le> (2 ^ 64 - 1) - 0"
      using m(2) iv_entry_mem [OF m(2)] m(4) by (intro iv_total_bound) (fastforce)+
    then have used: "sub64 (iv_total m) n = iv_total rest" using mk by (simp add: sub64_exact)
    have add: "add64 ?s n = ?s + n" using c n by (intro add64_exact) simp
    have "{W..<W + n} \<subseteq> iv_set m" using mk True by auto
    then have "\<forall>i < n. buf ! ((?s + i) mod ?c) = S (W + i)"
      using m(4) by (metis add_diff_cancel_left' atLeastLessThan_iff le_add1 nat_add_left_cancel_less subsetD)
    then have got: "ring_get buf ?s n = map S [W..<W + n]"
      using len by (intro nth_equalityI) auto
    have "?s \<le> length buf" "n \<le> length buf" "length buf < 2 ^ 63" using c n len by simp_all
    then have pop: "(if add64 ?s n \<le> ?c then memcpy (replicate n 0) 0 buf ?s n
        else (let copy1 = sub64 ?c ?s in do {
          p1 \<leftarrow> memcpy (replicate n 0) 0 buf ?s copy1;
          memcpy p1 copy1 buf 0 (sub64 n copy1)
        })) = Some (map S [W..<W + n])"
      using ring_copy_out [of ?s buf n "replicate n 0"] unfolding len got by simp
    have "rem64 (?s + n) ?c = Some ((?s + n) mod ?c)" using c by (intro rem64_pos) linarith
    then have "UnAssembleBuffer_push_substring data index W b = Some (map S [W..<W + n], ?t)"
      unfolding start pop unfolding add used using True by simp
    moreover have "ub_inv S (W + n) ?t"
    proof -
      have "W + n < i \<and> i < W + n + ?c \<and> i < 2 ^ 64 - 1 \<and>
          buf ! (((?s + n) mod ?c + (i - (W + n))) mod ?c) = S i" if "i \<in> iv_set rest" for i
      proof -
        have i: "W + n < i" using ub_head [OF m(2) [unfolded mk] that] True by simp
        have "i \<in> iv_set m" using that mk by simp
        moreover have "((?s + n) mod ?c + (i - (W + n))) mod ?c = (?s + n + (i - (W + n))) mod ?c"
          by (rule mod_add_left_eq)
        moreover have "?s + n + (i - (W + n)) = ?s + (i - W)" using i by linarith
        ultimately show ?thesis using bspec [OF m(4), of i] i by auto
      qed
      moreover have "(?s + n) mod ?c < ?c" using c by (intro mod_less_divisor) linarith
      ultimately show ?thesis using m(2) mk c(2) n len unfolding ub_inv_def by simp
    qed
    moreover have "iv_set rest \<union> {W..<W + n} = iv_set m" using mk True by auto
    ultimately show ?thesis using m(3) len by (intro that [of n ?t]) auto
  qed
qed

end
