(* ===== verification/Stream_Reassembler.thy ===== *)
theory Stream_Reassembler
  imports Byte_Stream Unassemble_Buffer
begin

text \<open>
  StreamReassembler (libsponge/stream\_reassembler.hh, stream\_reassembler.cc): the contiguous
  prefix of the substrings received moves from the UnAssembleBuffer to the output ByteStream.

  The invariant \<open>sr_inv S L\<close> relates the state to the stream \<open>S\<close> of length \<open>L\<close> that is being
  received; \<open>sr_received\<close> is the set of stream positions the state holds or has delivered.
\<close>

section \<open>The class\<close>

record StreamReassembler =
  sr_buffer :: UnAssembleBuffer
  sr_output :: ByteStream
  sr_capacity :: u64
  sr_eof_index :: "u64 option"

definition StreamReassembler_init :: "u64 \<Rightarrow> StreamReassembler" where
  "StreamReassembler_init capacity = \<lparr>sr_buffer = UnAssembleBuffer_init capacity,
     sr_output = ByteStream_init capacity, sr_capacity = capacity, sr_eof_index = None\<rparr>"

definition StreamReassembler_push_substring ::
    "bytes \<Rightarrow> u64 \<Rightarrow> bool \<Rightarrow> StreamReassembler \<Rightarrow> StreamReassembler option" where
  "StreamReassembler_push_substring data index eof s =
     (let bytes_written = bs_bytes_written (sr_output s) in
      if add64 index (length data) < bytes_written then Some s
      else do {
        let (sv, index) = (if index < bytes_written
          then (drop (sub64 bytes_written index) data, bytes_written) else (data, index));
        cpp_assert (index \<ge> bytes_written);
        let max_len = sub64 (sr_capacity s) (sub64 index bytes_written);
        let sv = (if length sv > max_len then take max_len sv else sv);
        let eof_index = (if eof then Some (add64 index (length sv)) else sr_eof_index s);
        (buffer, output) \<leftarrow> (if sv \<noteq> [] then do {
            (popped, buffer) \<leftarrow> UnAssembleBuffer_push_substring sv index bytes_written (sr_buffer s);
            output \<leftarrow> (if popped \<noteq> []
              then map_option snd (ByteStream_write popped (sr_output s))
              else Some (sr_output s));
            Some (buffer, output)
          } else Some (sr_buffer s, sr_output s));
        let output = (if eof_index = Some (bs_bytes_written output)
          then ByteStream_end_input output else output);
        Some (s\<lparr>sr_buffer := buffer, sr_output := output, sr_eof_index := eof_index\<rparr>)
      })"

definition StreamReassembler_unassembled_bytes :: "StreamReassembler \<Rightarrow> u64" where
  "StreamReassembler_unassembled_bytes s = ub_used_size (sr_buffer s)"

definition StreamReassembler_empty :: "StreamReassembler \<Rightarrow> bool" where
  "StreamReassembler_empty s = UnAssembleBuffer_empty (sr_buffer s)"

section \<open>Invariant and abstraction\<close>

abbreviation sr_written :: "StreamReassembler \<Rightarrow> nat" where
  "sr_written s \<equiv> bs_bytes_written (sr_output s)"

abbreviation sr_read :: "StreamReassembler \<Rightarrow> nat" where
  "sr_read s \<equiv> bs_bytes_read (sr_output s)"

definition sr_received :: "StreamReassembler \<Rightarrow> nat set" where
  "sr_received s = {..<sr_written s} \<union> iv_set (ub_index_map (sr_buffer s))"

text \<open>The output shows the stream from the read to the written position.\<close>

definition out_inv :: "(nat \<Rightarrow> u8) \<Rightarrow> ByteStream \<Rightarrow> bool" where
  "out_inv S out \<longleftrightarrow> bs_inv out \<and> bs_bytes_read out \<le> bs_bytes_written out \<and>
     bs_bytes_written out < 2 ^ 64 \<and>
     bs_content out = map S [bs_bytes_read out..<bs_bytes_written out]"

definition sr_inv :: "(nat \<Rightarrow> u8) \<Rightarrow> nat \<Rightarrow> StreamReassembler \<Rightarrow> bool" where
  "sr_inv S L s \<longleftrightarrow> out_inv S (sr_output s) \<and> ub_inv S (sr_written s) (sr_buffer s) \<and>
     bs_capacity (sr_output s) = sr_capacity s \<and> length (ub_buffer (sr_buffer s)) = sr_capacity s \<and>
     0 < sr_capacity s \<and> sr_capacity s < 2 ^ 63 \<and> L < 2 ^ 64 \<and> sr_written s \<le> L \<and>
     (\<forall>i \<in> iv_set (ub_index_map (sr_buffer s)). i < L \<and> i < sr_read s + sr_capacity s) \<and>
     (sr_eof_index s = None \<or> sr_eof_index s = Some L) \<and>
     (bs_input_ended (sr_output s) \<longleftrightarrow> sr_eof_index s = Some (sr_written s))"

text \<open>A substring of the stream, and the positions a caller may send: inside the window
  behind the last byte read, or, when the output is full, starting with a byte already due.\<close>

definition sr_consistent :: "(nat \<Rightarrow> u8) \<Rightarrow> nat \<Rightarrow> bytes \<Rightarrow> nat \<Rightarrow> bool \<Rightarrow> bool" where
  "sr_consistent S L data index eof \<longleftrightarrow> index + length data \<le> L \<and>
     data = map S [index..<index + length data] \<and> (eof \<longrightarrow> index + length data = L)"

definition sr_in_window :: "StreamReassembler \<Rightarrow> bytes \<Rightarrow> nat \<Rightarrow> bool" where
  "sr_in_window s data index \<longleftrightarrow> index + length data \<le> sr_read s + sr_capacity s"

definition sr_probe :: "StreamReassembler \<Rightarrow> bytes \<Rightarrow> nat \<Rightarrow> bool" where
  "sr_probe s data index \<longleftrightarrow> sr_written s = sr_read s + sr_capacity s \<and> index \<le> sr_written s \<and>
     index + length data \<le> sr_written s + sr_capacity s"

lemma sr_consistent_nth:
  assumes "sr_consistent S L data index eof" and "j < length data"
  shows "data ! j = S (index + j)"
proof -
  have "data = map S [index..<index + length data]" using assms(1) by (simp add: sr_consistent_def)
  then have "data ! j = map S [index..<index + length data] ! j" by (rule arg_cong)
  then show ?thesis using assms(2) by simp
qed

lemma sr_inv_init:
  assumes "0 < capacity" and "capacity < 2 ^ 63" and "L < 2 ^ 64"
  shows "sr_inv S L (StreamReassembler_init capacity)"
proof -
  have "ub_inv S 0 (UnAssembleBuffer_init capacity)" using assms(1,2) by (rule ub_inv_init)
  moreover have "bs_inv (ByteStream_init capacity)" using assms(2) by (rule bs_inv_init)
  ultimately show ?thesis using assms
    by (simp add: sr_inv_def out_inv_def StreamReassembler_init_def UnAssembleBuffer_init_def)
qed

lemma sr_received_init: "sr_received (StreamReassembler_init capacity) = {}"
  by (simp add: sr_received_def StreamReassembler_init_def UnAssembleBuffer_init_def)

lemma out_inv_used:
  assumes "out_inv S out"
  shows "bs_used_size out = bs_bytes_written out - bs_bytes_read out"
proof -
  have "bs_content out = map S [bs_bytes_read out..<bs_bytes_written out]"
    using assms by (simp add: out_inv_def)
  then have "length (bs_content out) = length [bs_bytes_read out..<bs_bytes_written out]"
    by (simp only: length_map)
  then show ?thesis by simp
qed

lemma out_inv_bound:
  assumes "out_inv S out"
  shows "bs_bytes_written out \<le> bs_bytes_read out + bs_capacity out"
proof -
  have "bs_used_size out \<le> bs_capacity out" using assms by (simp add: out_inv_def bs_inv_def)
  then show ?thesis unfolding out_inv_used [OF assms] by simp
qed

lemma sr_inv_bounds:
  assumes "sr_inv S L s"
  shows "0 < sr_capacity s" "sr_capacity s < 2 ^ 63" "L < 2 ^ 64" "sr_written s \<le> L"
    "sr_read s \<le> sr_written s" "sr_written s \<le> sr_read s + sr_capacity s"
    "length (ub_buffer (sr_buffer s)) = sr_capacity s" "bs_capacity (sr_output s) = sr_capacity s"
    "out_inv S (sr_output s)" "ub_inv S (sr_written s) (sr_buffer s)"
proof -
  show o: "out_inv S (sr_output s)" and c: "bs_capacity (sr_output s) = sr_capacity s"
    using assms by (simp_all add: sr_inv_def)
  show "sr_written s \<le> sr_read s + sr_capacity s" using out_inv_bound [OF o] c by simp
  show "sr_read s \<le> sr_written s" using o by (simp add: out_inv_def)
qed (use assms in \<open>simp_all add: sr_inv_def\<close>)

section \<open>Pushing a substring\<close>

lemma out_write:
  assumes inv: "out_inv S out" and fit: "bs_bytes_written out + n \<le> bs_bytes_read out + bs_capacity out"
    and no_wrap: "bs_bytes_written out + n < 2 ^ 64"
  obtains t where "ByteStream_write (map S [bs_bytes_written out..<bs_bytes_written out + n]) out = Some (n, t)"
    and "out_inv S t" and "bs_bytes_written t = bs_bytes_written out + n"
    and "bs_bytes_read t = bs_bytes_read out" and "bs_same_flags out t"
proof -
  let ?W = "bs_bytes_written out" and ?R = "bs_bytes_read out"
  let ?data = "map S [?W..<?W + n]"
  have R: "?R \<le> ?W" and C: "bs_content out = map S [?R..<?W]" and bs: "bs_inv out"
    using inv by (simp_all add: out_inv_def)
  have "n = min (length ?data) (bs_capacity out - bs_used_size out)"
    unfolding out_inv_used [OF inv] using fit R by simp
  from bs this obtain t where t: "ByteStream_write ?data out = Some (n, t)" "bs_inv t"
    "bs_content t = bs_content out @ take n ?data" "bs_bytes_written t = add64 ?W n"
    "bs_bytes_read t = ?R" "bs_same_flags out t" by (rule ByteStream_write_spec)
  have w: "bs_bytes_written t = ?W + n" using t(4) no_wrap by (simp add: add64_exact)
  have "bs_content t = map S [?R..<?W + n]"
    unfolding t(3) C using upt_add_eq_append [OF R, of n] by simp
  then have "out_inv S t" using t(2,5) w R no_wrap by (simp add: out_inv_def)
  from t(1) this w t(5,6) show ?thesis by (rule that)
qed

text \<open>The part of the data that fits is a piece of the stream.\<close>

lemma out_write_prefix:
  assumes inv: "out_inv S out" and n: "n = min (length data) (bs_capacity out - bs_used_size out)"
    and data: "take n data = map S [bs_bytes_written out..<bs_bytes_written out + n]"
    and no_wrap: "bs_bytes_written out + n < 2 ^ 64"
  obtains t where "ByteStream_write data out = Some (n, t)" and "out_inv S t"
    and "bs_bytes_written t = bs_bytes_written out + n" and "bs_bytes_read t = bs_bytes_read out"
    and "bs_same_flags out t"
proof -
  let ?W = "bs_bytes_written out" and ?R = "bs_bytes_read out"
  have R: "?R \<le> ?W" and C: "bs_content out = map S [?R..<?W]" and bs: "bs_inv out"
    using inv by (simp_all add: out_inv_def)
  obtain t where t: "ByteStream_write data out = Some (n, t)" "bs_inv t"
    "bs_content t = bs_content out @ take n data" "bs_bytes_written t = add64 ?W n"
    "bs_bytes_read t = ?R" "bs_same_flags out t" by (rule ByteStream_write_spec [OF bs n])
  have w: "bs_bytes_written t = ?W + n" unfolding t(4) using no_wrap by (intro add64_exact) simp
  have "bs_content t = map S [?R..<?W + n]"
    unfolding t(3) C data using upt_add_eq_append [OF R, of n] by simp
  then have "out_inv S t" using t(2,5) w R no_wrap by (simp add: out_inv_def)
  from t(1) this w t(5,6) show ?thesis by (rule that)
qed

lemma out_write_nil: "out_inv S out \<Longrightarrow> ByteStream_write [] out = Some (0, out)"
  by (simp add: ByteStream_write_def Let_def)

text \<open>The positions are such that no subtraction wraps and nothing is cut off at the capacity.\<close>

lemma push_unfold:
  assumes inv: "sr_inv S L s" and con: "sr_consistent S L data index eof"
    and lo: "sr_written s \<le> index + length data"
    and hi: "index + length data \<le> sr_written s + sr_capacity s" "index \<le> sr_written s + sr_capacity s"
  shows "StreamReassembler_push_substring data index eof s = do {
    (popped, buffer) \<leftarrow> (if drop (sr_written s - index) data \<noteq> []
       then UnAssembleBuffer_push_substring (drop (sr_written s - index) data)
         (max index (sr_written s)) (sr_written s) (sr_buffer s) else Some ([], sr_buffer s));
    output \<leftarrow> (if popped \<noteq> [] then map_option snd (ByteStream_write popped (sr_output s))
       else Some (sr_output s));
    let eof_index = (if eof then Some L else sr_eof_index s);
    Some (s\<lparr>sr_buffer := buffer, sr_output := (if eof_index = Some (bs_bytes_written output)
       then ByteStream_end_input output else output), sr_eof_index := eof_index\<rparr>)
  }"
proof -
  let ?W = "sr_written s" and ?n = "length data"
  define sv where "sv = drop (sr_written s - index) data"
  have b: "index + ?n < 2 ^ 64" "?W < 2 ^ 64" "sr_capacity s < 2 ^ 64"
    using sr_inv_bounds [OF inv] con by (simp_all add: sr_consistent_def)
  have add: "add64 index ?n = index + ?n" using b by (intro add64_exact) auto
  have sv: "(if index < ?W then (drop (sub64 ?W index) data, ?W) else (data, index)) = (sv, max index ?W)"
    using b by (simp add: sub64_exact sv_def)
  have "sub64 (max index ?W) ?W = max index ?W - ?W" using b by (intro sub64_exact) auto
  moreover have "sub64 (sr_capacity s) (max index ?W - ?W) = sr_capacity s - (max index ?W - ?W)"
    using b hi by (intro sub64_exact) auto
  moreover have "length sv \<le> sr_capacity s - (max index ?W - ?W)"
    using hi lo by (cases "index \<le> ?W") (auto simp: sv_def)
  ultimately have room: "length sv \<le> sub64 (sr_capacity s) (sub64 (max index ?W) ?W)"
    by (simp only:)
  have len: "max index ?W + length sv = index + ?n"
    using lo by (cases "index \<le> ?W") (auto simp: sv_def)
  have "add64 (max index ?W) (length sv) = index + ?n"
    unfolding len [symmetric] by (rule add64_exact) (simp only: len b)
  then have eof: "(if eof then Some (add64 (max index ?W) (length sv)) else sr_eof_index s) =
      (if eof then Some L else sr_eof_index s)" using con by (simp add: sr_consistent_def)
  have cut: "\<not> index + ?n < ?W" "\<not> sub64 (sr_capacity s) (sub64 (max index ?W) ?W) < length sv"
    "cpp_assert (?W \<le> max index ?W) = Some ()"
    using lo room by (simp_all add: cpp_assert_def)
  define X where "X = UnAssembleBuffer_push_substring sv (max index ?W) ?W (sr_buffer s)"
  show ?thesis
    unfolding StreamReassembler_push_substring_def Let_def add sv prod.case if_not_P [OF cut(1)]
      if_not_P [OF cut(2)] cut(3) Option.bind.simps eof X_def [symmetric] sv_def [symmetric]
    by (cases "sv = []"; cases X) (simp_all add: split_beta)
qed

lemma push_buffer:
  assumes inv: "sr_inv S L s" and con: "sr_consistent S L data index eof"
    and lo: "sr_written s \<le> index + length data"
    and hi: "index + length data \<le> sr_written s + sr_capacity s"
  obtains n b where "(if drop (sr_written s - index) data \<noteq> []
       then UnAssembleBuffer_push_substring (drop (sr_written s - index) data)
         (max index (sr_written s)) (sr_written s) (sr_buffer s) else Some ([], sr_buffer s)) =
      Some (map S [sr_written s..<sr_written s + n], b)"
    and "ub_inv S (sr_written s + n) b" and "length (ub_buffer b) = sr_capacity s"
    and "iv_set (ub_index_map b) \<union> {sr_written s..<sr_written s + n} =
      iv_set (ub_index_map (sr_buffer s)) \<union> {max index (sr_written s)..<index + length data}"
proof -
  let ?W = "sr_written s"
  define sv where "sv = drop (?W - index) data"
  note bounds = sr_inv_bounds [OF inv]
  have len: "max index ?W + length sv = index + length data"
    using lo by (cases "index \<le> ?W") (auto simp: sv_def)
  show ?thesis
  proof (cases "sv = []")
    case True
    have "{max index ?W..<index + length data} = {}" using len True by simp
    with True show ?thesis using bounds(7,10) unfolding sv_def
      by (intro that [of 0 "sr_buffer s"]) (simp_all only: if_False not_True_eq_False, simp_all)
  next
    case False
    have S: "\<forall>j < length sv. sv ! j = S (max index ?W + j)"
      using sr_consistent_nth [OF con] by (auto simp: sv_def max_def)
    have "?W \<le> max index ?W" "0 < length sv" using False by simp_all
    moreover have "max index ?W + length sv \<le> ?W + length (ub_buffer (sr_buffer s))"
      "max index ?W + length sv < 2 ^ 64"
      unfolding len bounds(7) using hi con bounds(3) by (simp_all add: sr_consistent_def)
    ultimately obtain n b where nb:
      "UnAssembleBuffer_push_substring sv (max index ?W) ?W (sr_buffer s) = Some (map S [?W..<?W + n], b)"
      "ub_inv S (?W + n) b" "length (ub_buffer b) = length (ub_buffer (sr_buffer s))"
      "iv_set (ub_index_map b) \<union> {?W..<?W + n} =
        iv_set (ub_index_map (sr_buffer s)) \<union> {max index ?W..<max index ?W + length sv}"
      using S by (rule UnAssembleBuffer_push_spec [OF bounds(10)])
    show ?thesis
    proof (rule that [of n b])
      show "(if drop (?W - index) data \<noteq> [] then UnAssembleBuffer_push_substring
          (drop (?W - index) data) (max index ?W) ?W (sr_buffer s) else Some ([], sr_buffer s)) =
          Some (map S [?W..<?W + n], b)"
        using False nb(1) unfolding sv_def [symmetric] by simp
      show "length (ub_buffer b) = sr_capacity s" using nb(3) bounds(7) by (simp only:)
      show "iv_set (ub_index_map b) \<union> {?W..<?W + n} =
          iv_set (ub_index_map (sr_buffer s)) \<union> {max index ?W..<index + length data}"
        using nb(4) unfolding len .
    qed (rule nb(2))
  qed
qed

text \<open>What a push does to a state, whatever becomes of the bytes.\<close>

definition sr_step :: "(nat \<Rightarrow> u8) \<Rightarrow> nat \<Rightarrow> bool \<Rightarrow> StreamReassembler \<Rightarrow> StreamReassembler \<Rightarrow> bool" where
  "sr_step S L eof s t \<longleftrightarrow> sr_inv S L t \<and> sr_capacity t = sr_capacity s \<and> sr_read t = sr_read s \<and>
     sr_written s \<le> sr_written t \<and> bs_error (sr_output t) = bs_error (sr_output s) \<and>
     sr_eof_index t = (if eof then Some L else sr_eof_index s)"

lemma push_stale:
  assumes "sr_inv S L s" and "sr_consistent S L data index eof" and "index + length data < sr_written s"
  shows "StreamReassembler_push_substring data index eof s = Some s" and "sr_step S L eof s s"
    and "sr_received s = sr_received s \<union> {index..<index + length data}"
proof -
  note b = sr_inv_bounds [OF assms(1)]
  have "add64 index (length data) = index + length data"
    using assms(2,3) b by (intro add64_exact) (simp add: sr_consistent_def)
  then show "StreamReassembler_push_substring data index eof s = Some s"
    using assms(3) by (simp add: StreamReassembler_push_substring_def)
  have "\<not> eof" using assms(2,3) b by (auto simp: sr_consistent_def)
  then show "sr_step S L eof s s" using assms(1) by (simp add: sr_step_def)
  show "sr_received s = sr_received s \<union> {index..<index + length data}"
    using assms(3) by (auto simp: sr_received_def)
qed

lemma push_finish:
  assumes inv: "sr_inv S L s" and out: "out_inv S out" "bs_same_flags (sr_output s) out"
    and R: "bs_bytes_read out = sr_read s" and W: "sr_written s \<le> bs_bytes_written out" "bs_bytes_written out \<le> L"
    and ub: "ub_inv S (bs_bytes_written out) b" "length (ub_buffer b) = sr_capacity s"
    and iv: "\<forall>i \<in> iv_set (ub_index_map b). i < L \<and> i < sr_read s + sr_capacity s"
    and e: "e = (if eof then Some L else sr_eof_index s)"
  shows "sr_step S L eof s (s\<lparr>sr_buffer := b, sr_output := (if e = Some (bs_bytes_written out)
    then ByteStream_end_input out else out), sr_eof_index := e\<rparr>)" (is "sr_step S L eof s ?t")
proof -
  note bounds = sr_inv_bounds [OF inv]
  have e': "e = None \<or> e = Some L" using e inv by (auto simp: sr_inv_def)
  have out': "out_inv S (sr_output ?t)" using out(1) by (simp add: out_inv_def)
  have "bs_input_ended (sr_output s) \<longleftrightarrow> sr_eof_index s = Some (sr_written s)"
    using inv by (simp add: sr_inv_def)
  moreover have "bs_input_ended out = bs_input_ended (sr_output s)"
    using out(2) by (simp add: bs_same_flags_def)
  moreover have "sr_eof_index s = Some L" if "sr_eof_index s \<noteq> None"
    using that inv by (auto simp: sr_inv_def)
  ultimately have "bs_input_ended out \<Longrightarrow> e = Some (bs_bytes_written out)" using e W by auto
  then have ended: "bs_input_ended (sr_output ?t) \<longleftrightarrow> e = Some (sr_written ?t)" by auto
  have cap: "bs_capacity (sr_output ?t) = sr_capacity s"
    using out(2) bounds(8) by (simp add: bs_same_flags_def)
  have "sr_inv S L ?t" unfolding sr_inv_def
    using out' ended cap ub iv e' bounds(1-3) W R by simp
  moreover have "bs_error (sr_output ?t) = bs_error (sr_output s)"
    using out(2) by (simp add: bs_same_flags_def)
  ultimately show ?thesis unfolding sr_step_def using R W e by simp
qed

lemma received_grow:
  fixes W :: nat
  assumes "A \<union> {W..<W + n} = B \<union> {max index W..<e}"
  shows "{..<W + n} \<union> A = {..<W} \<union> B \<union> {index..<e}"
proof -
  have "{..<W + n} \<union> A = {..<W} \<union> (A \<union> {W..<W + n})" by auto
  also have "\<dots> = {..<W} \<union> B \<union> {index..<e}" unfolding assms by auto
  finally show ?thesis .
qed

lemma push_in_window:
  assumes inv: "sr_inv S L s" and con: "sr_consistent S L data index eof"
    and win: "sr_in_window s data index"
  obtains t where "StreamReassembler_push_substring data index eof s = Some t" and "sr_step S L eof s t"
    and "sr_received t = sr_received s \<union> {index..<index + length data}"
proof (cases "index + length data < sr_written s")
  case True
  from push_stale [OF inv con this] show ?thesis by (rule that)
next
  case False
  let ?W = "sr_written s" and ?C = "sr_capacity s" and ?out = "sr_output s"
  note b = sr_inv_bounds [OF inv]
  have lo: "?W \<le> index + length data" using False by simp
  have hi: "index + length data \<le> ?W + ?C" "index \<le> ?W + ?C"
    using win b(5) by (simp_all add: sr_in_window_def)
  obtain n u where nu: "(if drop (?W - index) data \<noteq> []
       then UnAssembleBuffer_push_substring (drop (?W - index) data) (max index ?W) ?W (sr_buffer s)
       else Some ([], sr_buffer s)) = Some (map S [?W..<?W + n], u)"
    "ub_inv S (?W + n) u" "length (ub_buffer u) = ?C"
    "iv_set (ub_index_map u) \<union> {?W..<?W + n} =
      iv_set (ub_index_map (sr_buffer s)) \<union> {max index ?W..<index + length data}"
    by (rule push_buffer [OF inv con lo hi(1)])
  have old: "\<forall>i \<in> iv_set (ub_index_map (sr_buffer s)). i < L \<and> i < sr_read s + ?C"
    using inv by (simp add: sr_inv_def)
  have all: "i < L \<and> i < sr_read s + ?C" if "i \<in> iv_set (ub_index_map u) \<union> {?W..<?W + n}" for i
    using that old con win unfolding nu(4) sr_consistent_def sr_in_window_def by auto
  have "?W + n \<le> L \<and> ?W + n \<le> sr_read s + ?C"
    using all [of "?W + (n - 1)"] b(4,6) by (cases n) simp_all
  then have n: "?W + n \<le> L" "?W + n \<le> sr_read s + ?C" by simp_all
  have fit: "?W + n \<le> sr_read s + bs_capacity ?out" "?W + n < 2 ^ 64" using n b(3,8) by simp_all
  obtain out where out: "ByteStream_write (map S [?W..<?W + n]) ?out = Some (n, out)" "out_inv S out"
    "bs_bytes_written out = ?W + n" "bs_bytes_read out = sr_read s" "bs_same_flags ?out out"
    by (rule out_write [OF b(9) fit])
  have w: "(if map S [?W..<?W + n] \<noteq> [] then map_option snd (ByteStream_write (map S [?W..<?W + n]) ?out)
      else Some ?out) = Some out" using out b(9) by (cases "n = 0") (auto simp: out_write_nil)
  show ?thesis
  proof (rule that)
    show "StreamReassembler_push_substring data index eof s = Some (s\<lparr>sr_buffer := u, sr_output :=
        (if (if eof then Some L else sr_eof_index s) = Some (bs_bytes_written out)
         then ByteStream_end_input out else out), sr_eof_index := (if eof then Some L else sr_eof_index s)\<rparr>)"
      (is "_ = Some ?t")
      unfolding push_unfold [OF inv con lo hi] nu(1) Option.bind.simps prod.case w Let_def ..
    show "sr_step S L eof s ?t"
      by (rule push_finish [OF inv out(2,5,4)]) (use out(3) nu(2,3) n all in auto)
    show "sr_received ?t = sr_received s \<union> {index..<index + length data}"
      using received_grow [OF nu(4)] out(3) by (simp add: sr_received_def)
  qed
qed

text \<open>A probe of a full window: the byte due is assembled and then not accepted by the output.
  It is not kept anywhere, so it stays due.\<close>

lemma out_write_full:
  assumes "out_inv S out" and "bs_bytes_written out = bs_bytes_read out + bs_capacity out"
  shows "ByteStream_write data out = Some (0, out)"
proof -
  have "bs_inv out" using assms(1) by (simp add: out_inv_def)
  moreover have "bs_used_size out = bs_capacity out"
    unfolding out_inv_used [OF assms(1)] assms(2) by simp
  ultimately have "ByteStream_remaining_capacity out = 0" by (simp add: remaining_capacity_eq)
  then show ?thesis by (simp add: ByteStream_write_def)
qed

lemma ub_inv_no_intervals:
  "ub_inv S W b \<Longrightarrow> iv_set (ub_index_map b) = {} \<Longrightarrow> V < 2 ^ 64 \<Longrightarrow> ub_inv S V b"
  by (simp add: ub_inv_def)

lemma ub_inv_above: "ub_inv S W b \<Longrightarrow> i \<in> iv_set (ub_index_map b) \<Longrightarrow> W < i"
  by (simp add: ub_inv_def)

lemma full_no_intervals:
  assumes "sr_inv S L s" and "sr_written s = sr_read s + sr_capacity s"
  shows "iv_set (ub_index_map (sr_buffer s)) = {}"
proof -
  have "i < sr_read s + sr_capacity s" "sr_written s < i" if "i \<in> iv_set (ub_index_map (sr_buffer s))" for i
    using that assms(1) sr_inv_bounds(10) [OF assms(1)] by (simp_all add: sr_inv_def ub_inv_def)
  then show ?thesis using assms(2) by fastforce
qed

lemma interval_no_gap:
  fixes W :: nat
  assumes "A \<union> {W..<W + n} = {W..<e}" and gap: "\<forall>i \<in> A. W + n < i"
  shows "A = {}"
proof (rule ccontr)
  assume "A \<noteq> {}"
  then obtain i where "i \<in> A" by auto
  then have "i \<in> {W..<e}" "W + n < i" using assms by blast+
  then have "W + n \<in> A \<union> {W..<W + n}" unfolding assms(1) by simp
  with gap show False by auto
qed

lemma push_probe:
  assumes inv: "sr_inv S L s" and con: "sr_consistent S L data index eof" and probe: "sr_probe s data index"
  obtains t where "StreamReassembler_push_substring data index eof s = Some t" and "sr_step S L eof s t"
    and "sr_received t = sr_received s"
proof (cases "index + length data < sr_written s")
  case True
  from push_stale [OF inv con this] show ?thesis by (intro that [of s]) simp_all
next
  case False
  let ?W = "sr_written s" and ?C = "sr_capacity s" and ?out = "sr_output s"
  note b = sr_inv_bounds [OF inv]
  have lo: "?W \<le> index + length data" using False by simp
  have hi: "index + length data \<le> ?W + ?C" "index \<le> ?W + ?C" and full: "?W = sr_read s + ?C" and le: "index \<le> ?W"
    using probe by (simp_all add: sr_probe_def)
  obtain n u where nu: "(if drop (?W - index) data \<noteq> []
       then UnAssembleBuffer_push_substring (drop (?W - index) data) (max index ?W) ?W (sr_buffer s)
       else Some ([], sr_buffer s)) = Some (map S [?W..<?W + n], u)"
    "ub_inv S (?W + n) u" "length (ub_buffer u) = ?C"
    "iv_set (ub_index_map u) \<union> {?W..<?W + n} =
      iv_set (ub_index_map (sr_buffer s)) \<union> {max index ?W..<index + length data}"
    by (rule push_buffer [OF inv con lo hi(1)])
  have old: "iv_set (ub_index_map (sr_buffer s)) = {}"
    by (rule full_no_intervals [OF inv full])
  have gap: "\<forall>i \<in> iv_set (ub_index_map u). ?W + n < i" using nu(2) by (simp add: ub_inv_def)
  have iv: "iv_set (ub_index_map u) = {}"
    by (rule interval_no_gap [OF _ gap]) (use nu(4) le old in \<open>simp add: max_def\<close>)
  have ub: "ub_inv S ?W u" by (rule ub_inv_no_intervals [OF nu(2) iv]) (use b in simp)
  have w: "(if map S [?W..<?W + n] \<noteq> [] then map_option snd (ByteStream_write (map S [?W..<?W + n]) ?out)
      else Some ?out) = Some ?out" using out_write_full [OF b(9)] full b(8) by simp
  show ?thesis
  proof (rule that)
    show "StreamReassembler_push_substring data index eof s = Some (s\<lparr>sr_buffer := u, sr_output :=
        (if (if eof then Some L else sr_eof_index s) = Some ?W
         then ByteStream_end_input ?out else ?out), sr_eof_index := (if eof then Some L else sr_eof_index s)\<rparr>)"
      (is "_ = Some ?t")
      unfolding push_unfold [OF inv con lo hi] nu(1) Option.bind.simps prod.case w Let_def ..
    show "sr_step S L eof s ?t"
      by (rule push_finish [OF inv b(9)]) (use ub nu(3) iv b in auto)
    show "sr_received ?t = sr_received s" using iv old by (simp add: sr_received_def)
  qed
qed

text \<open>An empty substring changes nothing, wherever it lies.\<close>

lemma push_empty:
  assumes "sr_inv S L s" and "index < 2 ^ 64"
  shows "StreamReassembler_push_substring [] index False s = Some s"
proof -
  have "add64 index 0 = index" using assms(2) by (simp add: add64_exact)
  moreover have "ByteStream_end_input (sr_output s) = sr_output s"
    if "sr_eof_index s = Some (sr_written s)"
    using that assms(1) by (cases "sr_output s") (simp add: sr_inv_def ByteStream_end_input_def)
  ultimately show ?thesis
    by (simp add: StreamReassembler_push_substring_def cpp_assert_def Let_def)
qed

section \<open>Sequences of pushes and reads\<close>

datatype sr_event = Push bytes nat bool | Pop nat

fun sr_call :: "StreamReassembler \<Rightarrow> sr_event \<Rightarrow> StreamReassembler option" where
  "sr_call s (Push data index eof) = StreamReassembler_push_substring data index eof s"
| "sr_call s (Pop n) = map_option (\<lambda>out. s\<lparr>sr_output := out\<rparr>) (ByteStream_pop_output n (sr_output s))"

fun sr_window_guard :: "(nat \<Rightarrow> u8) \<Rightarrow> nat \<Rightarrow> StreamReassembler \<Rightarrow> sr_event \<Rightarrow> bool" where
  "sr_window_guard S L s (Push data index eof) \<longleftrightarrow>
     sr_consistent S L data index eof \<and> sr_in_window s data index"
| "sr_window_guard S L s (Pop n) \<longleftrightarrow> True"

fun sr_guard :: "(nat \<Rightarrow> u8) \<Rightarrow> nat \<Rightarrow> StreamReassembler \<Rightarrow> sr_event \<Rightarrow> bool" where
  "sr_guard S L s (Push data index eof) \<longleftrightarrow>
     sr_consistent S L data index eof \<and> (sr_in_window s data index \<or> sr_probe s data index)"
| "sr_guard S L s (Pop n) \<longleftrightarrow> True"

text \<open>The positions that a sequence of pushes offers, and whether it tells the end.\<close>

fun sr_covered :: "sr_event list \<Rightarrow> nat set" where
  "sr_covered [] = {}"
| "sr_covered (Push data index eof # es) = {index..<index + length data} \<union> sr_covered es"
| "sr_covered (Pop n # es) = sr_covered es"

fun sr_eof_told :: "sr_event list \<Rightarrow> bool" where
  "sr_eof_told [] = False"
| "sr_eof_told (Push data index eof # es) = (eof \<or> sr_eof_told es)"
| "sr_eof_told (Pop n # es) = sr_eof_told es"

text \<open>What no call undoes: positions received stay received, the counters do not go back, an
  ended input stays ended.\<close>

definition sr_le :: "StreamReassembler \<Rightarrow> StreamReassembler \<Rightarrow> bool" where
  "sr_le s t \<longleftrightarrow> sr_received s \<subseteq> sr_received t \<and> sr_read s \<le> sr_read t \<and> sr_written s \<le> sr_written t \<and>
     sr_capacity t = sr_capacity s \<and> (sr_eof_index s \<noteq> None \<longrightarrow> sr_eof_index t = sr_eof_index s)"

lemma out_read:
  assumes inv: "out_inv S out" and cap: "0 < bs_capacity out"
    and m: "m = min n (bs_bytes_written out - bs_bytes_read out)"
  obtains t where "ByteStream_read n out = Some (map S [bs_bytes_read out..<bs_bytes_read out + m], t)"
    and "out_inv S t" and "bs_bytes_written t = bs_bytes_written out"
    and "bs_bytes_read t = bs_bytes_read out + m" and "bs_same_flags out t"
proof -
  let ?R = "bs_bytes_read out" and ?W = "bs_bytes_written out"
  have bs: "bs_inv out" and le: "?R \<le> ?W" "?W < 2 ^ 64" and C: "bs_content out = map S [?R..<?W]"
    using inv by (simp_all add: out_inv_def)
  have mm: "m = min n (bs_used_size out)" using m unfolding out_inv_used [OF inv] .
  obtain t where t: "ByteStream_read n out = Some (take n (bs_content out), t)" "bs_inv t"
    "bs_content t = drop n (bs_content out)" "bs_bytes_read t = add64 ?R m"
    "bs_bytes_written t = ?W" "bs_same_flags out t"
    by (rule ByteStream_read_spec [OF bs cap mm])
  have b: "?R + m \<le> ?W" using le m by simp
  then have r: "bs_bytes_read t = ?R + m" unfolding t(4) using le by (intro add64_exact) simp
  have "take n (bs_content out) = map S [?R..<?R + m]" "drop n (bs_content out) = map S [?R + m..<?W]"
    using le unfolding C m by (cases "n \<le> ?W - ?R"; simp add: drop_map take_map min_def)+
  then show ?thesis using t(1-3,5,6) r b le(2) by (intro that [of t]) (simp_all add: out_inv_def)
qed

lemma out_pop:
  assumes inv: "out_inv S out" and cap: "0 < bs_capacity out"
  obtains t where "ByteStream_pop_output n out = Some t" and "out_inv S t"
    and "bs_bytes_written t = bs_bytes_written out"
    and "bs_bytes_read out \<le> bs_bytes_read t" and "bs_same_flags out t"
proof -
  let ?m = "min n (bs_used_size out)" and ?R = "bs_bytes_read out" and ?W = "bs_bytes_written out"
  have bs: "bs_inv out" and le: "?R \<le> ?W" "?W < 2 ^ 64" and C: "bs_content out = map S [?R..<?W]"
    using inv by (simp_all add: out_inv_def)
  obtain t where t: "ByteStream_pop_output n out = Some t" "bs_inv t"
    "bs_content t = drop n (bs_content out)" "bs_bytes_read t = add64 ?R ?m"
    "bs_bytes_written t = ?W" "bs_same_flags out t"
    by (rule ByteStream_pop_output_spec [OF bs cap refl])
  have m: "?R + ?m \<le> ?W" using le unfolding out_inv_used [OF inv] by simp
  then have r: "bs_bytes_read t = ?R + ?m" unfolding t(4) using le by (intro add64_exact) simp
  have "drop n (bs_content out) = map S [?R + ?m..<?W]"
    using le unfolding C out_inv_used [OF inv] by (cases "n \<le> ?W - ?R") (simp_all add: drop_map)
  then have "out_inv S t" using t(2,3,5) r m le(2) by (simp add: out_inv_def)
  from t(1) this t(5) _ t(6) show ?thesis by (rule that) (simp add: r)
qed

lemma sr_pop:
  assumes inv: "sr_inv S L s"
  obtains t where "sr_call s (Pop n) = Some t" and "sr_inv S L t" and "sr_received t = sr_received s"
    and "sr_eof_index t = sr_eof_index s" and "sr_capacity t = sr_capacity s"
    and "sr_written t = sr_written s" and "bs_error (sr_output t) = bs_error (sr_output s)"
    and "sr_read s \<le> sr_read t"
proof -
  note b = sr_inv_bounds [OF inv]
  obtain out where out: "ByteStream_pop_output n (sr_output s) = Some out" "out_inv S out"
    "bs_bytes_written out = sr_written s" "sr_read s \<le> bs_bytes_read out" "bs_same_flags (sr_output s) out"
    by (rule out_pop [OF b(9), of n]) (use b(1,8) in simp)
  have "\<forall>i \<in> iv_set (ub_index_map (sr_buffer s)). i < L \<and> i < bs_bytes_read out + sr_capacity s"
    using inv out(4) by (auto simp: sr_inv_def)
  then have "sr_inv S L (s\<lparr>sr_output := out\<rparr>)"
    using inv out(2,3,5) by (simp add: sr_inv_def bs_same_flags_def)
  then show ?thesis using out by (intro that [of "s\<lparr>sr_output := out\<rparr>"]) (simp_all add: sr_received_def bs_same_flags_def)
qed

lemma sr_push_admissible:
  assumes inv: "sr_inv S L s" and con: "sr_consistent S L data index eof"
    and adm: "sr_in_window s data index \<or> sr_probe s data index"
  obtains t where "StreamReassembler_push_substring data index eof s = Some t" and "sr_step S L eof s t"
    and "sr_received s \<subseteq> sr_received t"
proof (cases "sr_in_window s data index")
  case True
  show ?thesis by (rule push_in_window [OF inv con True]) (rule that, auto)
next
  case False
  with adm have probe: "sr_probe s data index" by simp
  show ?thesis by (rule push_probe [OF inv con probe]) (rule that, auto)
qed

lemma sr_call_step:
  assumes "sr_inv S L s" and "sr_guard S L s e"
  obtains t where "sr_call s e = Some t" and "sr_inv S L t" and "sr_le s t"
proof (cases e)
  case (Push data index eof)
  with assms(2) have con: "sr_consistent S L data index eof"
    and adm: "sr_in_window s data index \<or> sr_probe s data index" by simp_all
  obtain t where t: "StreamReassembler_push_substring data index eof s = Some t" "sr_step S L eof s t"
    "sr_received s \<subseteq> sr_received t" by (rule sr_push_admissible [OF assms(1) con adm])
  have "sr_eof_index s = None \<or> sr_eof_index s = Some L" using assms(1) by (simp add: sr_inv_def)
  then have "sr_le s t" using t(2,3) by (auto simp: sr_le_def sr_step_def)
  then show ?thesis using t Push by (intro that [of t]) (simp_all add: sr_step_def)
next
  case (Pop n)
  obtain t where "sr_call s (Pop n) = Some t" "sr_inv S L t" "sr_received t = sr_received s"
    "sr_eof_index t = sr_eof_index s" "sr_capacity t = sr_capacity s"
    "sr_written t = sr_written s" "sr_read s \<le> sr_read t" by (rule sr_pop [OF assms(1)])
  then show ?thesis using Pop by (intro that [of t]) (simp_all add: sr_le_def)
qed

interpretation sr: monotone_machine sr_call "sr_inv S L" "sr_guard S L" sr_le for S L
proof unfold_locales
  show "\<exists>t. sr_call s e = Some t \<and> sr_inv S L t" if "sr_inv S L s" "sr_guard S L s e" for s e
    by (rule sr_call_step [OF that]) blast
  show "sr_le s s" for s by (simp add: sr_le_def)
  show "sr_le s u" if "sr_le s t" "sr_le t u" for s t u using that unfolding sr_le_def by force
  show "sr_le s t" if "sr_inv S L s" "sr_guard S L s e" "sr_call s e = Some t" for s e t
    by (rule sr_call_step [OF that(1,2)]) (use that(3) in simp)
qed

text \<open>With every push inside the window, nothing that was offered is lost.\<close>

lemma sr_call_covered:
  assumes "sr_inv S L s" and "sr_window_guard S L s e" and "sr_call s e = Some t"
  shows "sr_inv S L t \<and> sr_received t = sr_received s \<union> sr_covered [e] \<and>
    sr_eof_index t = (if sr_eof_told [e] then Some L else sr_eof_index s)"
proof (cases e)
  case (Push data index eof)
  with assms(2) have con: "sr_consistent S L data index eof" and win: "sr_in_window s data index"
    by simp_all
  obtain u where "StreamReassembler_push_substring data index eof s = Some u" "sr_step S L eof s u"
    "sr_received u = sr_received s \<union> {index..<index + length data}"
    by (rule push_in_window [OF assms(1) con win])
  then show ?thesis using assms(3) Push by (simp add: sr_step_def)
next
  case (Pop n)
  obtain u where "sr_call s (Pop n) = Some u" "sr_inv S L u" "sr_received u = sr_received s"
    "sr_eof_index u = sr_eof_index s" by (rule sr_pop [OF assms(1), of n])
  then show ?thesis using assms(3) Pop by (simp del: sr_call.simps(2))
qed

lemma guard_window: "sr_window_guard S L s e \<Longrightarrow> sr_guard S L s e"
  by (cases e) simp_all

lemma sr_run_covered:
  "sr_inv S L s \<Longrightarrow> guarded (sr_window_guard S L) sr_call s es \<Longrightarrow> run sr_call s es = Some t \<Longrightarrow>
   sr_received t = sr_received s \<union> sr_covered es \<and>
   sr_eof_index t = (if sr_eof_told es then Some L else sr_eof_index s)"
proof (induction es arbitrary: s)
  case (Cons e es)
  then obtain u where u: "sr_call s e = Some u" "run sr_call u es = Some t"
    and g: "sr_window_guard S L s e" "guarded (sr_window_guard S L) sr_call u es"
    by (auto split: option.splits)
  note c = sr_call_covered [OF Cons.prems(1) g(1) u(1)]
  have "sr_covered (e # es) = sr_covered [e] \<union> sr_covered es" "sr_eof_told (e # es) = (sr_eof_told [e] \<or> sr_eof_told es)"
    by (cases e; simp)+
  then show ?case using c Cons.IH [of u] g(2) u(2) by auto
qed simp

section \<open>The properties\<close>

declare StreamReassembler_init_def [sponge_eval] StreamReassembler_push_substring_def [sponge_eval]
  sr_consistent_def [sponge_eval] sr_in_window_def [sponge_eval] sr_probe_def [sponge_eval]

text \<open>C10. Any sequence of pushes of substrings of one stream that lie in the window (whatever their
  order, overlap and repetition), mixed with reads, returns. The output then holds the stream
  from the read to the write position; the write position is the first position that no push
  covered; the unassembled bytes are the covered positions behind it, counted once; and the
  input has ended exactly when the end was told and everything before it has arrived.\<close>

theorem StreamReassembler_reassembles:
  assumes "0 < capacity" and "capacity < 2 ^ 63" and "L < 2 ^ 64"
    and "guarded (sr_window_guard S L) sr_call (StreamReassembler_init capacity) es"
  shows "\<exists>t. run sr_call (StreamReassembler_init capacity) es = Some t \<and>
     bs_content (sr_output t) = map S [sr_read t..<sr_written t] \<and>
     {..<sr_written t} \<subseteq> sr_covered es \<and> sr_written t \<notin> sr_covered es \<and>
     StreamReassembler_unassembled_bytes t = card (sr_covered es - {..<sr_written t}) \<and>
     (bs_input_ended (sr_output t) \<longleftrightarrow> sr_eof_told es \<and> sr_written t = L)"
proof -
  let ?s = "StreamReassembler_init capacity"
  have inv: "sr_inv S L ?s" using assms(1-3) by (rule sr_inv_init)
  have "guarded (sr_guard S L) sr_call ?s es" using assms(4) guard_window by (rule guarded_mono)
  then obtain t where t: "run sr_call ?s es = Some t" "sr_inv S L t" using sr.run_progress [OF inv] by blast
  have rec: "sr_received t = sr_covered es" "sr_eof_index t = (if sr_eof_told es then Some L else None)"
    using sr_run_covered [OF inv assms(4) t(1)] sr_received_init by (simp_all add: StreamReassembler_init_def)
  have "bs_content (sr_output t) = map S [sr_read t..<sr_written t]"
    using sr_inv_bounds(9) [OF t(2)] by (simp add: out_inv_def)
  moreover have "sr_written t \<notin> iv_set (ub_index_map (sr_buffer t))"
    "iv_set (ub_index_map (sr_buffer t)) = sr_received t - {..<sr_written t}"
    using ub_inv_above [OF sr_inv_bounds(10) [OF t(2)]] by (fastforce simp: sr_received_def)+
  moreover have "StreamReassembler_unassembled_bytes t = card (iv_set (ub_index_map (sr_buffer t)))"
    using sr_inv_bounds(10) [OF t(2)]
    by (simp add: StreamReassembler_unassembled_bytes_def ub_inv_def card_iv_set)
  moreover have "{..<sr_written t} \<subseteq> sr_received t" by (auto simp: sr_received_def)
  moreover have "bs_input_ended (sr_output t) \<longleftrightarrow> sr_eof_index t = Some (sr_written t)"
    using t(2) by (simp add: sr_inv_def)
  ultimately show ?thesis using t(1) rec by (intro exI [of _ t]) auto
qed

theorem StreamReassembler_reassembles_witness:
  "\<exists>t. run sr_call (StreamReassembler_init 4) [Push [2, 3] 2 True, Push [0, 1] 0 False, Pop 2] = Some t \<and>
     bs_content (sr_output t) = map of_nat [sr_read t..<sr_written t] \<and>
     {..<sr_written t} \<subseteq> sr_covered [Push [2, 3] 2 True, Push [0, 1] 0 False, Pop 2] \<and>
     sr_written t \<notin> sr_covered [Push [2, 3] 2 True, Push [0, 1] 0 False, Pop 2] \<and>
     StreamReassembler_unassembled_bytes t =
       card (sr_covered [Push [2, 3] 2 True, Push [0, 1] 0 False, Pop 2] - {..<sr_written t}) \<and>
     (bs_input_ended (sr_output t) \<longleftrightarrow>
       sr_eof_told [Push [2, 3] 2 True, Push [0, 1] 0 False, Pop 2] \<and> sr_written t = 4)"
  by (rule StreamReassembler_reassembles) (simp_all add: sponge_eval cong: eval_cong)

text \<open>C11. Probes of a full window included, a sequence of pushes of substrings of one stream, mixed
  with reads, returns at every point; the output holds the stream from the read to the write
  position; and what a later call sees never goes back: positions received stay received, the
  counters grow, the end once told stays.\<close>

theorem StreamReassembler_prefix:
  assumes "0 < capacity" and "capacity < 2 ^ 63" and "L < 2 ^ 64"
    and "guarded (sr_guard S L) sr_call (StreamReassembler_init capacity) (es @ fs)"
  shows "\<exists>t u. run sr_call (StreamReassembler_init capacity) es = Some t \<and> run sr_call t fs = Some u \<and>
     bs_content (sr_output u) = map S [sr_read u..<sr_written u] \<and> sr_written u \<le> L \<and>
     sr_received t \<subseteq> sr_received u \<and> sr_read t \<le> sr_read u \<and> sr_written t \<le> sr_written u \<and>
     (bs_input_ended (sr_output t) \<longrightarrow> bs_input_ended (sr_output u) \<and> sr_written u = sr_written t)"
proof -
  let ?s = "StreamReassembler_init capacity"
  have inv: "sr_inv S L ?s" using assms(1-3) by (rule sr_inv_init)
  from assms(4) have g: "guarded (sr_guard S L) sr_call ?s es" by (rule guarded_appendD1)
  then obtain t where t: "run sr_call ?s es = Some t" "sr_inv S L t" using sr.run_progress [OF inv] by blast
  from assms(4) t(1) have h: "guarded (sr_guard S L) sr_call t fs" by (rule guarded_appendD2)
  then obtain u where u: "run sr_call t fs = Some u" "sr_inv S L u" using sr.run_progress [OF t(2)] by blast
  have le: "sr_le t u" by (rule sr.run_rel [OF t(2) h u(1)])
  have ended: "bs_input_ended (sr_output r) \<longleftrightarrow> sr_eof_index r = Some (sr_written r)"
    "sr_eof_index r = None \<or> sr_eof_index r = Some L" "sr_written r \<le> L" if "sr_inv S L r" for r
    using that by (simp_all add: sr_inv_def)
  have "bs_content (sr_output u) = map S [sr_read u..<sr_written u]"
    using sr_inv_bounds(9) [OF u(2)] by (simp add: out_inv_def)
  moreover have "bs_input_ended (sr_output u) \<and> sr_written u = sr_written t" if "bs_input_ended (sr_output t)"
    using that le ended [OF t(2)] ended [OF u(2)] by (auto simp: sr_le_def)
  ultimately show ?thesis using t(1) u(1) le ended(3) [OF u(2)] by (auto simp: sr_le_def)
qed

theorem StreamReassembler_prefix_witness:
  "\<exists>t u. run sr_call (StreamReassembler_init 2) [Push [0, 1] 0 False] = Some t \<and>
     run sr_call t [Push [2] 2 True, Pop 1, Push [2] 2 True] = Some u \<and>
     bs_content (sr_output u) = map of_nat [sr_read u..<sr_written u] \<and> sr_written u \<le> 3 \<and>
     sr_received t \<subseteq> sr_received u \<and> sr_read t \<le> sr_read u \<and> sr_written t \<le> sr_written u \<and>
     (bs_input_ended (sr_output t) \<longrightarrow> bs_input_ended (sr_output u) \<and> sr_written u = sr_written t)"
  by (rule StreamReassembler_prefix) (simp_all add: sponge_eval cong: eval_cong)


text \<open>The end is placed behind the bytes that were kept: a last substring that was cut at the
  capacity ends the stream before its end. A substring that starts beyond the capacity is not
  discarded: the room left is computed modulo 2 to the 64, and an assertion fails.\<close>

theorem StreamReassembler_cut_at_capacity:
  "map_option (\<lambda>t. (bs_content (sr_output t), bs_input_ended (sr_output t)))
     (StreamReassembler_push_substring [1, 2, 3] 0 True (StreamReassembler_init 2)) = Some ([1, 2], True) \<and>
   StreamReassembler_push_substring [7] 5 False (StreamReassembler_init 2) = None"
  by (simp add: sponge_eval cong: eval_cong)

end
