(* ===== verification/Genuine_Segments.thy ===== *)
theory Genuine_Segments
  imports Stream_Reassembler TCP_Segment
begin

text \<open>
  The segments that carry a byte stream, as sender and receiver agree on them. A stream is a
  function \<open>S\<close> on positions with a length \<open>L\<close>. Absolute sequence numbers count the SYN as 0, the
  stream index \<open>i\<close> as \<open>i + 1\<close> and the FIN as \<open>L + 1\<close>.
\<close>

definition seg_len :: "TCPSegment \<Rightarrow> nat" where
  "seg_len seg = length (Buffer_str (seg_payload seg)) +
     (if th_syn (seg_header seg) then 1 else 0) + (if th_fin (seg_header seg) then 1 else 0)"

text \<open>A segment whose first position is \<open>a\<close>: it says so, the SYN is at 0 only, and what it carries is
  the stream at \<open>a\<close>; a segment that carries nothing may lie anywhere up to the position after the
  FIN.\<close>

definition seg_empty :: "TCPSegment \<Rightarrow> bool" where
  "seg_empty seg \<longleftrightarrow> Buffer_str (seg_payload seg) = [] \<and> \<not> th_fin (seg_header seg)"

definition seg_genuine :: "(nat \<Rightarrow> u8) \<Rightarrow> nat \<Rightarrow> WrappingInt32 \<Rightarrow> nat \<Rightarrow> TCPSegment \<Rightarrow> bool" where
  "seg_genuine S L isn a seg \<longleftrightarrow> th_seqno (seg_header seg) = wrap a isn \<and>
     (th_syn (seg_header seg) \<longleftrightarrow> a = 0) \<and> a \<le> L + 2 \<and>
     (seg_empty seg \<or> sr_consistent S L (Buffer_str (seg_payload seg)) (a - 1) (th_fin (seg_header seg)))"

text \<open>Neither an acknowledgment nor a reset: what a sender makes.\<close>

definition plain :: "TCPSegment \<Rightarrow> bool" where
  "plain seg \<longleftrightarrow> \<not> th_ack (seg_header seg) \<and> \<not> th_rst (seg_header seg)"

declare seg_empty_def [sponge_eval] seg_genuine_def [sponge_eval]

lemma seg_len_exact:
  assumes "length (Buffer_str (seg_payload seg)) < 2 ^ 63"
  shows "TCPSegment_length_in_sequence_space seg = seg_len seg"
  using assms by (simp add: TCPSegment_length_in_sequence_space_def seg_len_def add64_exact)

lemma genuine_end:
  assumes "seg_genuine S L isn a seg"
  shows "a + seg_len seg \<le> L + 2"
  using assms by (auto simp: seg_genuine_def seg_empty_def seg_len_def sr_consistent_def)

text \<open>The acknowledgment fields and the ports do not matter.\<close>

lemma genuine_cong:
  assumes "th_seqno (seg_header s) = th_seqno (seg_header t)" and "th_syn (seg_header s) = th_syn (seg_header t)"
    and "th_fin (seg_header s) = th_fin (seg_header t)" and "Buffer_str (seg_payload s) = Buffer_str (seg_payload t)"
  shows "seg_genuine S L isn a s = seg_genuine S L isn a t"
  using assms by (simp add: seg_genuine_def seg_empty_def)

text \<open>Adjacent segments from position \<open>a\<close> to position \<open>b\<close>, none of them without a sequence number
  and none with more than \<open>m\<close>.\<close>

fun segs_from :: "(nat \<Rightarrow> u8) \<Rightarrow> nat \<Rightarrow> WrappingInt32 \<Rightarrow> nat \<Rightarrow> nat \<Rightarrow> TCPSegment list \<Rightarrow> nat \<Rightarrow> bool" where
  "segs_from S L isn m a [] b \<longleftrightarrow> a = b"
| "segs_from S L isn m a (seg # segs) b \<longleftrightarrow> seg_genuine S L isn a seg \<and> 0 < seg_len seg \<and> seg_len seg \<le> m \<and>
     segs_from S L isn m (a + seg_len seg) segs b"

lemma segs_from_append:
  "segs_from S L isn m a (xs @ ys) b \<longleftrightarrow> (\<exists>c. segs_from S L isn m a xs c \<and> segs_from S L isn m c ys b)"
  by (induction xs arbitrary: a) auto

lemma segs_from_le: "segs_from S L isn m a segs b \<Longrightarrow> a + length segs \<le> b"
  by (induction segs arbitrary: a) fastforce+

lemma segs_from_sum: "segs_from S L isn m a segs b \<Longrightarrow> b = a + sum_list (map seg_len segs)"
  by (induction segs arbitrary: a) fastforce+

end
