(* ===== verification/TCP_Receiver.thy ===== *)
theory TCP_Receiver
  imports Genuine_Segments
begin

text \<open>
  TCPReceiver (libsponge/tcp\_receiver.hh, tcp\_receiver.cc): segments become substrings of the
  peer's byte stream; the acknowledgment number and the window tell the peer what is missing.
  \<open>None\<close> is the exception of \<open>isn_.value()\<close> without an initial sequence number, or an undefined
  result of the reassembler.

  The invariant \<open>rcv_inv S L isn\<close> is about the stream \<open>S\<close> of length \<open>L\<close> that the peer sends, and its
  initial sequence number.
\<close>

section \<open>The class\<close>

datatype ReceiverState = RcvError | RcvListen | RcvSynRecv | RcvFinRecv

record TCPReceiver =
  rcv_reassembler :: StreamReassembler
  rcv_capacity :: u64
  rcv_isn :: "WrappingInt32 option"
  rcv_is_listen :: bool

definition TCPReceiver_init :: "u64 \<Rightarrow> TCPReceiver" where
  "TCPReceiver_init capacity = \<lparr>rcv_reassembler = StreamReassembler_init capacity,
     rcv_capacity = capacity, rcv_isn = None, rcv_is_listen = True\<rparr>"

definition TCPReceiver_stream_out :: "TCPReceiver \<Rightarrow> ByteStream" where
  "TCPReceiver_stream_out r = sr_output (rcv_reassembler r)"

definition TCPReceiver_state :: "TCPReceiver \<Rightarrow> ReceiverState" where
  "TCPReceiver_state r =
     (if bs_error (TCPReceiver_stream_out r) then RcvError
      else if rcv_is_listen r then RcvListen
      else if bs_input_ended (TCPReceiver_stream_out r) then RcvFinRecv
      else RcvSynRecv)"

definition TCPReceiver_abs_ack_no :: "TCPReceiver \<Rightarrow> u64" where
  "TCPReceiver_abs_ack_no r =
     (let s = TCPReceiver_state r in
      if s = RcvSynRecv then add64 (bs_bytes_written (TCPReceiver_stream_out r)) 1
      else if s = RcvFinRecv then add64 (bs_bytes_written (TCPReceiver_stream_out r)) 2
      else 0)"

definition TCPReceiver_segment_received :: "TCPSegment \<Rightarrow> TCPReceiver \<Rightarrow> TCPReceiver option" where
  "TCPReceiver_segment_received seg r =
     (if TCPReceiver_state r = RcvListen \<and> \<not> th_syn (seg_header seg) then Some r
      else do {
        let r = (if TCPReceiver_state r = RcvListen
          then r\<lparr>rcv_is_listen := False, rcv_isn := Some (th_seqno (seg_header seg))\<rparr> else r);
        isn \<leftarrow> rcv_isn r;
        let abs_seq_no = unwrap (wi_plus (th_seqno (seg_header seg)) (if th_syn (seg_header seg) then 1 else 0))
          isn (TCPReceiver_abs_ack_no r);
        if abs_seq_no > 0 then do {
          let stream_idx = sub64 abs_seq_no 1;
          s \<leftarrow> StreamReassembler_push_substring (Buffer_copy (seg_payload seg)) stream_idx
            (th_fin (seg_header seg)) (rcv_reassembler r);
          Some (r\<lparr>rcv_reassembler := s\<rparr>)
        } else Some r
      })"

text \<open>The value of an acknowledgment number, where there is one, is an option inside.\<close>

definition TCPReceiver_ackno :: "TCPReceiver \<Rightarrow> WrappingInt32 option option" where
  "TCPReceiver_ackno r =
     (let s = TCPReceiver_state r in
      if s = RcvError \<or> s = RcvListen then Some None
      else map_option (\<lambda>isn. Some (wrap (TCPReceiver_abs_ack_no r) isn)) (rcv_isn r))"

definition TCPReceiver_window_size :: "TCPReceiver \<Rightarrow> u64" where
  "TCPReceiver_window_size r =
     sub64 (rcv_capacity r) (ByteStream_buffer_size (TCPReceiver_stream_out r))"

definition TCPReceiver_unassembled_bytes :: "TCPReceiver \<Rightarrow> u64" where
  "TCPReceiver_unassembled_bytes r = StreamReassembler_unassembled_bytes (rcv_reassembler r)"

declare TCPReceiver_init_def [sponge_eval] TCPReceiver_stream_out_def [sponge_eval]
  TCPReceiver_state_def [sponge_eval] TCPReceiver_abs_ack_no_def [sponge_eval]
  TCPReceiver_segment_received_def [sponge_eval] TCPReceiver_ackno_def [sponge_eval]
  TCPReceiver_window_size_def [sponge_eval] TCPReceiver_unassembled_bytes_def [sponge_eval]

section \<open>The invariant\<close>

text \<open>The absolute acknowledgment number: the SYN, the bytes written and the FIN when it was
  reached.\<close>

definition rcv_next :: "TCPReceiver \<Rightarrow> nat" where
  "rcv_next r = sr_written (rcv_reassembler r) + 1 +
     (if bs_input_ended (TCPReceiver_stream_out r) then 1 else 0)"

text \<open>The sequence number is close enough to be told apart from its equals modulo 2 to the 32,
  and the bytes are those that a sender may send.\<close>

definition rcv_near :: "TCPReceiver \<Rightarrow> nat \<Rightarrow> bool" where
  "rcv_near r a \<longleftrightarrow> \<bar>int (max a 1) - int (rcv_next r)\<bar> < 2 ^ 31"

definition rcv_inv :: "(nat \<Rightarrow> u8) \<Rightarrow> nat \<Rightarrow> WrappingInt32 \<Rightarrow> TCPReceiver \<Rightarrow> bool" where
  "rcv_inv S L isn r \<longleftrightarrow> sr_inv S L (rcv_reassembler r) \<and> L + 2 < 2 ^ 64 \<and>
     rcv_capacity r = sr_capacity (rcv_reassembler r) \<and> \<not> bs_error (TCPReceiver_stream_out r) \<and>
     (if rcv_is_listen r then sr_received (rcv_reassembler r) = {} \<and> sr_eof_index (rcv_reassembler r) = None
      else rcv_isn r = Some isn)"

lemma rcv_inv_init:
  assumes "0 < capacity" and "capacity < 2 ^ 63" and "L + 2 < 2 ^ 64"
  shows "rcv_inv S L isn (TCPReceiver_init capacity)"
proof -
  have "sr_inv S L (StreamReassembler_init capacity)" by (rule sr_inv_init) (use assms in simp_all)
  then show ?thesis using assms(3) sr_received_init [of capacity]
    by (simp add: rcv_inv_def TCPReceiver_init_def TCPReceiver_stream_out_def StreamReassembler_init_def)
qed

lemma rcv_listen_next:
  assumes "rcv_inv S L isn r" and "rcv_is_listen r"
  shows "rcv_next r = 1"
proof -
  have "sr_received (rcv_reassembler r) = {}" and e: "sr_eof_index (rcv_reassembler r) = None"
    and inv: "sr_inv S L (rcv_reassembler r)" using assms by (simp_all add: rcv_inv_def)
  then have "sr_written (rcv_reassembler r) = 0" by (simp add: sr_received_def lessThan_empty_iff)
  moreover have "\<not> bs_input_ended (sr_output (rcv_reassembler r))" using inv e by (simp add: sr_inv_def)
  ultimately show ?thesis by (simp add: rcv_next_def TCPReceiver_stream_out_def)
qed

lemma rcv_state:
  assumes "rcv_inv S L isn r"
  shows "TCPReceiver_state r = (if rcv_is_listen r then RcvListen
      else if bs_input_ended (TCPReceiver_stream_out r) then RcvFinRecv else RcvSynRecv)"
  using assms by (simp add: rcv_inv_def TCPReceiver_state_def)

lemma rcv_next_bound: "rcv_inv S L isn r \<Longrightarrow> rcv_next r \<le> L + 2"
  using sr_inv_bounds(4) [of S L "rcv_reassembler r"] by (simp add: rcv_inv_def rcv_next_def)

lemma rcv_abs_ack_no:
  assumes "rcv_inv S L isn r" and "\<not> rcv_is_listen r"
  shows "TCPReceiver_abs_ack_no r = rcv_next r"
proof -
  have "sr_written (rcv_reassembler r) + 2 < 2 ^ 64"
    using assms(1) sr_inv_bounds(4) [of S L "rcv_reassembler r"] by (simp add: rcv_inv_def)
  then show ?thesis using assms(2) rcv_state [OF assms(1)]
    by (simp add: TCPReceiver_abs_ack_no_def rcv_next_def TCPReceiver_stream_out_def add64_exact)
qed

text \<open>The receiver after the SYN of a segment was seen.\<close>

definition rcv_open :: "WrappingInt32 \<Rightarrow> TCPReceiver \<Rightarrow> TCPReceiver" where
  "rcv_open isn r = r\<lparr>rcv_is_listen := False, rcv_isn := Some isn\<rparr>"

lemma rcv_open_simps [simp]:
  "rcv_reassembler (rcv_open isn r) = rcv_reassembler r" "\<not> rcv_is_listen (rcv_open isn r)"
  "rcv_isn (rcv_open isn r) = Some isn" "rcv_next (rcv_open isn r) = rcv_next r"
  "rcv_capacity (rcv_open isn r) = rcv_capacity r"
  "TCPReceiver_stream_out (rcv_open isn r) = TCPReceiver_stream_out r"
  by (simp_all add: rcv_open_def rcv_next_def TCPReceiver_stream_out_def)

lemma rcv_open_inv: "rcv_inv S L isn r \<Longrightarrow> rcv_inv S L isn (rcv_open isn r)"
  by (simp add: rcv_inv_def)

lemma rcv_open_same: "rcv_inv S L isn r \<Longrightarrow> \<not> rcv_is_listen r \<Longrightarrow> rcv_open isn r = r"
  by (cases r) (simp add: rcv_inv_def rcv_open_def)

lemma rcv_unwrap:
  assumes inv: "rcv_inv S L isn r" and gen: "seg_genuine S L isn a seg" and near: "rcv_near r a"
  shows "unwrap (wi_plus (th_seqno (seg_header seg)) (if th_syn (seg_header seg) then 1 else 0)) isn (rcv_next r) = max a 1"
proof -
  have "wi_plus (th_seqno (seg_header seg)) (if th_syn (seg_header seg) then 1 else 0) = wrap (max a 1) isn"
    using gen wrap_plus [of a isn 1] wrap_plus [of a isn 0]
    by (cases "a = 0") (simp_all add: seg_genuine_def max_absorb1)
  moreover have "max a 1 < 2 ^ 64" "rcv_next r < 2 ^ 64"
    using gen inv rcv_next_bound [OF inv] by (auto simp: seg_genuine_def sr_consistent_def rcv_inv_def)
  ultimately show ?thesis using near by (simp add: unwrap_wrap_near rcv_near_def)
qed

text \<open>A genuine segment is pushed at its stream index.\<close>

lemma segment_received_push:
  assumes inv: "rcv_inv S L isn r" and gen: "seg_genuine S L isn a seg" and near: "rcv_near r a"
    and syn: "rcv_is_listen r \<longrightarrow> th_syn (seg_header seg)"
  shows "TCPReceiver_segment_received seg r = map_option (\<lambda>s. rcv_open isn r\<lparr>rcv_reassembler := s\<rparr>)
    (StreamReassembler_push_substring (Buffer_str (seg_payload seg)) (a - 1) (th_fin (seg_header seg)) (rcv_reassembler r))"
proof -
  let ?r = "rcv_open isn r"
  have "th_seqno (seg_header seg) = isn" if "rcv_is_listen r"
    using that syn gen by (cases isn) (simp add: seg_genuine_def wrap_def wi_plus_def)
  then have opened: "(if TCPReceiver_state r = RcvListen
      then r\<lparr>rcv_is_listen := False, rcv_isn := Some (th_seqno (seg_header seg))\<rparr> else r) = ?r"
    using rcv_state [OF inv] rcv_open_same [OF inv] by (auto simp: rcv_open_def)
  have ack: "TCPReceiver_abs_ack_no ?r = rcv_next r"
    using rcv_abs_ack_no [OF rcv_open_inv [OF inv]] by simp
  have idx: "sub64 (max a 1) 1 = a - 1"
    using gen inv by (subst sub64_exact) (auto simp: seg_genuine_def sr_consistent_def rcv_inv_def)
  have go: "\<not> (TCPReceiver_state r = RcvListen \<and> \<not> th_syn (seg_header seg))"
    using syn rcv_state [OF inv] by auto
  have pos: "0 < max a 1" by simp
  show ?thesis
    unfolding TCPReceiver_segment_received_def if_not_P [OF go] Let_def opened ack
      rcv_open_simps Option.bind.simps rcv_unwrap [OF inv gen near] if_P [OF pos] idx Buffer_size_simps
    by (cases "StreamReassembler_push_substring (Buffer_str (seg_payload seg)) (a - 1)
      (th_fin (seg_header seg)) (rcv_reassembler r)") simp_all
qed

section \<open>Sequences of segments and reads\<close>

text \<open>\<open>Arrive a seg\<close>: a segment whose first position has the absolute sequence number \<open>a\<close>.\<close>

datatype rcv_event = Arrive nat TCPSegment | Consume nat

fun rcv_call :: "TCPReceiver \<Rightarrow> rcv_event \<Rightarrow> TCPReceiver option" where
  "rcv_call r (Arrive a seg) = TCPReceiver_segment_received seg r"
| "rcv_call r (Consume n) =
     map_option (\<lambda>s. r\<lparr>rcv_reassembler := s\<rparr>) (sr_call (rcv_reassembler r) (Pop n))"

fun rcv_guard :: "(nat \<Rightarrow> u8) \<Rightarrow> nat \<Rightarrow> WrappingInt32 \<Rightarrow> TCPReceiver \<Rightarrow> rcv_event \<Rightarrow> bool" where
  "rcv_guard S L isn r (Arrive a seg) \<longleftrightarrow> seg_genuine S L isn a seg \<and> rcv_near r a \<and>
     (seg_empty seg \<or> sr_in_window (rcv_reassembler r) (Buffer_str (seg_payload seg)) (a - 1) \<or>
      sr_probe (rcv_reassembler r) (Buffer_str (seg_payload seg)) (a - 1))"
| "rcv_guard S L isn r (Consume n) \<longleftrightarrow> True"

fun rcv_window_guard :: "(nat \<Rightarrow> u8) \<Rightarrow> nat \<Rightarrow> WrappingInt32 \<Rightarrow> TCPReceiver \<Rightarrow> rcv_event \<Rightarrow> bool" where
  "rcv_window_guard S L isn r (Arrive a seg) \<longleftrightarrow> seg_genuine S L isn a seg \<and> rcv_near r a \<and>
     (seg_empty seg \<or> sr_in_window (rcv_reassembler r) (Buffer_str (seg_payload seg)) (a - 1))"
| "rcv_window_guard S L isn r (Consume n) \<longleftrightarrow> True"

text \<open>The stream positions that arrive after the SYN was seen; \<open>l\<close> says that it was not yet.\<close>

fun rcv_covered :: "bool \<Rightarrow> rcv_event list \<Rightarrow> nat set" where
  "rcv_covered l [] = {}"
| "rcv_covered l (Arrive a seg # es) =
     (if l \<and> \<not> th_syn (seg_header seg) then rcv_covered l es
      else {a - 1..<a - 1 + length (Buffer_str (seg_payload seg))} \<union> rcv_covered False es)"
| "rcv_covered l (Consume n # es) = rcv_covered l es"

lemma rcv_ignored:
  assumes "rcv_inv S L isn r" and "rcv_is_listen r" and "\<not> th_syn (seg_header seg)"
  shows "TCPReceiver_segment_received seg r = Some r"
  using assms rcv_state [OF assms(1)] by (simp add: TCPReceiver_segment_received_def)

lemma rcv_pushed_inv:
  assumes "rcv_inv S L isn r" and "sr_step S L eof (rcv_reassembler r) s"
  shows "rcv_inv S L isn (rcv_open isn r\<lparr>rcv_reassembler := s\<rparr>)"
  using assms by (simp add: rcv_inv_def sr_step_def TCPReceiver_stream_out_def rcv_open_def)

lemma rcv_arrive:
  assumes inv: "rcv_inv S L isn r" and guard: "rcv_guard S L isn r (Arrive a seg)"
    and syn: "rcv_is_listen r \<longrightarrow> th_syn (seg_header seg)"
  obtains s where "TCPReceiver_segment_received seg r = Some (rcv_open isn r\<lparr>rcv_reassembler := s\<rparr>)"
    and "sr_step S L (th_fin (seg_header seg)) (rcv_reassembler r) s"
    and "rcv_window_guard S L isn r (Arrive a seg) \<longrightarrow> sr_received s = sr_received (rcv_reassembler r) \<union>
      {a - 1..<a - 1 + length (Buffer_str (seg_payload seg))}"
    and "sr_received s \<subseteq> sr_received (rcv_reassembler r) \<union>
      {a - 1..<a - 1 + length (Buffer_str (seg_payload seg))}"
proof -
  let ?s = "rcv_reassembler r" and ?data = "Buffer_str (seg_payload seg)" and ?fin = "th_fin (seg_header seg)"
  have gen: "seg_genuine S L isn a seg" and near: "rcv_near r a"
    and adm: "seg_empty seg \<or> sr_in_window ?s ?data (a - 1) \<or> sr_probe ?s ?data (a - 1)" using guard by simp_all
  have sr: "sr_inv S L ?s" and a: "a - 1 < 2 ^ 64" using inv gen by (auto simp: rcv_inv_def seg_genuine_def)
  note push = segment_received_push [OF inv gen near syn]
  show ?thesis
  proof (cases "seg_empty seg")
    case True
    then have "?data = []" "\<not> ?fin" by (simp_all add: seg_empty_def)
    moreover have "sr_step S L False ?s ?s" using sr by (simp add: sr_step_def)
    ultimately show ?thesis using push_empty [OF sr a] push by (intro that [of ?s]) simp_all
  next
    case nonempty: False
    then have con: "sr_consistent S L ?data (a - 1) ?fin" using gen by (simp add: seg_genuine_def)
    show ?thesis
    proof (cases "sr_in_window ?s ?data (a - 1)")
      case True
      show ?thesis
        by (rule push_in_window [OF sr con True]) (rule that, simp add: push, assumption, rule impI, assumption, rule equalityD1, assumption)
    next
      case False
      with adm nonempty have probe: "sr_probe ?s ?data (a - 1)" by simp
      show ?thesis
        by (rule push_probe [OF sr con probe]) (rule that, simp add: push, assumption, use False nonempty in simp, simp)
    qed
  qed
qed

lemma rcv_consume:
  assumes inv: "rcv_inv S L isn r"
  obtains s where "rcv_call r (Consume n) = Some (r\<lparr>rcv_reassembler := s\<rparr>)"
    and "rcv_inv S L isn (r\<lparr>rcv_reassembler := s\<rparr>)" and "sr_received s = sr_received (rcv_reassembler r)"
    and "sr_written s = sr_written (rcv_reassembler r)" and "sr_eof_index s = sr_eof_index (rcv_reassembler r)"
proof -
  have sr: "sr_inv S L (rcv_reassembler r)" using inv by (simp add: rcv_inv_def)
  obtain s where s: "sr_call (rcv_reassembler r) (Pop n) = Some s" "sr_inv S L s"
    "sr_received s = sr_received (rcv_reassembler r)" "sr_eof_index s = sr_eof_index (rcv_reassembler r)"
    "sr_capacity s = sr_capacity (rcv_reassembler r)" "sr_written s = sr_written (rcv_reassembler r)"
    "bs_error (sr_output s) = bs_error (sr_output (rcv_reassembler r))"
    by (rule sr_pop [OF sr])
  then have "rcv_inv S L isn (r\<lparr>rcv_reassembler := s\<rparr>)"
    using inv by (simp add: rcv_inv_def TCPReceiver_stream_out_def)
  then show ?thesis using s by (intro that [of s]) (simp_all del: sr_call.simps(2))
qed

lemma rcv_call_step:
  assumes "rcv_inv S L isn r" and "rcv_guard S L isn r e"
  obtains t where "rcv_call r e = Some t" and "rcv_inv S L isn t"
proof (cases e)
  case (Arrive a seg)
  show ?thesis
  proof (cases "rcv_is_listen r \<and> \<not> th_syn (seg_header seg)")
    case True
    then show ?thesis using rcv_ignored [OF assms(1)] Arrive assms(1) by (intro that [of r]) auto
  next
    case False
    then obtain s where "TCPReceiver_segment_received seg r = Some (rcv_open isn r\<lparr>rcv_reassembler := s\<rparr>)"
      "sr_step S L (th_fin (seg_header seg)) (rcv_reassembler r) s"
      using assms Arrive by (metis rcv_arrive)
    then show ?thesis using rcv_pushed_inv [OF assms(1)] Arrive by (intro that) simp_all
  qed
next
  case (Consume n)
  then show ?thesis by (metis rcv_consume [OF assms(1)] that)
qed

interpretation rcv: machine rcv_call "rcv_inv S L isn" "rcv_guard S L isn" for S L isn
proof unfold_locales
  show "\<exists>t. rcv_call s e = Some t \<and> rcv_inv S L isn t" if "rcv_inv S L isn s" "rcv_guard S L isn s e" for s e
    by (rule rcv_call_step [OF that]) blast
qed

lemma rcv_window_guard_imp: "rcv_window_guard S L isn r e \<Longrightarrow> rcv_guard S L isn r e"
  by (cases e) auto

lemma rcv_call_covered:
  assumes inv: "rcv_inv S L isn r" and guard: "rcv_window_guard S L isn r e" and call: "rcv_call r e = Some t"
  shows "sr_received (rcv_reassembler t) = sr_received (rcv_reassembler r) \<union> rcv_covered (rcv_is_listen r) [e] \<and>
    rcv_covered (rcv_is_listen r) (e # es) = rcv_covered (rcv_is_listen r) [e] \<union> rcv_covered (rcv_is_listen t) es"
proof (cases e)
  case (Arrive a seg)
  show ?thesis
  proof (cases "rcv_is_listen r \<and> \<not> th_syn (seg_header seg)")
    case True
    then show ?thesis using rcv_ignored [OF inv] Arrive call by simp
  next
    case False
    have g: "rcv_guard S L isn r (Arrive a seg)" using guard Arrive rcv_window_guard_imp by blast
    obtain s where s: "TCPReceiver_segment_received seg r = Some (rcv_open isn r\<lparr>rcv_reassembler := s\<rparr>)"
      "rcv_window_guard S L isn r (Arrive a seg) \<longrightarrow> sr_received s = sr_received (rcv_reassembler r) \<union>
        {a - 1..<a - 1 + length (Buffer_str (seg_payload seg))}"
      by (rule rcv_arrive [OF inv g]) (use False in auto)
    then have "t = rcv_open isn r\<lparr>rcv_reassembler := s\<rparr>" using call Arrive by simp
    then show ?thesis using s(2) guard Arrive False by (auto simp: rcv_open_def)
  qed
next
  case (Consume n)
  obtain s where "rcv_call r (Consume n) = Some (r\<lparr>rcv_reassembler := s\<rparr>)"
    "sr_received s = sr_received (rcv_reassembler r)" by (rule rcv_consume [OF inv])
  then have "t = r\<lparr>rcv_reassembler := s\<rparr>" "sr_received s = sr_received (rcv_reassembler r)"
    using Consume call by (simp_all del: rcv_call.simps)
  then show ?thesis using Consume by simp
qed

lemma rcv_run_covered:
  "rcv_inv S L isn r \<Longrightarrow> guarded (rcv_window_guard S L isn) rcv_call r es \<Longrightarrow> run rcv_call r es = Some t \<Longrightarrow>
   sr_received (rcv_reassembler t) = sr_received (rcv_reassembler r) \<union> rcv_covered (rcv_is_listen r) es"
proof (induction es arbitrary: r)
  case (Cons e es)
  obtain u where u: "rcv_call r e = Some u" "run rcv_call u es = Some t"
    and g: "rcv_window_guard S L isn r e" "guarded (rcv_window_guard S L isn) rcv_call u es"
    using Cons.prems(2,3) by (auto split: option.splits simp del: rcv_call.simps)
  have inv: "rcv_inv S L isn u"
    using rcv_call_step [OF Cons.prems(1) rcv_window_guard_imp [OF g(1)]] u(1) by (metis option.inject)
  show ?case
    using rcv_call_covered [OF Cons.prems(1) g(1) u(1), of es] Cons.IH [OF inv g(2) u(2)] by auto
qed simp

lemma rcv_run_capacity: "run rcv_call r es = Some t \<Longrightarrow> rcv_capacity t = rcv_capacity r"
proof (induction es arbitrary: r)
  case (Cons e es)
  then obtain u where u: "rcv_call r e = Some u" "run rcv_call u es = Some t"
    by (auto split: option.splits simp del: rcv_call.simps)
  have "rcv_capacity u = rcv_capacity r"
    using u(1) by (cases e) (auto simp: TCPReceiver_segment_received_def Let_def bind_eq_Some_conv
      split: if_splits)
  with Cons.IH [OF u(2)] show ?case by simp
qed simp

text \<open>What the invariant says of the answers of the receiver.\<close>

lemma rcv_inv_answers:
  assumes inv: "rcv_inv S L isn r"
  shows "bs_content (TCPReceiver_stream_out r) = map S [sr_read (rcv_reassembler r)..<sr_written (rcv_reassembler r)]"
    and "{..<sr_written (rcv_reassembler r)} \<subseteq> sr_received (rcv_reassembler r)"
    and "sr_written (rcv_reassembler r) \<notin> sr_received (rcv_reassembler r)"
    and "TCPReceiver_ackno r = Some (if rcv_is_listen r then None else Some (wrap (rcv_next r) isn))"
    and "sr_written (rcv_reassembler r) + TCPReceiver_window_size r = sr_read (rcv_reassembler r) + rcv_capacity r"
    and "bs_input_ended (TCPReceiver_stream_out r) \<Longrightarrow> sr_written (rcv_reassembler r) = L"
proof -
  let ?s = "rcv_reassembler r"
  have sr: "sr_inv S L ?s" using inv by (simp add: rcv_inv_def)
  note b = sr_inv_bounds [OF sr]
  show "bs_content (TCPReceiver_stream_out r) = map S [sr_read ?s..<sr_written ?s]"
    using b(9) by (simp add: out_inv_def TCPReceiver_stream_out_def)
  show "{..<sr_written ?s} \<subseteq> sr_received ?s" by (auto simp: sr_received_def)
  show "sr_written ?s \<notin> sr_received ?s" using ub_inv_above [OF b(10)] by (fastforce simp: sr_received_def)
  show "TCPReceiver_ackno r = Some (if rcv_is_listen r then None else Some (wrap (rcv_next r) isn))"
    using inv rcv_state [OF inv] rcv_abs_ack_no [OF inv] by (auto simp: TCPReceiver_ackno_def rcv_inv_def)
  have used: "ByteStream_buffer_size (TCPReceiver_stream_out r) = sr_written ?s - sr_read ?s"
    using out_inv_used [OF b(9)] by (simp add: ByteStream_buffer_size_def TCPReceiver_stream_out_def)
  have "TCPReceiver_window_size r = rcv_capacity r - (sr_written ?s - sr_read ?s)"
    unfolding TCPReceiver_window_size_def used using inv b by (intro sub64_exact) (auto simp: rcv_inv_def)
  then show "sr_written ?s + TCPReceiver_window_size r = sr_read ?s + rcv_capacity r"
    using inv b(5,6) by (simp add: rcv_inv_def)
  show "bs_input_ended (TCPReceiver_stream_out r) \<Longrightarrow> sr_written ?s = L"
    using sr by (auto simp: sr_inv_def TCPReceiver_stream_out_def)
qed

section \<open>The properties\<close>

declare rcv_next_def [sponge_eval] rcv_near_def [sponge_eval]

text \<open>C16. Genuine segments of one stream arrive in any order, repeated and overlapping, each within
  the window and less than 2 to the 31 from the acknowledgment number, mixed with reads. No call
  fails; the output is the stream up to the first position not received since the SYN; the
  acknowledgment number is the sequence number of exactly that position (one more when the FIN
  was reached); the window ends where the reader plus the capacity ends.\<close>

theorem TCPReceiver_acknowledges:
  assumes "0 < capacity" and "capacity < 2 ^ 63" and "L + 2 < 2 ^ 64"
    and "guarded (rcv_window_guard S L isn) rcv_call (TCPReceiver_init capacity) es"
  shows "\<exists>t n. run rcv_call (TCPReceiver_init capacity) es = Some t \<and>
     n = bs_bytes_written (TCPReceiver_stream_out t) \<and>
     bs_content (TCPReceiver_stream_out t) = map S [bs_bytes_read (TCPReceiver_stream_out t)..<n] \<and>
     {..<n} \<subseteq> rcv_covered True es \<and> n \<notin> rcv_covered True es \<and>
     TCPReceiver_ackno t = Some (if rcv_is_listen t then None
       else Some (wrap (if bs_input_ended (TCPReceiver_stream_out t) then L + 2 else n + 1) isn)) \<and>
     n + TCPReceiver_window_size t = bs_bytes_read (TCPReceiver_stream_out t) + capacity"
proof -
  let ?r = "TCPReceiver_init capacity"
  have inv: "rcv_inv S L isn ?r" using assms(1-3) by (rule rcv_inv_init)
  have g: "guarded (rcv_guard S L isn) rcv_call ?r es" using assms(4) rcv_window_guard_imp by (rule guarded_mono)
  then obtain t where t: "run rcv_call ?r es = Some t" "rcv_inv S L isn t" using rcv.run_progress [OF inv] by blast
  note a = rcv_inv_answers [OF t(2)]
  have "sr_received (rcv_reassembler t) = rcv_covered True es"
    using rcv_run_covered [OF inv assms(4) t(1)] sr_received_init by (simp add: TCPReceiver_init_def)
  moreover have "rcv_next t = (if bs_input_ended (TCPReceiver_stream_out t) then L + 2 else sr_written (rcv_reassembler t) + 1)"
    using a(6) by (simp add: rcv_next_def)
  moreover have "rcv_capacity t = capacity"
    using rcv_run_capacity [OF t(1)] by (simp add: TCPReceiver_init_def)
  ultimately show ?thesis using t(1) a
    by (intro exI [of _ t] exI [of _ "sr_written (rcv_reassembler t)"]) (simp_all add: TCPReceiver_stream_out_def)
qed

definition example_segment :: "u32 \<Rightarrow> bool \<Rightarrow> bool \<Rightarrow> bytes \<Rightarrow> TCPSegment" where
  "example_segment seqno syn fin data = \<lparr>seg_header = TCPHeader_default\<lparr>th_seqno := WrappingInt32 seqno,
     th_syn := syn, th_fin := fin\<rparr>, seg_payload = Buffer_init data\<rparr>"

theorem TCPReceiver_acknowledges_witness:
  "\<exists>t n. run rcv_call (TCPReceiver_init 8) [Arrive 0 (example_segment 7 True False []),
       Arrive 2 (example_segment 9 False True [1, 2]), Arrive 1 (example_segment 8 False False [0])] = Some t \<and>
     n = bs_bytes_written (TCPReceiver_stream_out t) \<and>
     bs_content (TCPReceiver_stream_out t) = map of_nat [bs_bytes_read (TCPReceiver_stream_out t)..<n] \<and>
     {..<n} \<subseteq> rcv_covered True [Arrive 0 (example_segment 7 True False []),
       Arrive 2 (example_segment 9 False True [1, 2]), Arrive 1 (example_segment 8 False False [0])] \<and>
     n \<notin> rcv_covered True [Arrive 0 (example_segment 7 True False []),
       Arrive 2 (example_segment 9 False True [1, 2]), Arrive 1 (example_segment 8 False False [0])] \<and>
     TCPReceiver_ackno t = Some (if rcv_is_listen t then None
       else Some (wrap (if bs_input_ended (TCPReceiver_stream_out t) then 3 + 2 else n + 1) (WrappingInt32 7))) \<and>
     n + TCPReceiver_window_size t = bs_bytes_read (TCPReceiver_stream_out t) + 8"
  by (rule TCPReceiver_acknowledges) (simp_all add: sponge_eval example_segment_def cong: eval_cong)

text \<open>A receiver whose stream has an error before any SYN was seen has no initial sequence
  number to ask: the next segment throws. Its acknowledgment number is absent.\<close>

theorem TCPReceiver_error_before_syn:
  assumes "bs_error (TCPReceiver_stream_out r)" and "rcv_isn r = None"
  shows "TCPReceiver_segment_received seg r = None \<and> TCPReceiver_ackno r = Some None"
  using assms by (simp add: TCPReceiver_segment_received_def TCPReceiver_state_def TCPReceiver_ackno_def Let_def)

theorem TCPReceiver_error_before_syn_witness:
  "let r = TCPReceiver_init 8\<lparr>rcv_reassembler := (StreamReassembler_init 8)\<lparr>sr_output := ByteStream_set_error (ByteStream_init 8)\<rparr>\<rparr> in
   TCPReceiver_segment_received TCPSegment_default r = None \<and> TCPReceiver_ackno r = Some None"
  unfolding Let_def
  by (rule TCPReceiver_error_before_syn) (simp_all add: sponge_eval)

end
