(* ===== verification/TCP_Sender.thy ===== *)
theory TCP_Sender
  imports Genuine_Segments
begin

text \<open>
  TCPConfig (libsponge/tcp\_helpers/tcp\_config.hh), Timer and TCPSender (libsponge/
  tcp\_sender.hh, tcp\_sender.cc): the outgoing stream is cut into segments that fit the peer's
  window; segments stay outstanding until they are acknowledged, and the oldest one is sent
  again when the retransmission timer expires.

  Queues are lists with the front first. The loop of \<open>fill_window\<close> is a
  \<open>partial_function\<close>; it is shown to return. The failing assertion of \<open>tick\<close> is \<open>None\<close>; it is
  shown not to fail.
\<close>

section \<open>TCPConfig\<close>

definition DEFAULT_CAPACITY :: u64 where
  "DEFAULT_CAPACITY = 64000"

definition MAX_PAYLOAD_SIZE :: u64 where
  "MAX_PAYLOAD_SIZE = 1000"

definition TIMEOUT_DFLT :: u16 where
  "TIMEOUT_DFLT = 1000"

definition MAX_RETX_ATTEMPTS :: u64 where
  "MAX_RETX_ATTEMPTS = 8"

record TCPConfig =
  cfg_rt_timeout :: u16
  cfg_recv_capacity :: u64
  cfg_send_capacity :: u64
  cfg_fixed_isn :: "WrappingInt32 option"

definition TCPConfig_default :: TCPConfig where
  "TCPConfig_default = \<lparr>cfg_rt_timeout = TIMEOUT_DFLT, cfg_recv_capacity = DEFAULT_CAPACITY,
     cfg_send_capacity = DEFAULT_CAPACITY, cfg_fixed_isn = None\<rparr>"

section \<open>Timer\<close>

record Timer =
  tm_timeout_ms :: u64
  tm_elapsed_ms :: u64
  tm_started :: bool

definition Timer_init :: "u64 \<Rightarrow> Timer" where
  "Timer_init timeout_ms = \<lparr>tm_timeout_ms = timeout_ms, tm_elapsed_ms = 0, tm_started = False\<rparr>"

definition Timer_reset :: "Timer \<Rightarrow> Timer" where
  "Timer_reset t = t\<lparr>tm_elapsed_ms := 0, tm_started := False\<rparr>"

definition Timer_restart :: "Timer \<Rightarrow> Timer" where
  "Timer_restart t = (Timer_reset t)\<lparr>tm_started := True\<rparr>"

definition Timer_reset_timeout :: "u64 \<Rightarrow> Timer \<Rightarrow> Timer" where
  "Timer_reset_timeout timeout_ms t = Timer_reset (t\<lparr>tm_timeout_ms := timeout_ms\<rparr>)"

definition Timer_tick :: "u64 \<Rightarrow> Timer \<Rightarrow> Timer" where
  "Timer_tick ms t = (if tm_started t then t\<lparr>tm_elapsed_ms := add64 (tm_elapsed_ms t) ms\<rparr> else t)"

definition Timer_expired :: "Timer \<Rightarrow> bool" where
  "Timer_expired t = (tm_started t \<and> tm_elapsed_ms t \<ge> tm_timeout_ms t)"

section \<open>TCPSender\<close>

datatype SenderState = SndError | SndClosed | SndSynSent | SndSynAcked | SndFinSent | SndFinAcked

record TCPSender =
  snd_isn :: WrappingInt32
  snd_segments_out :: "TCPSegment list"
  snd_outstanding_segments :: "TCPSegment list"
  snd_init_retransmission_timeout :: u32
  snd_stream :: ByteStream
  snd_timer :: Timer
  snd_retransmission_count :: u64
  snd_next_seq_no :: u64
  snd_last_ack_no :: u64
  snd_bytes_in_flight :: u64
  snd_window_size :: u64

text \<open>\<open>random\<close> is the value of \<open>std::random_device\<close>, used when no initial sequence number is
  given.\<close>

definition TCPSender_init :: "u64 \<Rightarrow> u16 \<Rightarrow> WrappingInt32 option \<Rightarrow> u32 \<Rightarrow> TCPSender" where
  "TCPSender_init capacity retx_timeout fixed_isn random =
     \<lparr>snd_isn = (case fixed_isn of Some isn \<Rightarrow> isn | None \<Rightarrow> WrappingInt32 random),
      snd_segments_out = [], snd_outstanding_segments = [],
      snd_init_retransmission_timeout = ucast retx_timeout, snd_stream = ByteStream_init capacity,
      snd_timer = Timer_init (unat retx_timeout), snd_retransmission_count = 0, snd_next_seq_no = 0,
      snd_last_ack_no = 0, snd_bytes_in_flight = 0, snd_window_size = 1\<rparr>"

definition TCPSender_state :: "TCPSender \<Rightarrow> SenderState" where
  "TCPSender_state s =
     (if bs_error (snd_stream s) then SndError
      else if snd_next_seq_no s = 0 then SndClosed
      else if snd_next_seq_no s = snd_bytes_in_flight s then SndSynSent
      else if \<not> ByteStream_eof (snd_stream s) \<or>
        snd_next_seq_no s < add64 (bs_bytes_written (snd_stream s)) 2 then SndSynAcked
      else if snd_bytes_in_flight s \<noteq> 0 then SndFinSent
      else SndFinAcked)"

definition TCPSender_send_segment :: "TCPSegment \<Rightarrow> TCPSender \<Rightarrow> TCPSender" where
  "TCPSender_send_segment seg s =
     (let seg_length = TCPSegment_length_in_sequence_space seg;
          s = s\<lparr>snd_next_seq_no := add64 (snd_next_seq_no s) seg_length,
            snd_bytes_in_flight := add64 (snd_bytes_in_flight s) seg_length,
            snd_segments_out := snd_segments_out s @ [seg],
            snd_outstanding_segments := snd_outstanding_segments s @ [seg]\<rparr> in
      if \<not> tm_started (snd_timer s) then s\<lparr>snd_timer := Timer_restart (snd_timer s)\<rparr> else s)"

definition TCPSender_free_window_size :: "TCPSender \<Rightarrow> u64" where
  "TCPSender_free_window_size s =
     (if snd_window_size s = 0 \<and> snd_next_seq_no s = snd_last_ack_no s then 1
      else if snd_window_size s \<le> sub64 (snd_next_seq_no s) (snd_last_ack_no s) then 0
      else sub64 (snd_window_size s) (sub64 (snd_next_seq_no s) (snd_last_ack_no s)))"

text \<open>The loop of \<open>fill_window\<close>.\<close>

partial_function (option) fill_loop :: "TCPSender \<Rightarrow> TCPSender option" where
  "fill_loop s =
     (let free_window = TCPSender_free_window_size s in
      if free_window = 0 then Some s
      else (let stream_size = ByteStream_buffer_size (snd_stream s);
          need_send_fin = (bs_input_ended (snd_stream s) \<and> TCPSender_state s = SndSynAcked) in
        if stream_size = 0 \<and> \<not> need_send_fin then Some s
        else do {
          let send_size = min (min stream_size free_window) MAX_PAYLOAD_SIZE;
          let seg = TCPSegment_default\<lparr>seg_header := TCPHeader_default\<lparr>th_seqno := wrap (snd_next_seq_no s) (snd_isn s)\<rparr>\<rparr>;
          (payload, stream) \<leftarrow> ByteStream_read send_size (snd_stream s);
          let s = s\<lparr>snd_stream := stream\<rparr>;
          let seg = seg\<lparr>seg_payload := Buffer_init payload\<rparr>;
          let seg = (if ByteStream_eof stream \<and> free_window > send_size \<and> need_send_fin
            then seg\<lparr>seg_header := (seg_header seg)\<lparr>th_fin := True\<rparr>\<rparr> else seg);
          fill_loop (TCPSender_send_segment seg s)
        }))"

definition TCPSender_fill_window :: "TCPSender \<Rightarrow> TCPSender option" where
  "TCPSender_fill_window s =
     (if TCPSender_state s = SndClosed
      then Some (TCPSender_send_segment (TCPSegment_default\<lparr>seg_header :=
        TCPHeader_default\<lparr>th_syn := True, th_seqno := snd_isn s\<rparr>\<rparr>) s)
      else fill_loop s)"

text \<open>The loop of \<open>ack_received\<close> over the outstanding segments.\<close>

fun ack_loop :: "u64 \<Rightarrow> TCPSegment list \<Rightarrow> TCPSender \<Rightarrow> TCPSender" where
  "ack_loop abs_ack_no [] s = s\<lparr>snd_outstanding_segments := []\<rparr>"
| "ack_loop abs_ack_no (seg # segs) s =
     (let abs_seq_no = unwrap (th_seqno (seg_header seg)) (snd_isn s) (snd_last_ack_no s) in
      if add64 abs_seq_no (TCPSegment_length_in_sequence_space seg) > abs_ack_no
      then s\<lparr>snd_timer := Timer_restart (snd_timer s), snd_outstanding_segments := seg # segs\<rparr>
      else ack_loop abs_ack_no segs (s\<lparr>snd_bytes_in_flight :=
        sub64 (snd_bytes_in_flight s) (TCPSegment_length_in_sequence_space seg)\<rparr>))"

definition TCPSender_ack_received :: "WrappingInt32 \<Rightarrow> u16 \<Rightarrow> TCPSender \<Rightarrow> TCPSender" where
  "TCPSender_ack_received ackno window_size s =
     (let abs_ack_no = unwrap ackno (snd_isn s) (snd_last_ack_no s) in
      if abs_ack_no \<le> snd_last_ack_no s \<or> abs_ack_no > snd_next_seq_no s
      then (if abs_ack_no = snd_last_ack_no s then s\<lparr>snd_window_size := unat window_size\<rparr> else s)
      else (let s = s\<lparr>snd_timer := Timer_reset_timeout (unat (snd_init_retransmission_timeout s)) (snd_timer s),
              snd_retransmission_count := 0\<rparr>;
            s = ack_loop abs_ack_no (snd_outstanding_segments s) s in
        s\<lparr>snd_window_size := unat window_size, snd_last_ack_no := abs_ack_no\<rparr>))"

definition TCPSender_tick :: "u64 \<Rightarrow> TCPSender \<Rightarrow> TCPSender option" where
  "TCPSender_tick ms s =
     (let s = s\<lparr>snd_timer := Timer_tick ms (snd_timer s)\<rparr> in
      if \<not> Timer_expired (snd_timer s) then Some s
      else (case snd_outstanding_segments s of
          [] \<Rightarrow> None
        | seg # _ \<Rightarrow>
            (let s = s\<lparr>snd_segments_out := snd_segments_out s @ [seg]\<rparr>;
                 s = (if snd_window_size s > 0 then
                   s\<lparr>snd_retransmission_count := add64 (snd_retransmission_count s) 1,
                     snd_timer := Timer_reset_timeout (mul64 (tm_timeout_ms (snd_timer s)) 2) (snd_timer s)\<rparr>
                   else s) in
             Some (s\<lparr>snd_timer := Timer_restart (snd_timer s)\<rparr>))))"

text \<open>The count is a \<open>size_t\<close>, returned as an \<open>unsigned int\<close>.\<close>

definition TCPSender_consecutive_retransmissions :: "TCPSender \<Rightarrow> u32" where
  "TCPSender_consecutive_retransmissions s = of_nat (snd_retransmission_count s)"

definition TCPSender_send_empty_segment :: "TCPSender \<Rightarrow> TCPSender" where
  "TCPSender_send_empty_segment s =
     (if snd_segments_out s = []
      then s\<lparr>snd_segments_out := [TCPSegment_default\<lparr>seg_header :=
        TCPHeader_default\<lparr>th_seqno := wrap (snd_next_seq_no s) (snd_isn s)\<rparr>\<rparr>]\<rparr>
      else s)"

definition TCPSender_next_seqno :: "TCPSender \<Rightarrow> WrappingInt32" where
  "TCPSender_next_seqno s = wrap (snd_next_seq_no s) (snd_isn s)"

declare MAX_PAYLOAD_SIZE_def [sponge_eval] TIMEOUT_DFLT_def [sponge_eval] DEFAULT_CAPACITY_def [sponge_eval]
  MAX_RETX_ATTEMPTS_def [sponge_eval] TCPConfig_default_def [sponge_eval] Timer_init_def [sponge_eval]
  Timer_reset_def [sponge_eval] Timer_restart_def [sponge_eval] Timer_reset_timeout_def [sponge_eval]
  Timer_tick_def [sponge_eval] Timer_expired_def [sponge_eval] TCPSender_init_def [sponge_eval]
  TCPSender_state_def [sponge_eval] TCPSender_send_segment_def [sponge_eval]
  TCPSender_free_window_size_def [sponge_eval] fill_loop.simps [sponge_eval]
  TCPSender_fill_window_def [sponge_eval] TCPSender_ack_received_def [sponge_eval]
  TCPSender_tick_def [sponge_eval] TCPSender_consecutive_retransmissions_def [sponge_eval]
  TCPSender_send_empty_segment_def [sponge_eval] TCPSender_next_seqno_def [sponge_eval]

section \<open>The invariant\<close>

text \<open>The stream that is sent is \<open>S\<close>, of length \<open>L\<close>. The next sequence number counts the SYN, the
  bytes read from the stream and the FIN; \<open>snd_una\<close> is the first sequence number of the oldest
  outstanding segment.\<close>

abbreviation snd_written :: "TCPSender \<Rightarrow> nat" where
  "snd_written s \<equiv> bs_bytes_written (snd_stream s)"

abbreviation snd_read :: "TCPSender \<Rightarrow> nat" where
  "snd_read s \<equiv> bs_bytes_read (snd_stream s)"

definition snd_una :: "TCPSender \<Rightarrow> nat" where
  "snd_una s = snd_next_seq_no s - snd_bytes_in_flight s"

lemma snd_una_update [simp]:
  "snd_una (s\<lparr>snd_stream := st\<rparr>) = snd_una s" "snd_una (s\<lparr>snd_segments_out := segs\<rparr>) = snd_una s"
  "snd_una (s\<lparr>snd_timer := t\<rparr>) = snd_una s" "snd_una (s\<lparr>snd_window_size := w\<rparr>) = snd_una s"
  "snd_una (s\<lparr>snd_retransmission_count := n\<rparr>) = snd_una s"
  by (simp_all add: snd_una_def)

definition snd_stream_ok :: "(nat \<Rightarrow> u8) \<Rightarrow> nat \<Rightarrow> TCPSender \<Rightarrow> bool" where
  "snd_stream_ok S L s \<longleftrightarrow> out_inv S (snd_stream s) \<and> 0 < bs_capacity (snd_stream s) \<and>
     snd_written s \<le> L \<and> L + 2 < 2 ^ 64 \<and> (bs_input_ended (snd_stream s) \<longrightarrow> snd_written s = L) \<and>
     (snd_next_seq_no s = 0 \<and> snd_read s = 0 \<or> snd_next_seq_no s = snd_read s + 1 \<or>
      snd_next_seq_no s = snd_read s + 2 \<and> snd_read s = L \<and> bs_input_ended (snd_stream s))"

definition snd_queue_ok :: "(nat \<Rightarrow> u8) \<Rightarrow> nat \<Rightarrow> TCPSender \<Rightarrow> bool" where
  "snd_queue_ok S L s \<longleftrightarrow> snd_bytes_in_flight s \<le> snd_next_seq_no s \<and>
     segs_from S L (snd_isn s) 1001 (snd_una s) (snd_outstanding_segments s) (snd_next_seq_no s) \<and>
     snd_una s \<le> snd_last_ack_no s \<and> snd_last_ack_no s \<le> snd_next_seq_no s \<and>
     (snd_outstanding_segments s \<noteq> [] \<longrightarrow> snd_last_ack_no s < snd_una s + seg_len (hd (snd_outstanding_segments s))) \<and>
     snd_next_seq_no s \<le> snd_last_ack_no s + 65535 \<and> snd_window_size s \<le> 65535 \<and>
     (tm_started (snd_timer s) \<longleftrightarrow> snd_outstanding_segments s \<noteq> [])"

definition snd_out_ok :: "(nat \<Rightarrow> u8) \<Rightarrow> nat \<Rightarrow> TCPSender \<Rightarrow> bool" where
  "snd_out_ok S L s \<longleftrightarrow> (\<forall>seg \<in> set (snd_segments_out s). \<exists>a. seg_genuine S L (snd_isn s) a seg \<and>
     a + seg_len seg \<le> snd_next_seq_no s)"

definition snd_inv :: "(nat \<Rightarrow> u8) \<Rightarrow> nat \<Rightarrow> TCPSender \<Rightarrow> bool" where
  "snd_inv S L s \<longleftrightarrow> snd_stream_ok S L s \<and> snd_queue_ok S L s \<and> snd_out_ok S L s"

lemma snd_inv_init:
  assumes "0 < capacity" and "capacity < 2 ^ 63" and "L + 2 < 2 ^ 64"
  shows "snd_inv S L (TCPSender_init capacity retx_timeout fixed_isn random)"
proof -
  have "out_inv S (ByteStream_init capacity)"
    using bs_inv_init [OF assms(2)] by (simp add: out_inv_def)
  then show ?thesis using assms
    by (simp add: snd_inv_def snd_stream_ok_def snd_queue_ok_def snd_out_ok_def snd_una_def
      TCPSender_init_def Timer_init_def)
qed

lemma snd_next_bound: "snd_stream_ok S L s \<Longrightarrow> snd_next_seq_no s \<le> L + 2 \<and> snd_next_seq_no s < 2 ^ 64"
  by (auto simp: snd_stream_ok_def out_inv_def)

lemma segs_from_genuine:
  "segs_from S L isn m a segs b \<Longrightarrow> seg \<in> set segs \<Longrightarrow>
   \<exists>c. seg_genuine S L isn c seg \<and> a \<le> c \<and> c + seg_len seg \<le> b"
proof (induction segs arbitrary: a)
  case (Cons x segs)
  show ?case
  proof (cases "seg = x")
    case True
    then show ?thesis using Cons.prems(1) segs_from_le [of S L isn m "a + seg_len x" segs b] by auto
  next
    case False
    then obtain c where "seg_genuine S L isn c seg" "a + seg_len x \<le> c" "c + seg_len seg \<le> b"
      using Cons.IH [of "a + seg_len x"] Cons.prems by auto
    then show ?thesis by auto
  qed
qed simp

lemma snd_queue_close:
  assumes "snd_queue_ok S L s"
  shows "snd_last_ack_no s \<le> snd_una s + 1001"
proof (cases "snd_outstanding_segments s")
  case Nil
  then show ?thesis using assms by (simp add: snd_queue_ok_def)
next
  case (Cons seg segs)
  then show ?thesis using assms by (auto simp: snd_queue_ok_def)
qed

lemma snd_in_flight_sum:
  assumes "snd_queue_ok S L s"
  shows "snd_bytes_in_flight s = sum_list (map seg_len (snd_outstanding_segments s))"
proof -
  have "segs_from S L (snd_isn s) 1001 (snd_una s) (snd_outstanding_segments s) (snd_next_seq_no s)"
    and "snd_bytes_in_flight s \<le> snd_next_seq_no s" using assms by (simp_all add: snd_queue_ok_def)
  then show ?thesis using segs_from_sum unfolding snd_una_def by fastforce
qed

text \<open>The last state means that the acknowledgment covers the FIN.\<close>

lemma fin_acked_last:
  assumes "snd_stream_ok S L s" and "snd_queue_ok S L s" and "TCPSender_state s = SndFinAcked"
  shows "snd_last_ack_no s = L + 2"
proof -
  have f: "snd_bytes_in_flight s = 0" "snd_next_seq_no s \<ge> add64 (snd_written s) 2" "ByteStream_eof (snd_stream s)"
    using assms(3) by (auto simp: TCPSender_state_def split: if_splits)
  have "snd_written s = L" "L + 2 < 2 ^ 64" "snd_next_seq_no s \<le> L + 2"
    using assms(1) f(3) snd_next_bound [OF assms(1)] by (auto simp: snd_stream_ok_def ByteStream_eof_def)
  then have "snd_next_seq_no s = L + 2" using f(2) by (simp add: add64_exact)
  then show ?thesis using assms(2) f(1) by (simp add: snd_queue_ok_def snd_una_def)
qed

section \<open>Sending a segment\<close>

lemma send_segment_fields:
  assumes "length (Buffer_str (seg_payload seg)) \<le> 1000" and "snd_next_seq_no s + seg_len seg < 2 ^ 64"
    and "snd_bytes_in_flight s \<le> snd_next_seq_no s"
  shows "TCPSender_send_segment seg s = s\<lparr>snd_next_seq_no := snd_next_seq_no s + seg_len seg,
      snd_bytes_in_flight := snd_bytes_in_flight s + seg_len seg,
      snd_segments_out := snd_segments_out s @ [seg],
      snd_outstanding_segments := snd_outstanding_segments s @ [seg],
      snd_timer := (if tm_started (snd_timer s) then snd_timer s else Timer_restart (snd_timer s))\<rparr>"
proof -
  have "TCPSegment_length_in_sequence_space seg = seg_len seg" using assms(1) by (intro seg_len_exact) simp
  then show ?thesis using assms(2,3)
    by (simp add: TCPSender_send_segment_def Let_def add64_exact)
qed

lemma send_segment_queue:
  assumes q: "snd_queue_ok S L s" and o: "snd_out_ok S L s"
    and gen: "seg_genuine S L (snd_isn s) (snd_next_seq_no s) seg"
    and len: "0 < seg_len seg" "seg_len seg \<le> 1001" "length (Buffer_str (seg_payload seg)) \<le> 1000"
    and room: "snd_next_seq_no s + seg_len seg \<le> snd_last_ack_no s + 65535"
    and wrap: "snd_next_seq_no s + seg_len seg < 2 ^ 64"
  shows "snd_queue_ok S L (TCPSender_send_segment seg s)" and "snd_out_ok S L (TCPSender_send_segment seg s)"
proof -
  have fl: "snd_bytes_in_flight s \<le> snd_next_seq_no s" using q by (simp add: snd_queue_ok_def)
  note f = send_segment_fields [OF len(3) wrap fl]
  have una: "snd_una (TCPSender_send_segment seg s) = snd_una s" unfolding f using fl by (simp add: snd_una_def)
  have segs: "segs_from S L (snd_isn s) 1001 (snd_una s) (snd_outstanding_segments s @ [seg])
      (snd_next_seq_no s + seg_len seg)"
    using q gen len by (auto simp: snd_queue_ok_def segs_from_append)
  have hd: "snd_last_ack_no s < snd_una s + seg_len (hd (snd_outstanding_segments s @ [seg]))"
    using q len(1) by (cases "snd_outstanding_segments s") (auto simp: snd_queue_ok_def)
  show "snd_queue_ok S L (TCPSender_send_segment seg s)"
    using q segs hd una room unfolding snd_queue_ok_def f
    by (auto simp: Timer_restart_def)
  show "snd_out_ok S L (TCPSender_send_segment seg s)"
    using o gen unfolding snd_out_ok_def f by fastforce
qed

section \<open>Filling the window\<close>

text \<open>What \<open>fill_window\<close> does to a sender: it sends \<open>new\<close> and touches nothing else but the stream
  it reads from and a stopped timer.\<close>

definition filled :: "(nat \<Rightarrow> u8) \<Rightarrow> nat \<Rightarrow> TCPSender \<Rightarrow> TCPSegment list \<Rightarrow> TCPSender \<Rightarrow> bool" where
  "filled S L s new t \<longleftrightarrow> snd_segments_out t = snd_segments_out s @ new \<and>
     snd_outstanding_segments t = snd_outstanding_segments s @ new \<and>
     segs_from S L (snd_isn s) 1001 (snd_next_seq_no s) new (snd_next_seq_no t) \<and>
     (\<forall>seg \<in> set new. length (Buffer_str (seg_payload seg)) \<le> MAX_PAYLOAD_SIZE \<and> plain seg) \<and>
     snd_isn t = snd_isn s \<and> snd_last_ack_no t = snd_last_ack_no s \<and> snd_window_size t = snd_window_size s \<and>
     snd_retransmission_count t = snd_retransmission_count s \<and>
     snd_init_retransmission_timeout t = snd_init_retransmission_timeout s \<and>
     tm_timeout_ms (snd_timer t) = tm_timeout_ms (snd_timer s) \<and>
     snd_written t = snd_written s \<and> bs_same_flags (snd_stream s) (snd_stream t) \<and>
     snd_next_seq_no t \<le> max (snd_next_seq_no s) (snd_last_ack_no s + max 1 (snd_window_size s))"

lemma filled_nil: "filled S L s [] s"
  by (simp add: filled_def)

lemma filled_trans:
  assumes "filled S L s xs t" and "filled S L t ys u"
  shows "filled S L s (xs @ ys) u"
  using assms by (auto simp: filled_def segs_from_append bs_same_flags_def max_def split: if_splits)

lemma free_window_exact:
  assumes "snd_queue_ok S L s" and "snd_next_seq_no s < 2 ^ 64"
  shows "TCPSender_free_window_size s = (if snd_window_size s = 0 \<and> snd_next_seq_no s = snd_last_ack_no s then 1
    else snd_window_size s - (snd_next_seq_no s - snd_last_ack_no s))"
proof -
  have "sub64 (snd_next_seq_no s) (snd_last_ack_no s) = snd_next_seq_no s - snd_last_ack_no s"
    using assms by (intro sub64_exact) (simp_all add: snd_queue_ok_def)
  then show ?thesis using assms by (auto simp: TCPSender_free_window_size_def snd_queue_ok_def sub64_exact)
qed

definition more_to_send :: "TCPSender \<Rightarrow> bool" where
  "more_to_send s \<longleftrightarrow> TCPSender_free_window_size s \<noteq> 0 \<and>
     (ByteStream_buffer_size (snd_stream s) \<noteq> 0 \<or> bs_input_ended (snd_stream s) \<and> TCPSender_state s = SndSynAcked)"

lemma fill_loop_done: "\<not> more_to_send s \<Longrightarrow> fill_loop s = Some s"
  by (subst fill_loop.simps) (auto simp: more_to_send_def Let_def)

text \<open>While the FIN is not sent, the next sequence number is the one of the next byte to read.\<close>

lemma more_to_send_next:
  assumes "snd_stream_ok S L s" and "0 < snd_next_seq_no s" and "more_to_send s"
  shows "snd_next_seq_no s = snd_read s + 1"
proof (rule ccontr)
  assume "snd_next_seq_no s \<noteq> snd_read s + 1"
  then have fin: "snd_next_seq_no s = snd_read s + 2" "snd_read s = L" "bs_input_ended (snd_stream s)"
    and w: "snd_written s = L" and inv: "out_inv S (snd_stream s)" and b: "L + 2 < 2 ^ 64"
    using assms(1,2) by (auto simp: snd_stream_ok_def)
  have used: "bs_used_size (snd_stream s) = 0" unfolding out_inv_used [OF inv] using w fin(2) by simp
  then have "TCPSender_state s = SndSynAcked"
    using assms(3) by (simp add: more_to_send_def ByteStream_buffer_size_def)
  moreover have "ByteStream_eof (snd_stream s)" using used fin(3) by (simp add: ByteStream_eof_def)
  ultimately have "snd_next_seq_no s < add64 (snd_written s) 2"
    by (auto simp: TCPSender_state_def split: if_splits)
  then show False using w fin b by (simp add: add64_exact)
qed

text \<open>The segment of one round of the loop.\<close>

definition fill_segment :: "(nat \<Rightarrow> u8) \<Rightarrow> TCPSender \<Rightarrow> nat \<Rightarrow> bool \<Rightarrow> TCPSegment" where
  "fill_segment S s n fin = \<lparr>seg_header = TCPHeader_default\<lparr>th_seqno := wrap (snd_next_seq_no s) (snd_isn s), th_fin := fin\<rparr>,
     seg_payload = Buffer_init (map S [snd_read s..<snd_read s + n])\<rparr>"

lemma fill_segment_simps [simp]:
  "Buffer_str (seg_payload (fill_segment S s n fin)) = map S [snd_read s..<snd_read s + n]"
  "th_seqno (seg_header (fill_segment S s n fin)) = wrap (snd_next_seq_no s) (snd_isn s)"
  "th_fin (seg_header (fill_segment S s n fin)) = fin" "\<not> th_syn (seg_header (fill_segment S s n fin))"
  "seg_len (fill_segment S s n fin) = n + (if fin then 1 else 0)" "plain (fill_segment S s n fin)"
  by (simp_all add: fill_segment_def TCPHeader_default_def seg_len_def plain_def)

lemma fill_segment_genuine:
  assumes "snd_stream_ok S L s" and "snd_next_seq_no s = snd_read s + 1"
    and "snd_read s + n \<le> snd_written s" and "fin \<longrightarrow> snd_read s + n = L"
  shows "seg_genuine S L (snd_isn s) (snd_next_seq_no s) (fill_segment S s n fin)"
  using assms by (auto simp: seg_genuine_def snd_stream_ok_def sr_consistent_def)

lemma fill_segment_filled:
  assumes inv: "snd_inv S L s" and nx: "snd_next_seq_no s = snd_read s + 1"
    and n: "snd_read s + n \<le> snd_written s" "n \<le> MAX_PAYLOAD_SIZE" and fin: "fin \<longrightarrow> snd_read s + n = L \<and> bs_input_ended (snd_stream s)"
    and len: "0 < n + (if fin then 1 else 0)" "n + (if fin then 1 else 0) \<le> TCPSender_free_window_size s"
    and st: "out_inv S st" "bs_bytes_written st = snd_written s" "bs_bytes_read st = snd_read s + n"
      "bs_same_flags (snd_stream s) st"
    and u: "u = TCPSender_send_segment (fill_segment S s n fin) (s\<lparr>snd_stream := st\<rparr>)"
  shows "snd_inv S L u" and "filled S L s [fill_segment S s n fin] u"
    and "TCPSender_free_window_size u < TCPSender_free_window_size s"
proof -
  let ?seg = "fill_segment S s n fin" and ?s = "s\<lparr>snd_stream := st\<rparr>"
  let ?k = "n + (if fin then 1 else 0)"
  have so: "snd_stream_ok S L s" and q: "snd_queue_ok S L s" and o: "snd_out_ok S L s"
    using inv by (simp_all add: snd_inv_def)
  have n1000: "n \<le> 1000" using n(2) by (simp add: MAX_PAYLOAD_SIZE_def)
  have nb: "snd_next_seq_no s < 2 ^ 64" using snd_next_bound [OF so] by simp
  have "snd_read s + n \<le> L" "L + 2 < 2 ^ 64" using n(1) so by (auto simp: snd_stream_ok_def)
  then have wrap: "snd_next_seq_no s + ?k < 2 ^ 64" using nx by (auto split: if_splits)
  have free: "TCPSender_free_window_size s = (if snd_window_size s = 0 \<and> snd_next_seq_no s = snd_last_ack_no s then 1
      else snd_window_size s - (snd_next_seq_no s - snd_last_ack_no s))" by (rule free_window_exact [OF q nb])
  have le: "snd_last_ack_no s \<le> snd_next_seq_no s" "snd_window_size s \<le> 65535" using q by (simp_all add: snd_queue_ok_def)
  have edge: "snd_next_seq_no s + ?k \<le> snd_last_ack_no s + max 1 (snd_window_size s)"
    using len free le by (auto split: if_splits)
  have q': "snd_queue_ok S L ?s" and o': "snd_out_ok S L ?s"
    using q o by (simp_all add: snd_queue_ok_def snd_out_ok_def)
  have gen: "seg_genuine S L (snd_isn s) (snd_next_seq_no s) ?seg"
    using fill_segment_genuine [OF so nx n(1)] fin by simp
  have qo: "snd_queue_ok S L u" "snd_out_ok S L u"
    unfolding u using edge le wrap gen n1000 len(1)
    by (intro send_segment_queue [OF q' o']; simp)+
  have fl: "snd_bytes_in_flight s \<le> snd_next_seq_no s" using q by (simp add: snd_queue_ok_def)
  have f: "u = ?s\<lparr>snd_next_seq_no := snd_next_seq_no s + ?k, snd_bytes_in_flight := snd_bytes_in_flight s + ?k,
      snd_segments_out := snd_segments_out s @ [?seg], snd_outstanding_segments := snd_outstanding_segments s @ [?seg],
      snd_timer := (if tm_started (snd_timer s) then snd_timer s else Timer_restart (snd_timer s))\<rparr>"
    unfolding u using n1000 wrap fl by (subst send_segment_fields) simp_all
  have "snd_stream_ok S L u"
    using so nx fin st n(1) unfolding f by (auto simp: snd_stream_ok_def bs_same_flags_def)
  then show "snd_inv S L u" using qo by (simp add: snd_inv_def)
  show "filled S L s [?seg] u"
    using gen len(1) n1000 st edge unfolding filled_def f
    by (auto simp: MAX_PAYLOAD_SIZE_def Timer_restart_def Timer_reset_def)
  have "snd_next_seq_no u < 2 ^ 64" using wrap unfolding f by simp
  then have "TCPSender_free_window_size u = (if snd_window_size s = 0 \<and> snd_next_seq_no s + ?k = snd_last_ack_no s then 1
      else snd_window_size s - (snd_next_seq_no s + ?k - snd_last_ack_no s))"
    using free_window_exact [OF qo(1)] unfolding f by simp
  then show "TCPSender_free_window_size u < TCPSender_free_window_size s"
    using free le len by auto
qed

lemma fill_loop_round:
  assumes inv: "snd_inv S L s" and pos: "0 < snd_next_seq_no s" and more: "more_to_send s"
  obtains seg u where "fill_loop s = fill_loop u" and "snd_inv S L u" and "filled S L s [seg] u"
    and "TCPSender_free_window_size u < TCPSender_free_window_size s" and "0 < snd_next_seq_no u"
proof -
  let ?out = "snd_stream s" and ?free = "TCPSender_free_window_size s"
  define need where "need \<longleftrightarrow> bs_input_ended ?out \<and> TCPSender_state s = SndSynAcked"
  define n where "n = min (min (snd_written s - snd_read s) ?free) MAX_PAYLOAD_SIZE"
  have so: "snd_stream_ok S L s" using inv by (simp add: snd_inv_def)
  then have out: "out_inv S ?out" and cap: "0 < bs_capacity ?out" by (simp_all add: snd_stream_ok_def)
  have used: "bs_used_size ?out = snd_written s - snd_read s" by (rule out_inv_used [OF out])
  have le: "snd_read s \<le> snd_written s" using out by (simp add: out_inv_def)
  have m: "n = min n (snd_written s - snd_read s)" by (simp add: n_def)
  obtain st where st: "ByteStream_read n ?out = Some (map S [snd_read s..<snd_read s + n], st)" "out_inv S st"
    "bs_bytes_written st = snd_written s" "bs_bytes_read st = snd_read s + n" "bs_same_flags ?out st"
    by (rule out_read [OF out cap m])
  have eof: "ByteStream_eof st \<longleftrightarrow> snd_written s = snd_read s + n \<and> bs_input_ended ?out"
    using st(3-5) n_def le by (auto simp: ByteStream_eof_def bs_same_flags_def out_inv_used [OF st(2)])
  define fin where "fin \<longleftrightarrow> ByteStream_eof st \<and> n < ?free \<and> need"
  define u where "u = TCPSender_send_segment (fill_segment S s n fin) (s\<lparr>snd_stream := st\<rparr>)"
  have free: "?free \<noteq> 0" and work: "snd_written s - snd_read s \<noteq> 0 \<or> need"
    using more by (auto simp: more_to_send_def need_def ByteStream_buffer_size_def used)
  have work': "\<not> (snd_written s - snd_read s = 0 \<and> \<not> need)" using work by blast
  have loop: "fill_loop s = fill_loop u"
    unfolding fill_loop.simps [of s] Let_def ByteStream_buffer_size_def used need_def [symmetric]
      if_not_P [OF free] if_not_P [OF work'] n_def [symmetric] st(1) Option.bind.simps prod.case fin_def [symmetric]
    by (cases fin) (simp_all add: u_def fill_segment_def TCPSegment_default_def TCPHeader_default_def)
  have nx: "snd_next_seq_no s = snd_read s + 1" by (rule more_to_send_next [OF so pos more])
  have fin': "fin \<longrightarrow> snd_read s + n = L \<and> bs_input_ended ?out"
  proof
    assume fin
    then have "snd_written s = snd_read s + n" "bs_input_ended ?out" using eof by (simp_all add: fin_def)
    then show "snd_read s + n = L \<and> bs_input_ended ?out" using so by (simp add: snd_stream_ok_def)
  qed
  have "0 < n \<or> n = 0 \<and> snd_written s = snd_read s"
    using free le by (cases "snd_written s = snd_read s") (simp_all add: n_def MAX_PAYLOAD_SIZE_def)
  then have len: "0 < n + (if fin then 1 else 0)" using work free eof by (auto simp: fin_def need_def)
  have "n \<le> ?free" by (simp add: n_def)
  then have len': "n + (if fin then 1 else 0) \<le> ?free" by (simp add: fin_def)
  have b: "snd_read s + n \<le> snd_written s" "n \<le> MAX_PAYLOAD_SIZE" using le by (auto simp: n_def)
  note f = fill_segment_filled [OF inv nx b fin' len len' st(2-5) u_def]
  have "0 < snd_next_seq_no u" using f(2) pos segs_from_le by (fastforce simp: filled_def)
  from loop f this show ?thesis by (rule that)
qed

lemma fill_loop_returns:
  assumes "snd_inv S L s" and "0 < snd_next_seq_no s"
  shows "\<exists>new t. fill_loop s = Some t \<and> snd_inv S L t \<and> filled S L s new t \<and> \<not> more_to_send t"
  using assms
proof (induction "TCPSender_free_window_size s" arbitrary: s rule: less_induct)
  case less
  show ?case
  proof (cases "more_to_send s")
    case True
    obtain seg u where u: "fill_loop s = fill_loop u" "snd_inv S L u" "filled S L s [seg] u"
      "TCPSender_free_window_size u < TCPSender_free_window_size s" "0 < snd_next_seq_no u"
      by (rule fill_loop_round [OF less.prems True])
    obtain new t where t: "fill_loop u = Some t" "snd_inv S L t" "filled S L u new t" "\<not> more_to_send t"
      using less.hyps [OF u(4,2,5)] by blast
    have "filled S L s ([seg] @ new) t" by (rule filled_trans [OF u(3) t(3)])
    then show ?thesis using u(1) t by metis
  next
    case False
    then show ?thesis using less.prems(1) fill_loop_done [OF False] filled_nil by blast
  qed
qed

text \<open>The SYN is the first segment.\<close>

definition syn_segment :: "TCPSender \<Rightarrow> TCPSegment" where
  "syn_segment s = TCPSegment_default\<lparr>seg_header := TCPHeader_default\<lparr>th_syn := True, th_seqno := snd_isn s\<rparr>\<rparr>"

lemma syn_segment_genuine:
  "seg_genuine S L (snd_isn s) 0 (syn_segment s)" "seg_len (syn_segment s) = 1"
  "Buffer_str (seg_payload (syn_segment s)) = []" "plain (syn_segment s)"
  by (cases "snd_isn s", simp_all add: syn_segment_def plain_def seg_genuine_def seg_empty_def seg_len_def
    TCPSegment_default_def TCPHeader_default_def wrap_def wi_plus_def)

lemma send_syn:
  assumes inv: "snd_inv S L s" and zero: "snd_next_seq_no s = 0"
  shows "snd_inv S L (TCPSender_send_segment (syn_segment s) s)"
    and "filled S L s [syn_segment s] (TCPSender_send_segment (syn_segment s) s)"
proof -
  have so: "snd_stream_ok S L s" and q: "snd_queue_ok S L s" and o: "snd_out_ok S L s"
    using inv by (simp_all add: snd_inv_def)
  have z: "snd_last_ack_no s = 0" "snd_bytes_in_flight s = 0" using q zero by (simp_all add: snd_queue_ok_def)
  note g = syn_segment_genuine(1) [of S L s] syn_segment_genuine(2-4) [of s]
  have f: "TCPSender_send_segment (syn_segment s) s = s\<lparr>snd_next_seq_no := 1, snd_bytes_in_flight := 1,
      snd_segments_out := snd_segments_out s @ [syn_segment s],
      snd_outstanding_segments := snd_outstanding_segments s @ [syn_segment s],
      snd_timer := (if tm_started (snd_timer s) then snd_timer s else Timer_restart (snd_timer s))\<rparr>"
    using g zero z by (subst send_segment_fields) simp_all
  have "snd_queue_ok S L (TCPSender_send_segment (syn_segment s) s)" "snd_out_ok S L (TCPSender_send_segment (syn_segment s) s)"
    using g zero z by (intro send_segment_queue [OF q o]; simp)+
  moreover have "snd_stream_ok S L (TCPSender_send_segment (syn_segment s) s)"
    using so zero unfolding f by (auto simp: snd_stream_ok_def)
  ultimately show "snd_inv S L (TCPSender_send_segment (syn_segment s) s)" by (simp add: snd_inv_def)
  show "filled S L s [syn_segment s] (TCPSender_send_segment (syn_segment s) s)"
    using g zero z unfolding filled_def f by (auto simp: Timer_restart_def Timer_reset_def)
qed

lemma fill_window_returns:
  assumes inv: "snd_inv S L s" and ok: "0 < snd_next_seq_no s \<or> \<not> bs_error (snd_stream s)"
  obtains new t where "TCPSender_fill_window s = Some t" and "snd_inv S L t" and "filled S L s new t"
    and "0 < snd_next_seq_no t" and "0 < snd_next_seq_no s \<Longrightarrow> \<not> more_to_send t"
proof (cases "snd_next_seq_no s = 0")
  case True
  then have "TCPSender_state s = SndClosed" using ok by (simp add: TCPSender_state_def)
  then have "TCPSender_fill_window s = Some (TCPSender_send_segment (syn_segment s) s)"
    by (simp add: TCPSender_fill_window_def syn_segment_def)
  moreover have "0 < snd_next_seq_no (TCPSender_send_segment (syn_segment s) s)"
    using send_syn(2) [OF inv True] syn_segment_genuine(2) [of s] by (auto simp: filled_def)
  ultimately show ?thesis using send_syn [OF inv True] True by (intro that) simp_all
next
  case False
  then have pos: "0 < snd_next_seq_no s" and "TCPSender_state s \<noteq> SndClosed"
    by (auto simp: TCPSender_state_def)
  then have f: "TCPSender_fill_window s = fill_loop s" by (simp add: TCPSender_fill_window_def)
  obtain new t where t: "fill_loop s = Some t" "snd_inv S L t" "filled S L s new t" "\<not> more_to_send t"
    using fill_loop_returns [OF inv pos] by blast
  have "0 < snd_next_seq_no t" using t(3) pos segs_from_le by (fastforce simp: filled_def)
  then show ?thesis using f t by (intro that [of t new]) simp_all
qed

text \<open>Segments that wait at the front of the queue do not matter.\<close>

lemma sender_queue_irrelevant [simp]:
  "TCPSender_free_window_size (s\<lparr>snd_segments_out := q\<rparr>) = TCPSender_free_window_size s"
  "TCPSender_state (s\<lparr>snd_segments_out := q\<rparr>) = TCPSender_state s"
  by (simp_all add: TCPSender_free_window_size_def TCPSender_state_def)

lemma send_segment_behind:
  "TCPSender_send_segment seg (s\<lparr>snd_segments_out := q @ snd_segments_out s, snd_stream := st\<rparr>) =
    (TCPSender_send_segment seg (s\<lparr>snd_stream := st\<rparr>))\<lparr>snd_segments_out := q @ snd_segments_out (TCPSender_send_segment seg (s\<lparr>snd_stream := st\<rparr>))\<rparr>"
  by (simp add: TCPSender_send_segment_def Let_def)

lemma fill_loop_behind:
  assumes "fill_loop s = Some t"
  shows "fill_loop (s\<lparr>snd_segments_out := q @ snd_segments_out s\<rparr>) = Some (t\<lparr>snd_segments_out := q @ snd_segments_out t\<rparr>)"
proof (rule fill_loop.raw_induct [OF _ assms, where P = "\<lambda>s t. fill_loop (s\<lparr>snd_segments_out := q @ snd_segments_out s\<rparr>) =
    Some (t\<lparr>snd_segments_out := q @ snd_segments_out t\<rparr>)"], goal_cases)
  case (1 fill s t)
  show ?case using 1(2)
    by (subst fill_loop.simps) (auto simp: Let_def send_segment_behind dest!: 1(1) split: if_splits bind_splits)
qed

lemma fill_window_behind:
  assumes "TCPSender_fill_window s = Some t" and "0 < snd_next_seq_no s"
  shows "TCPSender_fill_window (s\<lparr>snd_segments_out := q @ snd_segments_out s\<rparr>) = Some (t\<lparr>snd_segments_out := q @ snd_segments_out t\<rparr>)"
proof -
  have "TCPSender_state s \<noteq> SndClosed" using assms(2) by (simp add: TCPSender_state_def)
  then show ?thesis using assms(1) fill_loop_behind by (simp add: TCPSender_fill_window_def)
qed

section \<open>Acknowledgments\<close>

lemma ack_loop_split:
  assumes "segs_from S L (snd_isn s) 1001 una segs nxt" and "una \<le> ack" and "ack \<le> nxt" and "nxt < 2 ^ 64"
    and "snd_last_ack_no s \<le> una + 1001" and "nxt \<le> snd_last_ack_no s + 65535"
    and "snd_bytes_in_flight s = nxt - una" and "snd_last_ack_no s \<le> nxt"
  shows "\<exists>acked rest mid. segs = acked @ rest \<and> segs_from S L (snd_isn s) 1001 una acked mid \<and>
    segs_from S L (snd_isn s) 1001 mid rest nxt \<and> mid \<le> ack \<and> (rest \<noteq> [] \<longrightarrow> ack < mid + seg_len (hd rest)) \<and>
    ack_loop ack segs s = s\<lparr>snd_bytes_in_flight := nxt - mid, snd_outstanding_segments := rest,
      snd_timer := (if rest = [] then snd_timer s else Timer_restart (snd_timer s))\<rparr>"
  using assms
proof (induction segs arbitrary: una s)
  case Nil
  then show ?case by (intro exI [of _ "[]"] exI [of _ nxt]) simp
next
  case (Cons seg segs)
  have gen: "seg_genuine S L (snd_isn s) una seg" and len: "0 < seg_len seg" "seg_len seg \<le> 1001"
    and rest: "segs_from S L (snd_isn s) 1001 (una + seg_len seg) segs nxt" using Cons.prems(1) by simp_all
  have fits: "una + seg_len seg \<le> nxt" using segs_from_le [OF rest] by simp
  have "length (Buffer_str (seg_payload seg)) < 2 ^ 63" using len(2) by (simp add: seg_len_def)
  then have l: "TCPSegment_length_in_sequence_space seg = seg_len seg" by (rule seg_len_exact)
  have u: "unwrap (th_seqno (seg_header seg)) (snd_isn s) (snd_last_ack_no s) = una"
    using gen Cons.prems(2-6,8) fits by (auto simp: seg_genuine_def intro!: unwrap_wrap_near)
  have e: "add64 una (seg_len seg) = una + seg_len seg" using fits Cons.prems(4) by (simp add: add64_exact)
  show ?case
  proof (cases "ack < una + seg_len seg")
    case True
    then show ?thesis using Cons.prems by (intro exI [of _ "[]"] exI [of _ "seg # segs"] exI [of _ una])
      (simp add: u l e Let_def)
  next
    case False
    let ?s = "s\<lparr>snd_bytes_in_flight := sub64 (snd_bytes_in_flight s) (seg_len seg)\<rparr>"
    have fl: "sub64 (snd_bytes_in_flight s) (seg_len seg) = nxt - (una + seg_len seg)"
      using Cons.prems(4,7) fits by (subst sub64_exact) auto
    obtain acked rst mid where ih: "segs = acked @ rst" "segs_from S L (snd_isn s) 1001 (una + seg_len seg) acked mid"
      "segs_from S L (snd_isn s) 1001 mid rst nxt" "mid \<le> ack" "rst \<noteq> [] \<longrightarrow> ack < mid + seg_len (hd rst)"
      "ack_loop ack segs ?s = ?s\<lparr>snd_bytes_in_flight := nxt - mid, snd_outstanding_segments := rst,
        snd_timer := (if rst = [] then snd_timer ?s else Timer_restart (snd_timer ?s))\<rparr>"
      using Cons.IH [of ?s "una + seg_len seg"] rest False Cons.prems fl by auto
    show ?thesis using ih False gen len
      by (intro exI [of _ "seg # acked"] exI [of _ rst] exI [of _ mid]) (simp add: u l e Let_def)
  qed
qed

text \<open>The three answers to an acknowledgment.\<close>

lemma ack_received_ignored:
  assumes "abs_ack = unwrap ackno (snd_isn s) (snd_last_ack_no s)"
    and "abs_ack < snd_last_ack_no s \<or> snd_next_seq_no s < abs_ack"
    and "snd_last_ack_no s \<le> snd_next_seq_no s"
  shows "TCPSender_ack_received ackno win s = s"
  using assms(2,3) unfolding TCPSender_ack_received_def Let_def assms(1) [symmetric] by auto

lemma ack_received_repeated:
  assumes "unwrap ackno (snd_isn s) (snd_last_ack_no s) = snd_last_ack_no s"
  shows "TCPSender_ack_received ackno win s = s\<lparr>snd_window_size := unat win\<rparr>"
  using assms by (simp add: TCPSender_ack_received_def Let_def)

lemma ack_received_new:
  assumes inv: "snd_inv S L s" and ack: "ack = unwrap ackno (snd_isn s) (snd_last_ack_no s)"
    and new: "snd_last_ack_no s < ack" "ack \<le> snd_next_seq_no s"
  obtains acked rest mid where "snd_outstanding_segments s = acked @ rest"
    and "segs_from S L (snd_isn s) 1001 (snd_una s) acked mid"
    and "segs_from S L (snd_isn s) 1001 mid rest (snd_next_seq_no s)" and "mid \<le> ack"
    and "rest \<noteq> [] \<longrightarrow> ack < mid + seg_len (hd rest)"
    and "TCPSender_ack_received ackno win s = s\<lparr>snd_bytes_in_flight := snd_next_seq_no s - mid,
      snd_outstanding_segments := rest, snd_timer := (let t = Timer_reset_timeout
        (unat (snd_init_retransmission_timeout s)) (snd_timer s) in if rest = [] then t else Timer_restart t),
      snd_retransmission_count := 0, snd_window_size := unat win, snd_last_ack_no := ack\<rparr>"
proof -
  define r where "r = s\<lparr>snd_timer := Timer_reset_timeout (unat (snd_init_retransmission_timeout s)) (snd_timer s),
      snd_retransmission_count := 0\<rparr>"
  have f: "snd_isn r = snd_isn s" "snd_last_ack_no r = snd_last_ack_no s" "snd_bytes_in_flight r = snd_bytes_in_flight s"
    by (simp_all add: r_def)
  have q: "snd_queue_ok S L s" and b: "snd_next_seq_no s < 2 ^ 64"
    using inv snd_next_bound [of S L s] by (simp_all add: snd_inv_def)
  have fl: "snd_bytes_in_flight s = snd_next_seq_no s - snd_una s" using q by (simp add: snd_queue_ok_def snd_una_def)
  have "\<exists>acked rest mid. snd_outstanding_segments s = acked @ rest \<and>
    segs_from S L (snd_isn r) 1001 (snd_una s) acked mid \<and>
    segs_from S L (snd_isn r) 1001 mid rest (snd_next_seq_no s) \<and>
    mid \<le> ack \<and> (rest \<noteq> [] \<longrightarrow> ack < mid + seg_len (hd rest)) \<and>
    ack_loop ack (snd_outstanding_segments s) r = r\<lparr>snd_bytes_in_flight := snd_next_seq_no s - mid,
      snd_outstanding_segments := rest, snd_timer := (if rest = [] then snd_timer r else Timer_restart (snd_timer r))\<rparr>"
    using q new b snd_queue_close [OF q] fl by (intro ack_loop_split) (simp_all add: snd_queue_ok_def f)
  then obtain acked rest mid where m: "snd_outstanding_segments s = acked @ rest"
    "segs_from S L (snd_isn r) 1001 (snd_una s) acked mid" "segs_from S L (snd_isn r) 1001 mid rest (snd_next_seq_no s)"
    "mid \<le> ack" "rest \<noteq> [] \<longrightarrow> ack < mid + seg_len (hd rest)"
    "ack_loop ack (snd_outstanding_segments s) r = r\<lparr>snd_bytes_in_flight := snd_next_seq_no s - mid,
      snd_outstanding_segments := rest, snd_timer := (if rest = [] then snd_timer r else Timer_restart (snd_timer r))\<rparr>"
    by blast
  have "TCPSender_ack_received ackno win s = (ack_loop ack (snd_outstanding_segments s) r)
      \<lparr>snd_window_size := unat win, snd_last_ack_no := ack\<rparr>"
    using new unfolding TCPSender_ack_received_def Let_def ack [symmetric] r_def by simp
  then show ?thesis using m by (intro that [of acked rest mid]) (simp_all add: Let_def r_def)
qed

lemma ack_received_inv:
  assumes inv: "snd_inv S L s"
  shows "snd_inv S L (TCPSender_ack_received ackno win s)"
proof -
  define ack where "ack = unwrap ackno (snd_isn s) (snd_last_ack_no s)"
  have so: "snd_stream_ok S L s" and q: "snd_queue_ok S L s" and o: "snd_out_ok S L s"
    using inv by (simp_all add: snd_inv_def)
  have "unat win < 2 ^ LENGTH(16)" by (rule unsigned_less)
  then have win: "unat win \<le> 65535" by simp
  consider "ack < snd_last_ack_no s \<or> snd_next_seq_no s < ack" | "ack = snd_last_ack_no s"
    | "snd_last_ack_no s < ack" "ack \<le> snd_next_seq_no s" by linarith
  then show ?thesis
  proof cases
    case 1
    then show ?thesis using ack_received_ignored [OF ack_def 1] inv q by (simp add: snd_queue_ok_def)
  next
    case 2
    then show ?thesis using so q o win ack_received_repeated [of ackno s win] unfolding ack_def
      by (simp add: snd_inv_def snd_stream_ok_def snd_queue_ok_def snd_out_ok_def)
  next
    case 3
    obtain acked rest mid where r: "snd_outstanding_segments s = acked @ rest"
      "segs_from S L (snd_isn s) 1001 mid rest (snd_next_seq_no s)" "mid \<le> ack"
      "rest \<noteq> [] \<longrightarrow> ack < mid + seg_len (hd rest)"
      and f: "TCPSender_ack_received ackno win s = s\<lparr>snd_bytes_in_flight := snd_next_seq_no s - mid,
        snd_outstanding_segments := rest, snd_timer := (let t = Timer_reset_timeout
          (unat (snd_init_retransmission_timeout s)) (snd_timer s) in if rest = [] then t else Timer_restart t),
        snd_retransmission_count := 0, snd_window_size := unat win, snd_last_ack_no := ack\<rparr>"
      by (rule ack_received_new [OF inv ack_def 3, where win = win])
    have mid: "mid \<le> snd_next_seq_no s" using segs_from_le [OF r(2)] by simp
    then have una: "snd_una (TCPSender_ack_received ackno win s) = mid" unfolding f by (simp add: snd_una_def)
    have "snd_queue_ok S L (TCPSender_ack_received ackno win s)"
      using r q win 3 mid unfolding snd_queue_ok_def una unfolding f
      by (simp add: Timer_restart_def Timer_reset_timeout_def Timer_reset_def Let_def)
    then show ?thesis using so o unfolding snd_inv_def f
      by (simp add: snd_stream_ok_def snd_out_ok_def)
  qed
qed

section \<open>Time\<close>

lemma tick_waits:
  assumes "\<not> Timer_expired (Timer_tick ms (snd_timer s))"
  shows "TCPSender_tick ms s = Some (s\<lparr>snd_timer := Timer_tick ms (snd_timer s)\<rparr>)"
  using assms by (simp add: TCPSender_tick_def Let_def)

text \<open>The oldest outstanding segment exists when the timer expires.\<close>

lemma tick_retransmits:
  assumes q: "snd_queue_ok S L s" and exp: "Timer_expired (Timer_tick ms (snd_timer s))"
  shows "snd_outstanding_segments s \<noteq> []"
    and "TCPSender_tick ms s = Some (s\<lparr>snd_segments_out := snd_segments_out s @ [hd (snd_outstanding_segments s)],
      snd_retransmission_count := (if snd_window_size s > 0 then add64 (snd_retransmission_count s) 1 else snd_retransmission_count s),
      snd_timer := \<lparr>tm_timeout_ms = (if snd_window_size s > 0 then mul64 (tm_timeout_ms (snd_timer s)) 2 else tm_timeout_ms (snd_timer s)),
        tm_elapsed_ms = 0, tm_started = True\<rparr>\<rparr>)"
proof -
  have "tm_started (snd_timer s)" using exp by (auto simp: Timer_expired_def Timer_tick_def split: if_splits)
  then show ne: "snd_outstanding_segments s \<noteq> []" using q by (simp add: snd_queue_ok_def)
  then obtain seg segs where "snd_outstanding_segments s = seg # segs" by (cases "snd_outstanding_segments s") auto
  then show "TCPSender_tick ms s = Some (s\<lparr>snd_segments_out := snd_segments_out s @ [hd (snd_outstanding_segments s)],
      snd_retransmission_count := (if snd_window_size s > 0 then add64 (snd_retransmission_count s) 1 else snd_retransmission_count s),
      snd_timer := \<lparr>tm_timeout_ms = (if snd_window_size s > 0 then mul64 (tm_timeout_ms (snd_timer s)) 2 else tm_timeout_ms (snd_timer s)),
        tm_elapsed_ms = 0, tm_started = True\<rparr>\<rparr>)"
    using exp by (cases "snd_timer s") (simp add: TCPSender_tick_def Let_def Timer_restart_def Timer_reset_def
      Timer_reset_timeout_def Timer_tick_def)
qed

lemma outstanding_genuine:
  assumes "snd_queue_ok S L s" and "seg \<in> set (snd_outstanding_segments s)"
  shows "\<exists>a. seg_genuine S L (snd_isn s) a seg \<and> a + seg_len seg \<le> snd_next_seq_no s"
  using assms segs_from_genuine [of S L "snd_isn s" 1001] by (meson snd_queue_ok_def)

lemma tick_inv:
  assumes inv: "snd_inv S L s"
  shows "\<exists>t. TCPSender_tick ms s = Some t \<and> snd_inv S L t"
proof -
  have so: "snd_stream_ok S L s" and q: "snd_queue_ok S L s" and o: "snd_out_ok S L s"
    using inv by (simp_all add: snd_inv_def)
  show ?thesis
  proof (cases "Timer_expired (Timer_tick ms (snd_timer s))")
    case True
    note r = tick_retransmits [OF q True]
    have "\<exists>a. seg_genuine S L (snd_isn s) a (hd (snd_outstanding_segments s)) \<and>
        a + seg_len (hd (snd_outstanding_segments s)) \<le> snd_next_seq_no s"
      using r(1) by (intro outstanding_genuine [OF q]) simp
    then show ?thesis using so q o r by (simp add: snd_inv_def snd_stream_ok_def snd_queue_ok_def snd_out_ok_def)
  next
    case False
    then show ?thesis using so q o tick_waits [OF False]
      by (auto simp: snd_inv_def snd_stream_ok_def snd_queue_ok_def snd_out_ok_def Timer_tick_def)
  qed
qed

section \<open>Sequences of calls\<close>

lemma send_empty_inv:
  assumes inv: "snd_inv S L s" and pos: "0 < snd_next_seq_no s"
  shows "snd_inv S L (TCPSender_send_empty_segment s)"
proof -
  let ?seg = "TCPSegment_default\<lparr>seg_header := TCPHeader_default\<lparr>th_seqno := wrap (snd_next_seq_no s) (snd_isn s)\<rparr>\<rparr>"
  have "snd_next_seq_no s \<le> L + 2" using inv snd_next_bound [of S L s] by (simp add: snd_inv_def)
  then have "seg_genuine S L (snd_isn s) (snd_next_seq_no s) ?seg" "seg_len ?seg = 0"
    using pos by (simp_all add: seg_genuine_def seg_empty_def seg_len_def TCPSegment_default_def TCPHeader_default_def)
  then have "\<exists>a. seg_genuine S L (snd_isn s) a ?seg \<and> a + seg_len ?seg \<le> snd_next_seq_no s" by auto
  then show ?thesis using inv
    by (simp add: TCPSender_send_empty_segment_def snd_inv_def snd_stream_ok_def snd_queue_ok_def snd_out_ok_def)
qed

abbreviation snd_room :: "TCPSender \<Rightarrow> nat" where
  "snd_room s \<equiv> bs_capacity (snd_stream s) - bs_used_size (snd_stream s)"

lemma write_inv:
  assumes inv: "snd_inv S L s" and n: "n = min (length data) (snd_room s)"
    and data: "take n data = map S [snd_written s..<snd_written s + n]"
    and fit: "snd_written s + n \<le> L" and open_: "\<not> bs_input_ended (snd_stream s)"
  obtains st where "ByteStream_write data (snd_stream s) = Some (n, st)"
    and "snd_inv S L (s\<lparr>snd_stream := st\<rparr>)" and "bs_same_flags (snd_stream s) st"
    and "bs_bytes_written st = snd_written s + n" and "bs_bytes_read st = snd_read s"
proof -
  have so: "snd_stream_ok S L s" using inv by (simp add: snd_inv_def)
  then have out: "out_inv S (snd_stream s)" and b: "snd_written s + n < 2 ^ 64"
    using fit by (simp_all add: snd_stream_ok_def)
  obtain st where st: "ByteStream_write data (snd_stream s) = Some (n, st)" "out_inv S st"
    "bs_bytes_written st = snd_written s + n" "bs_bytes_read st = snd_read s" "bs_same_flags (snd_stream s) st"
    by (rule out_write_prefix [OF out n data b])
  have "snd_stream_ok S L (s\<lparr>snd_stream := st\<rparr>)"
    using so st(2-5) open_ fit by (auto simp: snd_stream_ok_def bs_same_flags_def)
  then show ?thesis using st inv
    by (intro that [of st]) (simp_all add: snd_inv_def snd_queue_ok_def snd_out_ok_def)
qed

text \<open>\<open>Drain\<close> empties the queue of segments to send, as the connection does.\<close>

datatype snd_event = Write_in bytes | End_in | Fill | Ack WrappingInt32 u16 | Tick nat | Send_empty | Drain

fun snd_call :: "TCPSender \<Rightarrow> snd_event \<Rightarrow> TCPSender option" where
  "snd_call s (Write_in data) = map_option (\<lambda>(n, st). s\<lparr>snd_stream := st\<rparr>) (ByteStream_write data (snd_stream s))"
| "snd_call s End_in = Some (s\<lparr>snd_stream := ByteStream_end_input (snd_stream s)\<rparr>)"
| "snd_call s Fill = TCPSender_fill_window s"
| "snd_call s (Ack ackno win) = Some (TCPSender_ack_received ackno win s)"
| "snd_call s (Tick ms) = TCPSender_tick ms s"
| "snd_call s Send_empty = Some (TCPSender_send_empty_segment s)"
| "snd_call s Drain = Some (s\<lparr>snd_segments_out := []\<rparr>)"

text \<open>The writer writes the stream \<open>S\<close> and ends it at \<open>L\<close>; acknowledgments are arbitrary.\<close>

fun snd_guard :: "(nat \<Rightarrow> u8) \<Rightarrow> nat \<Rightarrow> TCPSender \<Rightarrow> snd_event \<Rightarrow> bool" where
  "snd_guard S L s (Write_in data) \<longleftrightarrow> data = map S [snd_written s..<snd_written s + length data] \<and>
     snd_written s + length data \<le> L \<and> \<not> bs_input_ended (snd_stream s)"
| "snd_guard S L s End_in \<longleftrightarrow> snd_written s = L"
| "snd_guard S L s Send_empty \<longleftrightarrow> 0 < snd_next_seq_no s"
| "snd_guard S L s _ \<longleftrightarrow> True"

definition snd_run_inv :: "(nat \<Rightarrow> u8) \<Rightarrow> nat \<Rightarrow> TCPSender \<Rightarrow> bool" where
  "snd_run_inv S L s \<longleftrightarrow> snd_inv S L s \<and> \<not> bs_error (snd_stream s)"

definition snd_le :: "TCPSender \<Rightarrow> TCPSender \<Rightarrow> bool" where
  "snd_le s t \<longleftrightarrow> snd_isn t = snd_isn s \<and> snd_next_seq_no s \<le> snd_next_seq_no t \<and>
     snd_last_ack_no s \<le> snd_last_ack_no t \<and> snd_written s \<le> snd_written t"

lemma ack_received_le:
  assumes "snd_inv S L s"
  shows "snd_le s (TCPSender_ack_received ackno win s) \<and>
    snd_stream (TCPSender_ack_received ackno win s) = snd_stream s"
proof -
  define ack where "ack = unwrap ackno (snd_isn s) (snd_last_ack_no s)"
  consider "ack < snd_last_ack_no s \<or> snd_next_seq_no s < ack" | "ack = snd_last_ack_no s"
    | "snd_last_ack_no s < ack" "ack \<le> snd_next_seq_no s" by linarith
  then show ?thesis
  proof cases
    case 1
    then show ?thesis using ack_received_ignored [OF ack_def 1] assms
      by (simp add: snd_inv_def snd_queue_ok_def snd_le_def)
  next
    case 2
    then show ?thesis using ack_received_repeated [of ackno s win] unfolding ack_def by (simp add: snd_le_def)
  next
    case 3
    show ?thesis by (rule ack_received_new [OF assms ack_def 3, where win = win]) (use 3 in \<open>simp add: snd_le_def\<close>)
  qed
qed

lemma filled_le: "filled S L s new t \<Longrightarrow> snd_le s t \<and> bs_error (snd_stream t) = bs_error (snd_stream s)"
  using segs_from_le [of S L "snd_isn s" 1001 "snd_next_seq_no s" new "snd_next_seq_no t"]
  by (auto simp: filled_def snd_le_def bs_same_flags_def)

text \<open>More sequence numbers in use mean more bytes read.\<close>

lemma filled_read:
  assumes "filled S L s new t" and "snd_inv S L s" and "snd_inv S L t"
  shows "snd_read s \<le> snd_read t"
proof -
  have "snd_next_seq_no s \<le> snd_next_seq_no t" using filled_le [OF assms(1)] by (simp add: snd_le_def)
  moreover have "bs_input_ended (snd_stream t) = bs_input_ended (snd_stream s)" "snd_written t = snd_written s"
    using assms(1) by (simp_all add: filled_def bs_same_flags_def)
  ultimately show ?thesis using assms(2,3) by (auto simp: snd_inv_def snd_stream_ok_def out_inv_def)
qed

lemma tick_le: "TCPSender_tick ms s = Some t \<Longrightarrow> snd_le s t \<and> snd_stream t = snd_stream s"
  by (auto simp: TCPSender_tick_def Let_def snd_le_def split: if_splits list.splits)

lemma snd_call_step:
  assumes inv: "snd_run_inv S L s" and guard: "snd_guard S L s e"
  obtains t where "snd_call s e = Some t" and "snd_run_inv S L t" and "snd_le s t"
proof -
  have i: "snd_inv S L s" and err: "\<not> bs_error (snd_stream s)" using inv by (simp_all add: snd_run_inv_def)
  have "\<exists>t. snd_call s e = Some t \<and> snd_run_inv S L t \<and> snd_le s t"
  proof (cases e)
    case (Write_in data)
    define n where "n = min (length data) (snd_room s)"
    have g: "data = map S [snd_written s..<snd_written s + length data]" "snd_written s + length data \<le> L"
      "\<not> bs_input_ended (snd_stream s)" using guard Write_in by simp_all
    have n: "n \<le> length data" by (simp add: n_def)
    then have "take n data = map S [snd_written s..<snd_written s + n]"
      using arg_cong [OF g(1), of "take n"] by (simp add: take_map)
    then obtain st where "ByteStream_write data (snd_stream s) = Some (n, st)"
      "snd_inv S L (s\<lparr>snd_stream := st\<rparr>)" "bs_same_flags (snd_stream s) st" "bs_bytes_written st = snd_written s + n"
      using g n by (elim write_inv [OF i n_def]) auto
    then show ?thesis using err Write_in by (simp add: snd_run_inv_def snd_le_def bs_same_flags_def)
  next
    case End_in
    then show ?thesis using i err guard
      by (auto simp: snd_run_inv_def snd_le_def snd_inv_def snd_stream_ok_def snd_queue_ok_def snd_out_ok_def out_inv_def)
  next
    case Fill
    obtain new t where "TCPSender_fill_window s = Some t" "snd_inv S L t" "filled S L s new t"
      by (rule fill_window_returns [OF i]) (use err in auto)
    then show ?thesis using Fill err filled_le by (auto simp: snd_run_inv_def)
  next
    case (Ack ackno win)
    then show ?thesis using ack_received_inv [OF i] ack_received_le [OF i] err by (simp add: snd_run_inv_def)
  next
    case (Tick ms)
    then show ?thesis using tick_inv [OF i, of ms] tick_le [of ms s] err by (auto simp: snd_run_inv_def)
  next
    case Send_empty
    then show ?thesis using send_empty_inv [OF i] guard err
      by (simp add: snd_run_inv_def snd_le_def TCPSender_send_empty_segment_def)
  next
    case Drain
    then show ?thesis using i err
      by (simp add: snd_run_inv_def snd_le_def snd_inv_def snd_stream_ok_def snd_queue_ok_def snd_out_ok_def)
  qed
  then show ?thesis using that by blast
qed

interpretation snd: monotone_machine snd_call "snd_run_inv S L" "snd_guard S L" snd_le for S L
proof unfold_locales
  show "\<exists>t. snd_call s e = Some t \<and> snd_run_inv S L t" if "snd_run_inv S L s" "snd_guard S L s e" for s e
    by (rule snd_call_step [OF that]) blast
  show "snd_le s s" for s by (simp add: snd_le_def)
  show "snd_le s u" if "snd_le s t" "snd_le t u" for s t u using that by (auto simp: snd_le_def)
  show "snd_le s t" if "snd_run_inv S L s" "snd_guard S L s e" "snd_call s e = Some t" for s e t
    by (rule snd_call_step [OF that(1,2)]) (use that(3) in simp)
qed

section \<open>The properties\<close>

text \<open>C17. Whatever acknowledgments arrive (old, repeated, impossible or forged), in any interleaving
  of writes, window fills, ticks and empty segments, no call of a sender fails: the window loop
  returns and the assertion on the timer holds. Every segment queued for sending is a genuine
  piece of the stream; the outstanding ones are adjacent and end at the next sequence number;
  the bytes in flight are their lengths; the timer runs exactly while there are any; and at
  most 65535 sequence numbers lie beyond the last acknowledgment.\<close>

theorem TCPSender_sound:
  assumes "0 < capacity" and "capacity < 2 ^ 63" and "L + 2 < 2 ^ 64"
    and "guarded (snd_guard S L) snd_call (TCPSender_init capacity retx fixed_isn random) es"
  shows "\<exists>t una. run snd_call (TCPSender_init capacity retx fixed_isn random) es = Some t \<and>
     (\<forall>seg \<in> set (snd_segments_out t). \<exists>a. seg_genuine S L (snd_isn t) a seg \<and> a + seg_len seg \<le> snd_next_seq_no t) \<and>
     segs_from S L (snd_isn t) 1001 una (snd_outstanding_segments t) (snd_next_seq_no t) \<and>
     snd_bytes_in_flight t = sum_list (map seg_len (snd_outstanding_segments t)) \<and>
     (tm_started (snd_timer t) \<longleftrightarrow> snd_outstanding_segments t \<noteq> []) \<and>
     snd_last_ack_no t \<le> snd_next_seq_no t \<and> snd_next_seq_no t \<le> snd_last_ack_no t + 65535"
proof -
  let ?s = "TCPSender_init capacity retx fixed_isn random"
  have "snd_run_inv S L ?s"
    using snd_inv_init [OF assms(1-3)] by (simp add: snd_run_inv_def TCPSender_init_def)
  then obtain t where t: "run snd_call ?s es = Some t" "snd_run_inv S L t"
    using snd.run_progress [of S L ?s es] assms(4) by blast
  have q: "snd_queue_ok S L t" and o: "snd_out_ok S L t" using t(2) by (simp_all add: snd_run_inv_def snd_inv_def)
  have segs: "segs_from S L (snd_isn t) 1001 (snd_una t) (snd_outstanding_segments t) (snd_next_seq_no t)"
    using q by (simp add: snd_queue_ok_def)
  show ?thesis using t(1) segs q o snd_in_flight_sum [OF q]
    by (intro exI [of _ t] exI [of _ "snd_una t"]) (simp add: snd_queue_ok_def snd_out_ok_def)
qed

theorem TCPSender_sound_witness:
  "\<exists>t una. run snd_call (TCPSender_init 8 1000 (Some (WrappingInt32 5)) 0)
       [Write_in [0, 1, 2], Fill, Ack (WrappingInt32 6) 2, Fill, Tick 1500, End_in] = Some t \<and>
     (\<forall>seg \<in> set (snd_segments_out t). \<exists>a. seg_genuine of_nat 3 (snd_isn t) a seg \<and> a + seg_len seg \<le> snd_next_seq_no t) \<and>
     segs_from of_nat 3 (snd_isn t) 1001 una (snd_outstanding_segments t) (snd_next_seq_no t) \<and>
     snd_bytes_in_flight t = sum_list (map seg_len (snd_outstanding_segments t)) \<and>
     (tm_started (snd_timer t) \<longleftrightarrow> snd_outstanding_segments t \<noteq> []) \<and>
     snd_last_ack_no t \<le> snd_next_seq_no t \<and> snd_next_seq_no t \<le> snd_last_ack_no t + 65535"
  by (rule TCPSender_sound) (simp_all add: sponge_eval cong: eval_cong)



text \<open>C19. An acknowledgment below the last one or beyond what was sent changes nothing; a repeated
  one updates the window only; a new one removes exactly the segments that it covers completely,
  leaves their lengths out of the bytes in flight, sets window and last acknowledgment, resets
  timeout and retransmission count, and restarts the timer when segments remain.\<close>

theorem TCPSender_ack_received_removes:
  assumes "snd_inv S L s" and "ack = unwrap ackno (snd_isn s) (snd_last_ack_no s)"
  shows "let t = TCPSender_ack_received ackno win s in
     if ack < snd_last_ack_no s \<or> snd_next_seq_no s < ack then t = s
     else if ack = snd_last_ack_no s then t = s\<lparr>snd_window_size := unat win\<rparr>
     else (\<exists>acked mid. snd_outstanding_segments s = acked @ snd_outstanding_segments t \<and>
       segs_from S L (snd_isn s) 1001 (snd_una s) acked mid \<and> mid \<le> ack \<and>
       (snd_outstanding_segments t \<noteq> [] \<longrightarrow> ack < mid + seg_len (hd (snd_outstanding_segments t))) \<and>
       snd_bytes_in_flight t = sum_list (map seg_len (snd_outstanding_segments t)) \<and>
       snd_last_ack_no t = ack \<and> snd_window_size t = unat win \<and> snd_retransmission_count t = 0 \<and>
       snd_timer t = \<lparr>tm_timeout_ms = unat (snd_init_retransmission_timeout s), tm_elapsed_ms = 0,
         tm_started = (snd_outstanding_segments t \<noteq> [])\<rparr>)"
proof -
  have q: "snd_queue_ok S L s" using assms(1) by (simp add: snd_inv_def)
  consider "ack < snd_last_ack_no s \<or> snd_next_seq_no s < ack" | "ack = snd_last_ack_no s"
    | "snd_last_ack_no s < ack" "ack \<le> snd_next_seq_no s" by linarith
  then show ?thesis
  proof cases
    case 1
    then show ?thesis using ack_received_ignored [OF assms(2) 1] q by (simp add: snd_queue_ok_def)
  next
    case 2
    then show ?thesis using ack_received_repeated [of ackno s win] assms(2) q by (simp add: snd_queue_ok_def)
  next
    case 3
    have "snd_queue_ok S L (TCPSender_ack_received ackno win s)"
      using ack_received_inv [OF assms(1)] by (simp add: snd_inv_def)
    note sum = snd_in_flight_sum [OF this]
    show ?thesis
      by (rule ack_received_new [OF assms 3, where win = win])
        (use 3 sum in \<open>auto simp: Let_def Timer_restart_def Timer_reset_timeout_def Timer_reset_def\<close>)
  qed
qed

theorem TCPSender_ack_received_removes_witness:
  "let s = TCPSender_send_segment (syn_segment (TCPSender_init 8 1000 (Some (WrappingInt32 0)) 0)) (TCPSender_init 8 1000 (Some (WrappingInt32 0)) 0);
       t = TCPSender_ack_received (WrappingInt32 1) 5 s in
   snd_outstanding_segments s \<noteq> [] \<and> snd_outstanding_segments t = [] \<and> snd_bytes_in_flight t = 0 \<and> snd_window_size t = 5"
proof -
  let ?i = "TCPSender_init 8 1000 (Some (WrappingInt32 0)) 0"
  let ?s = "TCPSender_send_segment (syn_segment ?i) ?i"
  have "snd_inv (\<lambda>_. 0) 3 ?i" by (rule snd_inv_init) simp_all
  then have inv: "snd_inv (\<lambda>_. 0) 3 ?s" by (rule send_syn) (simp add: TCPSender_init_def)
  have ack: "1 = unwrap (WrappingInt32 1) (snd_isn ?s) (snd_last_ack_no ?s)"
    by (simp add: sponge_eval syn_segment_def cong: eval_cong)
  show ?thesis using TCPSender_ack_received_removes [OF inv ack, of 5]
    by (auto simp: sponge_eval syn_segment_def seg_len_def cong: eval_cong)
qed

text \<open>C20. A tick never fails. When the timer expires the oldest outstanding segment, and no other, is
  queued again and the timer runs anew; the timeout doubles and the count grows unless the
  window is zero. Otherwise only the elapsed time grows, and only while the timer runs.\<close>

theorem TCPSender_tick_retransmits:
  assumes "snd_inv S L s"
  shows "if Timer_expired (Timer_tick ms (snd_timer s))
    then snd_outstanding_segments s \<noteq> [] \<and>
      TCPSender_tick ms s = Some (s\<lparr>snd_segments_out := snd_segments_out s @ [hd (snd_outstanding_segments s)],
        snd_retransmission_count := (if snd_window_size s > 0 then add64 (snd_retransmission_count s) 1 else snd_retransmission_count s),
        snd_timer := \<lparr>tm_timeout_ms = (if snd_window_size s > 0 then mul64 (tm_timeout_ms (snd_timer s)) 2 else tm_timeout_ms (snd_timer s)),
          tm_elapsed_ms = 0, tm_started = True\<rparr>\<rparr>)
    else TCPSender_tick ms s = Some (s\<lparr>snd_timer := (if snd_outstanding_segments s = [] then snd_timer s
      else (snd_timer s)\<lparr>tm_elapsed_ms := add64 (tm_elapsed_ms (snd_timer s)) ms\<rparr>)\<rparr>)"
proof -
  have q: "snd_queue_ok S L s" using assms by (simp add: snd_inv_def)
  show ?thesis
  proof (cases "Timer_expired (Timer_tick ms (snd_timer s))")
    case True
    then show ?thesis using tick_retransmits [OF q True] by simp
  next
    case False
    then show ?thesis using tick_waits [OF False] q by (simp add: Timer_tick_def snd_queue_ok_def)
  qed
qed

theorem TCPSender_tick_retransmits_witness:
  "let s = TCPSender_send_segment (syn_segment (TCPSender_init 8 1000 (Some (WrappingInt32 0)) 0)) (TCPSender_init 8 1000 (Some (WrappingInt32 0)) 0) in
   map_option (\<lambda>t. (length (snd_segments_out t), snd_retransmission_count t, tm_timeout_ms (snd_timer t))) (TCPSender_tick 1000 s) = Some (2, 1, 2000)"
proof -
  let ?i = "TCPSender_init 8 1000 (Some (WrappingInt32 0)) 0"
  have "snd_inv (\<lambda>_. 0) 3 ?i" by (rule snd_inv_init) simp_all
  then have "snd_inv (\<lambda>_. 0) 3 (TCPSender_send_segment (syn_segment ?i) ?i)"
    by (rule send_syn) (simp add: TCPSender_init_def)
  from TCPSender_tick_retransmits [OF this, of 1000] show ?thesis
    by (simp add: sponge_eval syn_segment_def cong: eval_cong)
qed

end
