(* ===== verification/TCP_State.thy ===== *)
theory TCP_State
  imports TCP_Receiver TCP_Sender
begin

text \<open>
  TCPState (libsponge/tcp\_helpers/tcp\_state.hh, tcp\_state.cc): the summary of a connection by
  four fields, and the summaries that stand for the official states of RFC 793.
\<close>

section \<open>The class\<close>

record TCPState =
  ts_sender :: string
  ts_receiver :: string
  ts_active :: bool
  ts_linger_after_streams_finish :: bool

datatype State = LISTEN | SYN_RCVD | SYN_SENT | ESTABLISHED | CLOSE_WAIT | LAST_ACK | FIN_WAIT_1
  | FIN_WAIT_2 | CLOSING | TIME_WAIT | CLOSED | RESET

definition TCPReceiverStateSummary_ERROR :: string where
  "TCPReceiverStateSummary_ERROR = ''error (connection was reset)''"

definition TCPReceiverStateSummary_LISTEN :: string where
  "TCPReceiverStateSummary_LISTEN = ''waiting for SYN: ackno is empty''"

definition TCPReceiverStateSummary_SYN_RECV :: string where
  "TCPReceiverStateSummary_SYN_RECV = ''SYN received (ackno exists), and input to stream hasn't ended''"

definition TCPReceiverStateSummary_FIN_RECV :: string where
  "TCPReceiverStateSummary_FIN_RECV = ''input to stream has ended''"

definition TCPSenderStateSummary_ERROR :: string where
  "TCPSenderStateSummary_ERROR = ''error (connection was reset)''"

definition TCPSenderStateSummary_CLOSED :: string where
  "TCPSenderStateSummary_CLOSED = ''waiting for stream to begin (no SYN sent)''"

definition TCPSenderStateSummary_SYN_SENT :: string where
  "TCPSenderStateSummary_SYN_SENT = ''stream started but nothing acknowledged''"

definition TCPSenderStateSummary_SYN_ACKED :: string where
  "TCPSenderStateSummary_SYN_ACKED = ''stream ongoing''"

definition TCPSenderStateSummary_FIN_SENT :: string where
  "TCPSenderStateSummary_FIN_SENT = ''stream finished (FIN sent) but not fully acknowledged''"

definition TCPSenderStateSummary_FIN_ACKED :: string where
  "TCPSenderStateSummary_FIN_ACKED = ''stream finished and fully acknowledged''"

definition TCPState_eq :: "TCPState \<Rightarrow> TCPState \<Rightarrow> bool" where
  "TCPState_eq s other \<longleftrightarrow> ts_active s = ts_active other \<and>
     ts_linger_after_streams_finish s = ts_linger_after_streams_finish other \<and>
     ts_sender s = ts_sender other \<and> ts_receiver s = ts_receiver other"

definition TCPState_ne :: "TCPState \<Rightarrow> TCPState \<Rightarrow> bool" where
  "TCPState_ne s other \<longleftrightarrow> \<not> TCPState_eq s other"

text \<open>\<open>std::to_string\<close> of a bool is that of the int it is converted to.\<close>

definition to_string_bool :: "bool \<Rightarrow> string" where
  "to_string_bool b = (if b then ''1'' else ''0'')"

definition TCPState_name :: "TCPState \<Rightarrow> string" where
  "TCPState_name s = ''sender=`'' @ ts_sender s @ ''`, receiver=`'' @ ts_receiver s @ ''`, active='' @
     to_string_bool (ts_active s) @ '', linger_after_streams_finish='' @
     to_string_bool (ts_linger_after_streams_finish s)"

text \<open>The members start as the class initialises them: empty strings, active and lingering.\<close>

definition TCPState_default :: TCPState where
  "TCPState_default = \<lparr>ts_sender = [], ts_receiver = [], ts_active = True, ts_linger_after_streams_finish = True\<rparr>"

fun TCPState_of_State :: "State \<Rightarrow> TCPState" where
  "TCPState_of_State LISTEN = TCPState_default\<lparr>ts_receiver := TCPReceiverStateSummary_LISTEN,
     ts_sender := TCPSenderStateSummary_CLOSED\<rparr>"
| "TCPState_of_State SYN_RCVD = TCPState_default\<lparr>ts_receiver := TCPReceiverStateSummary_SYN_RECV,
     ts_sender := TCPSenderStateSummary_SYN_SENT\<rparr>"
| "TCPState_of_State SYN_SENT = TCPState_default\<lparr>ts_receiver := TCPReceiverStateSummary_LISTEN,
     ts_sender := TCPSenderStateSummary_SYN_SENT\<rparr>"
| "TCPState_of_State ESTABLISHED = TCPState_default\<lparr>ts_receiver := TCPReceiverStateSummary_SYN_RECV,
     ts_sender := TCPSenderStateSummary_SYN_ACKED\<rparr>"
| "TCPState_of_State CLOSE_WAIT = TCPState_default\<lparr>ts_receiver := TCPReceiverStateSummary_FIN_RECV,
     ts_sender := TCPSenderStateSummary_SYN_ACKED, ts_linger_after_streams_finish := False\<rparr>"
| "TCPState_of_State LAST_ACK = TCPState_default\<lparr>ts_receiver := TCPReceiverStateSummary_FIN_RECV,
     ts_sender := TCPSenderStateSummary_FIN_SENT, ts_linger_after_streams_finish := False\<rparr>"
| "TCPState_of_State CLOSING = TCPState_default\<lparr>ts_receiver := TCPReceiverStateSummary_FIN_RECV,
     ts_sender := TCPSenderStateSummary_FIN_SENT\<rparr>"
| "TCPState_of_State FIN_WAIT_1 = TCPState_default\<lparr>ts_receiver := TCPReceiverStateSummary_SYN_RECV,
     ts_sender := TCPSenderStateSummary_FIN_SENT\<rparr>"
| "TCPState_of_State FIN_WAIT_2 = TCPState_default\<lparr>ts_receiver := TCPReceiverStateSummary_SYN_RECV,
     ts_sender := TCPSenderStateSummary_FIN_ACKED\<rparr>"
| "TCPState_of_State TIME_WAIT = TCPState_default\<lparr>ts_receiver := TCPReceiverStateSummary_FIN_RECV,
     ts_sender := TCPSenderStateSummary_FIN_ACKED\<rparr>"
| "TCPState_of_State RESET = TCPState_default\<lparr>ts_receiver := TCPReceiverStateSummary_ERROR,
     ts_sender := TCPSenderStateSummary_ERROR, ts_linger_after_streams_finish := False, ts_active := False\<rparr>"
| "TCPState_of_State CLOSED = TCPState_default\<lparr>ts_receiver := TCPReceiverStateSummary_FIN_RECV,
     ts_sender := TCPSenderStateSummary_FIN_ACKED, ts_linger_after_streams_finish := False, ts_active := False\<rparr>"

definition state_summary_receiver :: "TCPReceiver \<Rightarrow> string" where
  "state_summary_receiver receiver =
     (let state = TCPReceiver_state receiver in
      if state = RcvError then TCPReceiverStateSummary_ERROR
      else if state = RcvListen then TCPReceiverStateSummary_LISTEN
      else if state = RcvFinRecv then TCPReceiverStateSummary_FIN_RECV
      else TCPReceiverStateSummary_SYN_RECV)"

definition state_summary_sender :: "TCPSender \<Rightarrow> string" where
  "state_summary_sender sender =
     (let state = TCPSender_state sender in
      if state = SndError then TCPSenderStateSummary_ERROR
      else if state = SndClosed then TCPSenderStateSummary_CLOSED
      else if state = SndSynSent then TCPSenderStateSummary_SYN_SENT
      else if state = SndSynAcked then TCPSenderStateSummary_SYN_ACKED
      else if state = SndFinSent then TCPSenderStateSummary_FIN_SENT
      else TCPSenderStateSummary_FIN_ACKED)"

definition TCPState_of :: "TCPSender \<Rightarrow> TCPReceiver \<Rightarrow> bool \<Rightarrow> bool \<Rightarrow> TCPState" where
  "TCPState_of sender receiver active linger =
     \<lparr>ts_sender = state_summary_sender sender, ts_receiver = state_summary_receiver receiver,
      ts_active = active, ts_linger_after_streams_finish = (active \<and> linger)\<rparr>"

section \<open>Summaries and states\<close>

lemma receiver_summaries_distinct:
  "distinct [TCPReceiverStateSummary_ERROR, TCPReceiverStateSummary_LISTEN, TCPReceiverStateSummary_SYN_RECV,
     TCPReceiverStateSummary_FIN_RECV]"
  by (simp add: TCPReceiverStateSummary_ERROR_def TCPReceiverStateSummary_LISTEN_def
    TCPReceiverStateSummary_SYN_RECV_def TCPReceiverStateSummary_FIN_RECV_def)

lemma sender_summaries_distinct:
  "distinct [TCPSenderStateSummary_ERROR, TCPSenderStateSummary_CLOSED, TCPSenderStateSummary_SYN_SENT,
     TCPSenderStateSummary_SYN_ACKED, TCPSenderStateSummary_FIN_SENT, TCPSenderStateSummary_FIN_ACKED]"
  by (simp add: TCPSenderStateSummary_ERROR_def TCPSenderStateSummary_CLOSED_def
    TCPSenderStateSummary_SYN_SENT_def TCPSenderStateSummary_SYN_ACKED_def
    TCPSenderStateSummary_FIN_SENT_def TCPSenderStateSummary_FIN_ACKED_def)

lemmas receiver_summaries = receiver_summaries_distinct [simplified]

lemmas sender_summaries = sender_summaries_distinct [simplified]

text \<open>The comparison of all fields is equality; different states have different summaries.\<close>

lemma TCPState_eq_iff [simp]: "TCPState_eq s t \<longleftrightarrow> s = t"
  by (cases s; cases t) (auto simp: TCPState_eq_def)

lemma summary_receiver_iff:
  "state_summary_receiver r = TCPReceiverStateSummary_ERROR \<longleftrightarrow> TCPReceiver_state r = RcvError"
  "state_summary_receiver r = TCPReceiverStateSummary_LISTEN \<longleftrightarrow> TCPReceiver_state r = RcvListen"
  "state_summary_receiver r = TCPReceiverStateSummary_SYN_RECV \<longleftrightarrow> TCPReceiver_state r = RcvSynRecv"
  "state_summary_receiver r = TCPReceiverStateSummary_FIN_RECV \<longleftrightarrow> TCPReceiver_state r = RcvFinRecv"
  by (cases "TCPReceiver_state r"; use receiver_summaries in \<open>simp add: state_summary_receiver_def eq_commute\<close>)+

lemma summary_sender_iff:
  "state_summary_sender s = TCPSenderStateSummary_ERROR \<longleftrightarrow> TCPSender_state s = SndError"
  "state_summary_sender s = TCPSenderStateSummary_CLOSED \<longleftrightarrow> TCPSender_state s = SndClosed"
  "state_summary_sender s = TCPSenderStateSummary_SYN_SENT \<longleftrightarrow> TCPSender_state s = SndSynSent"
  "state_summary_sender s = TCPSenderStateSummary_SYN_ACKED \<longleftrightarrow> TCPSender_state s = SndSynAcked"
  "state_summary_sender s = TCPSenderStateSummary_FIN_SENT \<longleftrightarrow> TCPSender_state s = SndFinSent"
  "state_summary_sender s = TCPSenderStateSummary_FIN_ACKED \<longleftrightarrow> TCPSender_state s = SndFinAcked"
  by (cases "TCPSender_state s"; use sender_summaries in \<open>simp add: state_summary_sender_def eq_commute\<close>)+

text \<open>The endpoint states and bits of the official states.\<close>

fun endpoint_states :: "State \<Rightarrow> SenderState \<times> ReceiverState \<times> bool \<times> bool" where
  "endpoint_states LISTEN = (SndClosed, RcvListen, True, True)"
| "endpoint_states SYN_RCVD = (SndSynSent, RcvSynRecv, True, True)"
| "endpoint_states SYN_SENT = (SndSynSent, RcvListen, True, True)"
| "endpoint_states ESTABLISHED = (SndSynAcked, RcvSynRecv, True, True)"
| "endpoint_states CLOSE_WAIT = (SndSynAcked, RcvFinRecv, True, False)"
| "endpoint_states LAST_ACK = (SndFinSent, RcvFinRecv, True, False)"
| "endpoint_states FIN_WAIT_1 = (SndFinSent, RcvSynRecv, True, True)"
| "endpoint_states FIN_WAIT_2 = (SndFinAcked, RcvSynRecv, True, True)"
| "endpoint_states CLOSING = (SndFinSent, RcvFinRecv, True, True)"
| "endpoint_states TIME_WAIT = (SndFinAcked, RcvFinRecv, True, True)"
| "endpoint_states CLOSED = (SndFinAcked, RcvFinRecv, False, False)"
| "endpoint_states RESET = (SndError, RcvError, False, False)"

lemma TCPState_of_endpoints:
  "TCPState_of s r active linger = TCPState_of_State x \<longleftrightarrow>
   endpoint_states x = (TCPSender_state s, TCPReceiver_state r, active, active \<and> linger)"
  by (cases x) (auto simp: TCPState_of_def TCPState_default_def summary_receiver_iff summary_sender_iff)

lemma endpoint_states_inject: "endpoint_states x = endpoint_states y \<longleftrightarrow> x = y"
  by (cases x; cases y) simp_all

lemma TCPState_of_State_inject: "TCPState_of_State x = TCPState_of_State y \<longleftrightarrow> x = y"
  using receiver_summaries sender_summaries
  by (cases x; cases y; simp add: TCPState_default_def; metis)

end
