(* ===== verification/TCP_Connection.thy ===== *)
theory TCP_Connection
  imports TCP_State
begin

text \<open>
  TCPConnection (libsponge/tcp\_connection.hh, tcp\_connection.cc): a sender and a receiver that
  exchange segments with a peer. \<open>None\<close> is an exception or an undefined result of one of the parts.
  The properties of a single connection are here; two connections that talk to each other are in
  \<open>TCP_Network\<close>.
\<close>

section \<open>The class\<close>

record TCPConnection =
  tc_cfg :: TCPConfig
  tc_receiver :: TCPReceiver
  tc_sender :: TCPSender
  tc_ms_since_last_recv :: u64
  tc_segments_out :: "TCPSegment list"
  tc_active :: bool
  tc_linger_after_stream_finish :: bool
  tc_need_send_rst :: bool

definition TCPConnection_init :: "TCPConfig \<Rightarrow> u32 \<Rightarrow> TCPConnection" where
  "TCPConnection_init cfg random =
     \<lparr>tc_cfg = cfg, tc_receiver = TCPReceiver_init (cfg_recv_capacity cfg),
      tc_sender = TCPSender_init (cfg_send_capacity cfg) (cfg_rt_timeout cfg) (cfg_fixed_isn cfg) random,
      tc_ms_since_last_recv = 0, tc_segments_out = [], tc_active = True,
      tc_linger_after_stream_finish = True, tc_need_send_rst = False\<rparr>"

definition TCPConnection_remaining_outbound_capacity :: "TCPConnection \<Rightarrow> u64" where
  "TCPConnection_remaining_outbound_capacity c = ByteStream_remaining_capacity (snd_stream (tc_sender c))"

definition TCPConnection_bytes_in_flight :: "TCPConnection \<Rightarrow> u64" where
  "TCPConnection_bytes_in_flight c = snd_bytes_in_flight (tc_sender c)"

definition TCPConnection_unassembled_bytes :: "TCPConnection \<Rightarrow> u64" where
  "TCPConnection_unassembled_bytes c = TCPReceiver_unassembled_bytes (tc_receiver c)"

definition TCPConnection_time_since_last_segment_received :: "TCPConnection \<Rightarrow> u64" where
  "TCPConnection_time_since_last_segment_received c = tc_ms_since_last_recv c"

definition TCPConnection_inbound_stream :: "TCPConnection \<Rightarrow> ByteStream" where
  "TCPConnection_inbound_stream c = TCPReceiver_stream_out (tc_receiver c)"

definition TCPConnection_state :: "TCPConnection \<Rightarrow> TCPState" where
  "TCPConnection_state c = TCPState_of (tc_sender c) (tc_receiver c) (tc_active c) (tc_linger_after_stream_finish c)"

text \<open>The acknowledgment fields of an outgoing segment. The window is converted to 16 bits after the
  minimum was taken.\<close>

definition stamp_ack :: "WrappingInt32 option \<Rightarrow> u64 \<Rightarrow> TCPSegment \<Rightarrow> TCPSegment" where
  "stamp_ack ackno window_size seg =
     (case ackno of
        None \<Rightarrow> seg
      | Some a \<Rightarrow> seg\<lparr>seg_header := (seg_header seg)\<lparr>th_ack := True, th_ackno := a,
          th_win := of_nat (min window_size 65535)\<rparr>\<rparr>)"

text \<open>The loop of \<open>enqueue_segments\<close> over the queue of the sender. The segment at the front is moved
  from: in the branch that leaves it in the queue its payload has lost the storage.\<close>

fun enqueue_loop :: "TCPSegment list \<Rightarrow> TCPConnection \<Rightarrow> TCPConnection option" where
  "enqueue_loop [] c = Some (c\<lparr>tc_sender := (tc_sender c)\<lparr>snd_segments_out := []\<rparr>\<rparr>)"
| "enqueue_loop (seg # segs) c =
     (if tc_need_send_rst c
      then (let moved = seg\<lparr>seg_payload := (seg_payload seg)\<lparr>buf_storage := None\<rparr>\<rparr>;
                seg = seg\<lparr>seg_header := (seg_header seg)\<lparr>th_rst := True\<rparr>\<rparr> in
        Some (c\<lparr>tc_segments_out := tc_segments_out c @ [seg],
          tc_sender := (tc_sender c)\<lparr>snd_segments_out := moved # segs\<rparr>\<rparr>))
      else do {
        ackno \<leftarrow> TCPReceiver_ackno (tc_receiver c);
        let seg = stamp_ack ackno (TCPReceiver_window_size (tc_receiver c)) seg;
        enqueue_loop segs (c\<lparr>tc_segments_out := tc_segments_out c @ [seg]\<rparr>)
      })"

definition TCPConnection_enqueue_segments :: "TCPConnection \<Rightarrow> TCPConnection option" where
  "TCPConnection_enqueue_segments c = enqueue_loop (snd_segments_out (tc_sender c)) c"

definition TCPConnection_try_clean_shutdown :: "TCPConnection \<Rightarrow> TCPConnection" where
  "TCPConnection_try_clean_shutdown c =
     (if (tc_linger_after_stream_finish c \<and> TCPReceiver_state (tc_receiver c) = RcvFinRecv \<and>
          tc_ms_since_last_recv c \<ge> 10 * unat (cfg_rt_timeout (tc_cfg c))) \<or>
         (\<not> tc_linger_after_stream_finish c \<and> TCPSender_state (tc_sender c) = SndFinAcked)
      then c\<lparr>tc_active := False\<rparr> else c)"

text \<open>\<open>stream_out().set_error()\<close> and \<open>stream_in().set_error()\<close>.\<close>

definition rcv_set_error :: "TCPReceiver \<Rightarrow> TCPReceiver" where
  "rcv_set_error r = r\<lparr>rcv_reassembler := (rcv_reassembler r)\<lparr>sr_output := ByteStream_set_error (sr_output (rcv_reassembler r))\<rparr>\<rparr>"

definition snd_set_error :: "TCPSender \<Rightarrow> TCPSender" where
  "snd_set_error s = s\<lparr>snd_stream := ByteStream_set_error (snd_stream s)\<rparr>"

definition TCPConnection_unclean_shutdown :: "TCPConnection \<Rightarrow> TCPConnection" where
  "TCPConnection_unclean_shutdown c =
     c\<lparr>tc_receiver := rcv_set_error (tc_receiver c), tc_sender := snd_set_error (tc_sender c),
       tc_linger_after_stream_finish := False, tc_active := False\<rparr>"

text \<open>The condition for a reply; the second operand of the disjunction is not evaluated when the
  first holds, nor the comparison unless the receiver has seen the SYN.\<close>

definition needs_reply :: "TCPSegment \<Rightarrow> TCPReceiver \<Rightarrow> bool option" where
  "needs_reply seg r =
     (if TCPSegment_length_in_sequence_space seg > 0 then Some True
      else if TCPReceiver_state r = RcvSynRecv
      then do { ackno \<leftarrow> TCPReceiver_ackno r; a \<leftarrow> ackno; Some (th_seqno (seg_header seg) = wi_minus a 1) }
      else Some False)"

definition TCPConnection_segment_received :: "TCPSegment \<Rightarrow> TCPConnection \<Rightarrow> TCPConnection option" where
  "TCPConnection_segment_received seg c =
     (let h = seg_header seg in
      if TCPReceiver_state (tc_receiver c) = RcvListen \<and> TCPSender_state (tc_sender c) = SndClosed \<and>
         (\<not> th_syn h \<or> th_ack h \<or> th_rst h) then Some c
      else (let c = c\<lparr>tc_ms_since_last_recv := 0\<rparr> in
        if th_rst h then Some (TCPConnection_unclean_shutdown c)
        else do {
          r \<leftarrow> TCPReceiver_segment_received seg (tc_receiver c);
          let c = c\<lparr>tc_receiver := r\<rparr>;
          let c = (if th_ack h then c\<lparr>tc_sender := TCPSender_ack_received (th_ackno h) (th_win h) (tc_sender c)\<rparr> else c);
          let c = (if TCPReceiver_state (tc_receiver c) = RcvFinRecv \<and> TCPSender_state (tc_sender c) = SndSynAcked
            then TCPConnection_try_clean_shutdown (c\<lparr>tc_linger_after_stream_finish := False\<rparr>) else c);
          s \<leftarrow> TCPSender_fill_window (tc_sender c);
          let c = c\<lparr>tc_sender := s\<rparr>;
          reply \<leftarrow> needs_reply seg (tc_receiver c);
          let c = (if reply then c\<lparr>tc_sender := TCPSender_send_empty_segment (tc_sender c)\<rparr> else c);
          TCPConnection_enqueue_segments (TCPConnection_try_clean_shutdown c)
        }))"

definition TCPConnection_write :: "bytes \<Rightarrow> TCPConnection \<Rightarrow> (u64 \<times> TCPConnection) option" where
  "TCPConnection_write data c = do {
     (write_size, st) \<leftarrow> ByteStream_write data (snd_stream (tc_sender c));
     s \<leftarrow> TCPSender_fill_window ((tc_sender c)\<lparr>snd_stream := st\<rparr>);
     c \<leftarrow> TCPConnection_enqueue_segments (c\<lparr>tc_sender := s\<rparr>);
     Some (write_size, c)
   }"

definition TCPConnection_tick :: "u64 \<Rightarrow> TCPConnection \<Rightarrow> TCPConnection option" where
  "TCPConnection_tick ms c = do {
     let c = c\<lparr>tc_ms_since_last_recv := add64 (tc_ms_since_last_recv c) ms\<rparr>;
     s \<leftarrow> TCPSender_tick ms (tc_sender c);
     let c = c\<lparr>tc_sender := s\<rparr>;
     let c = (if unat (TCPSender_consecutive_retransmissions (tc_sender c)) > MAX_RETX_ATTEMPTS
       then (let c = (TCPConnection_unclean_shutdown c)\<lparr>tc_need_send_rst := True\<rparr> in
         c\<lparr>tc_sender := TCPSender_send_empty_segment (tc_sender c)\<rparr>)
       else TCPConnection_try_clean_shutdown c);
     TCPConnection_enqueue_segments c
   }"

definition TCPConnection_end_input_stream :: "TCPConnection \<Rightarrow> TCPConnection option" where
  "TCPConnection_end_input_stream c = do {
     s \<leftarrow> TCPSender_fill_window ((tc_sender c)\<lparr>snd_stream := ByteStream_end_input (snd_stream (tc_sender c))\<rparr>);
     TCPConnection_enqueue_segments (c\<lparr>tc_sender := s\<rparr>)
   }"

definition TCPConnection_connect :: "TCPConnection \<Rightarrow> TCPConnection option" where
  "TCPConnection_connect c = do {
     s \<leftarrow> TCPSender_fill_window (tc_sender c);
     TCPConnection_enqueue_segments (c\<lparr>tc_sender := s\<rparr>)
   }"

text \<open>The destructor catches every exception.\<close>

definition TCPConnection_destroy :: "TCPConnection \<Rightarrow> TCPConnection" where
  "TCPConnection_destroy c =
     (if tc_active c
      then (let c = c\<lparr>tc_need_send_rst := True\<rparr>;
                c = c\<lparr>tc_sender := TCPSender_send_empty_segment (tc_sender c)\<rparr> in
        (case TCPConnection_enqueue_segments c of None \<Rightarrow> c | Some c' \<Rightarrow> c'))
      else c)"

declare TCPConnection_init_def [sponge_eval] stamp_ack_def [sponge_eval] TCPConnection_enqueue_segments_def [sponge_eval]
  TCPConnection_try_clean_shutdown_def [sponge_eval] rcv_set_error_def [sponge_eval] snd_set_error_def [sponge_eval]
  TCPConnection_unclean_shutdown_def [sponge_eval] needs_reply_def [sponge_eval]
  TCPConnection_segment_received_def [sponge_eval] TCPConnection_write_def [sponge_eval]
  TCPConnection_tick_def [sponge_eval] TCPConnection_end_input_stream_def [sponge_eval]
  TCPConnection_connect_def [sponge_eval] TCPConnection_destroy_def [sponge_eval]

section \<open>Segments leave\<close>

lemma enqueue_loop_stamps:
  assumes "\<not> tc_need_send_rst c" and "TCPReceiver_ackno (tc_receiver c) = Some a"
  shows "enqueue_loop segs c = Some (c\<lparr>tc_segments_out := tc_segments_out c @
      map (stamp_ack a (TCPReceiver_window_size (tc_receiver c))) segs, tc_sender := (tc_sender c)\<lparr>snd_segments_out := []\<rparr>\<rparr>)"
  using assms by (induction segs arbitrary: c) simp_all

lemma stamp_ack_fields [simp]:
  "th_seqno (seg_header (stamp_ack a w seg)) = th_seqno (seg_header seg)"
  "th_syn (seg_header (stamp_ack a w seg)) = th_syn (seg_header seg)"
  "th_fin (seg_header (stamp_ack a w seg)) = th_fin (seg_header seg)"
  "th_rst (seg_header (stamp_ack a w seg)) = th_rst (seg_header seg)"
  "seg_payload (stamp_ack a w seg) = seg_payload seg"
  by (simp_all add: stamp_ack_def split: option.split)

lemma enqueue_rst:
  assumes "tc_need_send_rst c" and "snd_segments_out (tc_sender c) = seg # segs"
  shows "TCPConnection_enqueue_segments c = Some (c\<lparr>
    tc_segments_out := tc_segments_out c @ [seg\<lparr>seg_header := (seg_header seg)\<lparr>th_rst := True\<rparr>\<rparr>],
    tc_sender := (tc_sender c)\<lparr>snd_segments_out := seg\<lparr>seg_payload := (seg_payload seg)\<lparr>buf_storage := None\<rparr>\<rparr> # segs\<rparr>\<rparr>)"
  using assms by (simp add: TCPConnection_enqueue_segments_def)

lemma reset_state:
  "bs_error (TCPReceiver_stream_out (tc_receiver c)) \<Longrightarrow> bs_error (snd_stream (tc_sender c)) \<Longrightarrow> \<not> tc_active c \<Longrightarrow>
   TCPConnection_state c = TCPState_of_State RESET"
  unfolding TCPConnection_state_def TCPState_of_endpoints by (simp add: TCPSender_state_def TCPReceiver_state_def)

section \<open>The properties\<close>

text \<open>C21. The comparison of a connection with an official state, made on the strings that summarise
  sender and receiver and on the two bits, holds exactly when the connection is in that state of
  sender and receiver; at most one official state matches.\<close>

theorem TCPConnection_state_official:
  "(TCPState_eq (TCPConnection_state c) (TCPState_of_State x) \<longleftrightarrow>
     endpoint_states x = (TCPSender_state (tc_sender c), TCPReceiver_state (tc_receiver c), tc_active c,
       tc_active c \<and> tc_linger_after_stream_finish c)) \<and>
   (TCPState_eq (TCPState_of_State x) (TCPState_of_State y) \<longleftrightarrow> x = y)"
  unfolding TCPState_eq_iff TCPConnection_state_def TCPState_of_endpoints TCPState_of_State_inject by simp


definition example_connection :: TCPConnection where
  "example_connection = TCPConnection_init (TCPConfig_default\<lparr>cfg_recv_capacity := 8, cfg_send_capacity := 8,
     cfg_fixed_isn := Some (WrappingInt32 5)\<rparr>) 0"


lemma send_empty_queue:
  obtains seg segs where "snd_segments_out (TCPSender_send_empty_segment s) = seg # segs"
  by (cases "snd_segments_out s") (auto simp: TCPSender_send_empty_segment_def)

text \<open>C23. When a tick brings the number of consecutive retransmissions above the maximum, the connection
  gives up: it is reset, and exactly one segment, with the RST flag, is sent.\<close>

theorem TCPConnection_tick_gives_up:
  assumes "TCPSender_tick ms (tc_sender c) = Some s"
    and "MAX_RETX_ATTEMPTS < unat (TCPSender_consecutive_retransmissions s)"
  shows "\<exists>d seg. TCPConnection_tick ms c = Some d \<and> TCPConnection_state d = TCPState_of_State RESET \<and>
    tc_segments_out d = tc_segments_out c @ [seg] \<and> th_rst (seg_header seg)"
proof -
  let ?u = "(TCPConnection_unclean_shutdown (c\<lparr>tc_ms_since_last_recv := add64 (tc_ms_since_last_recv c) ms, tc_sender := s\<rparr>))\<lparr>tc_need_send_rst := True\<rparr>"
  let ?c = "?u\<lparr>tc_sender := TCPSender_send_empty_segment (tc_sender ?u)\<rparr>"
  obtain seg segs where q: "snd_segments_out (tc_sender ?c) = seg # segs"
    by (rule send_empty_queue [of "tc_sender ?u"]) simp
  have err: "bs_error (snd_stream (tc_sender ?c))"
    by (simp add: TCPConnection_unclean_shutdown_def snd_set_error_def TCPSender_send_empty_segment_def)
  obtain d where d: "TCPConnection_enqueue_segments ?c = Some d" "tc_segments_out d = tc_segments_out ?c @ [seg\<lparr>seg_header := (seg_header seg)\<lparr>th_rst := True\<rparr>\<rparr>]"
    "tc_receiver d = tc_receiver ?c" "snd_stream (tc_sender d) = snd_stream (tc_sender ?c)" "tc_active d = tc_active ?c"
    using enqueue_rst [OF _ q] by simp
  have "TCPConnection_state d = TCPState_of_State RESET"
    using err d(3-5) by (intro reset_state) (simp_all add: TCPConnection_unclean_shutdown_def rcv_set_error_def TCPReceiver_stream_out_def)
  moreover have "TCPConnection_tick ms c = Some d" using assms d(1) by (simp add: TCPConnection_tick_def Let_def)
  ultimately show ?thesis using d(2)
    by (intro exI [of _ d] exI [of _ "seg\<lparr>seg_header := (seg_header seg)\<lparr>th_rst := True\<rparr>\<rparr>"]) (simp add: TCPConnection_unclean_shutdown_def)
qed

theorem TCPConnection_tick_gives_up_witness:
  "map_option (\<lambda>c. let c = c\<lparr>tc_sender := (tc_sender c)\<lparr>snd_retransmission_count := 8\<rparr>\<rparr> in
       \<exists>d seg. TCPConnection_tick 1000 c = Some d \<and> TCPConnection_state d = TCPState_of_State RESET \<and>
         tc_segments_out d = tc_segments_out c @ [seg] \<and> th_rst (seg_header seg))
     (TCPConnection_connect example_connection) = Some True"
proof -
  have "map_option (\<lambda>c. map_option (\<lambda>s. unat (TCPSender_consecutive_retransmissions s))
       (TCPSender_tick 1000 ((tc_sender c)\<lparr>snd_retransmission_count := 8\<rparr>))) (TCPConnection_connect example_connection) = Some (Some 9)"
    by (simp add: example_connection_def sponge_eval cong: eval_cong)
  then obtain c s where c: "TCPConnection_connect example_connection = Some c"
    "TCPSender_tick 1000 ((tc_sender c)\<lparr>snd_retransmission_count := 8\<rparr>) = Some s" "unat (TCPSender_consecutive_retransmissions s) = 9"
    by auto
  from c(3) have "MAX_RETX_ATTEMPTS < unat (TCPSender_consecutive_retransmissions s)" by (simp add: MAX_RETX_ATTEMPTS_def)
  with c(2) TCPConnection_tick_gives_up [of 1000 "c\<lparr>tc_sender := (tc_sender c)\<lparr>snd_retransmission_count := 8\<rparr>\<rparr>" s]
  show ?thesis unfolding c(1) Let_def by simp
qed

text \<open>C24. Once a reset is due, a call that sends leaves the segment it sent in the queue of the sender,
  without its payload: the next such call sends a reset again.\<close>

theorem TCPConnection_reset_repeats:
  assumes "tc_need_send_rst c" and "snd_segments_out (tc_sender c) = seg # segs"
  shows "\<exists>d e. TCPConnection_enqueue_segments c = Some d \<and> TCPConnection_enqueue_segments d = Some e \<and>
    tc_segments_out e = tc_segments_out c @ map (\<lambda>seg. seg\<lparr>seg_header := (seg_header seg)\<lparr>th_rst := True\<rparr>\<rparr>)
      [seg, seg\<lparr>seg_payload := (seg_payload seg)\<lparr>buf_storage := None\<rparr>\<rparr>]"
  using assms by (simp add: enqueue_rst)

theorem TCPConnection_reset_repeats_witness:
  "let c = TCPConnection_destroy example_connection in
   \<exists>e. TCPConnection_enqueue_segments c = Some e \<and> length (tc_segments_out e) = 2"
proof -
  define c where "c = example_connection\<lparr>tc_need_send_rst := True,
    tc_sender := TCPSender_send_empty_segment (tc_sender example_connection)\<rparr>"
  obtain seg segs where q: "snd_segments_out (tc_sender c) = seg # segs"
    by (rule send_empty_queue [of "tc_sender example_connection"]) (simp add: c_def)
  have rst: "tc_need_send_rst c" by (simp add: c_def)
  obtain d e where d: "TCPConnection_enqueue_segments c = Some d" "TCPConnection_enqueue_segments d = Some e"
    "length (tc_segments_out e) = length (tc_segments_out c) + 2"
    using TCPConnection_reset_repeats [OF rst q] by auto
  have "TCPConnection_destroy example_connection = d"
    using d(1) by (simp add: TCPConnection_destroy_def Let_def c_def example_connection_def TCPConnection_init_def)
  then show ?thesis using d by (simp add: Let_def c_def example_connection_def TCPConnection_init_def)
qed

end
