(* ===== verification/TCP_Direction.thy ===== *)
theory TCP_Direction
  imports TCP_Receiver TCP_Sender
begin

text \<open>
  One direction of a connection: the sender of one endpoint, the receiver of the other, the
  segments \<open>D\<close> that the sender has ever put on the wire and the acknowledgments \<open>K\<close> (number and
  window) that the receiver has ever put on the wire. The network may lose, repeat, delay and
  reorder both at will. \<open>dir_inv\<close> relates the four; one lemma per operation shows that the
  operation returns and keeps it. Streams are shorter than 2 to the 31, so that sequence numbers
  are never ambiguous, however old a segment is.
\<close>

section \<open>The invariant\<close>

text \<open>The stream index behind the window that the receiver advertises, and the absolute number that
  it acknowledges.\<close>

definition rcv_edge :: "TCPReceiver \<Rightarrow> nat" where
  "rcv_edge r = sr_read (rcv_reassembler r) + sr_capacity (rcv_reassembler r)"

definition rcv_acked :: "TCPReceiver \<Rightarrow> nat" where
  "rcv_acked r = (if rcv_is_listen r then 0 else rcv_next r)"

text \<open>The invariant of the receiver, errors of the stream aside.\<close>

definition rcv_ok :: "(nat \<Rightarrow> u8) \<Rightarrow> nat \<Rightarrow> WrappingInt32 \<Rightarrow> TCPReceiver \<Rightarrow> bool" where
  "rcv_ok S L isn r \<longleftrightarrow> sr_inv S L (rcv_reassembler r) \<and> rcv_capacity r = sr_capacity (rcv_reassembler r) \<and>
     (if rcv_is_listen r then sr_received (rcv_reassembler r) = {} \<and> sr_eof_index (rcv_reassembler r) = None
      else rcv_isn r = Some isn)"

text \<open>A segment at \<open>a\<close> carries nothing, lies within the window, or is a probe of one byte.\<close>

definition seg_fits :: "TCPReceiver \<Rightarrow> nat \<Rightarrow> TCPSegment \<Rightarrow> bool" where
  "seg_fits r a seg \<longleftrightarrow> seg_empty seg \<or> a - 1 + length (Buffer_str (seg_payload seg)) \<le> rcv_edge r \<or>
     length (Buffer_str (seg_payload seg)) = 1 \<and> a - 1 \<le> sr_written (rcv_reassembler r)"

definition seg_sent :: "(nat \<Rightarrow> u8) \<Rightarrow> nat \<Rightarrow> TCPSender \<Rightarrow> TCPReceiver \<Rightarrow> TCPSegment \<Rightarrow> bool" where
  "seg_sent S L s r seg \<longleftrightarrow> (\<exists>a. seg_genuine S L (snd_isn s) a seg \<and> a + seg_len seg \<le> snd_next_seq_no s \<and> seg_fits r a seg)"

definition ack_sent :: "nat \<Rightarrow> WrappingInt32 \<Rightarrow> TCPReceiver \<Rightarrow> WrappingInt32 \<times> u16 \<Rightarrow> bool" where
  "ack_sent L isn r k \<longleftrightarrow> (\<exists>a. fst k = wrap a isn \<and> a \<le> rcv_acked r \<and>
     (a + unat (snd k) \<le> rcv_edge r + 1 \<or> a = L + 2))"

definition dir_link :: "(nat \<Rightarrow> u8) \<Rightarrow> nat \<Rightarrow> TCPSender \<Rightarrow> TCPReceiver \<Rightarrow> bool" where
  "dir_link S L s r \<longleftrightarrow> snd_inv S L s \<and> rcv_ok S L (snd_isn s) r \<and> L + 2 < 2 ^ 31 \<and>
     sr_received (rcv_reassembler r) \<subseteq> {..<snd_read s} \<and> (\<not> rcv_is_listen r \<longrightarrow> 0 < snd_next_seq_no s) \<and>
     (sr_eof_index (rcv_reassembler r) \<noteq> None \<longrightarrow> snd_next_seq_no s = L + 2)"

definition dir_window :: "nat \<Rightarrow> TCPSender \<Rightarrow> TCPReceiver \<Rightarrow> bool" where
  "dir_window L s r \<longleftrightarrow> snd_last_ack_no s \<le> rcv_acked r \<and>
     (snd_last_ack_no s + snd_window_size s \<le> rcv_edge r + 1 \<or> snd_last_ack_no s = L + 2)"

definition dir_inv :: "(nat \<Rightarrow> u8) \<Rightarrow> nat \<Rightarrow> TCPSender \<Rightarrow> TCPReceiver \<Rightarrow> TCPSegment set \<Rightarrow> (WrappingInt32 \<times> u16) set \<Rightarrow> bool" where
  "dir_inv S L s r D K \<longleftrightarrow> dir_link S L s r \<and> dir_window L s r \<and>
     (\<forall>seg \<in> set (snd_outstanding_segments s) \<union> set (snd_segments_out s). plain seg \<and> seg_sent S L s r seg) \<and>
     (\<forall>seg \<in> D. th_rst (seg_header seg) \<or> seg_sent S L s r seg) \<and> (\<forall>k \<in> K. ack_sent L (snd_isn s) r k)"

lemma rcv_inv_ok: "rcv_inv S L isn r \<longleftrightarrow> rcv_ok S L isn r \<and> L + 2 < 2 ^ 64 \<and> \<not> bs_error (TCPReceiver_stream_out r)"
  by (auto simp: rcv_inv_def rcv_ok_def)

lemma dir_inv_init:
  assumes "0 < cap" "cap < 2 ^ 63" "0 < rcap" "rcap < 2 ^ 63" "L + 2 < 2 ^ 31"
  shows "dir_inv S L (TCPSender_init cap timeout fixed_isn random) (TCPReceiver_init rcap) {} {}"
proof -
  let ?s = "TCPSender_init cap timeout fixed_isn random" and ?r = "TCPReceiver_init rcap"
  have "snd_inv S L ?s" using assms by (intro snd_inv_init) auto
  moreover have "rcv_inv S L (snd_isn ?s) ?r" using assms by (intro rcv_inv_init) auto
  moreover have "sr_received (rcv_reassembler ?r) = {}" "sr_eof_index (rcv_reassembler ?r) = None"
    using sr_received_init [of rcap] by (simp_all add: TCPReceiver_init_def StreamReassembler_init_def)
  ultimately show ?thesis using assms
    by (simp add: dir_inv_def dir_link_def dir_window_def rcv_inv_ok TCPSender_init_def TCPReceiver_init_def
      rcv_acked_def rcv_edge_def StreamReassembler_init_def)
qed

section \<open>What the invariant says\<close>

lemma dir_link_written:
  assumes "dir_link S L s r"
  shows "sr_written (rcv_reassembler r) \<le> snd_read s"
proof -
  have "{..<sr_written (rcv_reassembler r)} \<subseteq> {..<snd_read s}" using assms by (auto simp: dir_link_def sr_received_def)
  then show ?thesis by simp
qed

lemma dir_link_ended:
  assumes "dir_link S L s r" and "bs_input_ended (TCPReceiver_stream_out r)"
  shows "rcv_next r = L + 2" and "snd_next_seq_no s = L + 2" and "sr_written (rcv_reassembler r) = L"
proof -
  have sr: "sr_inv S L (rcv_reassembler r)" using assms(1) by (simp add: dir_link_def rcv_ok_def)
  then show w: "sr_written (rcv_reassembler r) = L" using assms(2) by (auto simp: sr_inv_def TCPReceiver_stream_out_def)
  then show "rcv_next r = L + 2" using assms(2) by (simp add: rcv_next_def)
  have "sr_eof_index (rcv_reassembler r) \<noteq> None" using sr assms(2) by (simp add: sr_inv_def TCPReceiver_stream_out_def)
  then show "snd_next_seq_no s = L + 2" using assms(1) by (simp add: dir_link_def)
qed

text \<open>Nothing is acknowledged that was not sent.\<close>

lemma dir_link_acked:
  assumes "dir_link S L s r"
  shows "rcv_acked r \<le> snd_next_seq_no s"
proof (cases "bs_input_ended (TCPReceiver_stream_out r)")
  case True
  then show ?thesis using dir_link_ended [OF assms True] by (simp add: rcv_acked_def)
next
  case False
  have "snd_stream_ok S L s" using assms by (simp add: dir_link_def snd_inv_def)
  then have "0 < snd_next_seq_no s \<longrightarrow> snd_read s + 1 \<le> snd_next_seq_no s" by (auto simp: snd_stream_ok_def)
  then show ?thesis using False assms dir_link_written [OF assms]
    by (auto simp: rcv_acked_def rcv_next_def dir_link_def)
qed

text \<open>What is acknowledged completely was received completely.\<close>

lemma dir_acked_all:
  assumes "dir_inv S L s r D K" and "snd_last_ack_no s = L + 2"
  shows "bs_input_ended (TCPReceiver_stream_out r)" and "sr_written (rcv_reassembler r) = L"
proof -
  have l: "dir_link S L s r" and "L + 2 \<le> rcv_acked r" using assms by (simp_all add: dir_inv_def dir_window_def)
  then have n: "L + 2 \<le> rcv_next r" by (auto simp: rcv_acked_def split: if_splits)
  have "sr_inv S L (rcv_reassembler r)" using l by (simp add: dir_link_def rcv_ok_def)
  then have "sr_written (rcv_reassembler r) \<le> L" by (rule sr_inv_bounds)
  then show e: "bs_input_ended (TCPReceiver_stream_out r)" using n by (auto simp: rcv_next_def split: if_splits)
  show "sr_written (rcv_reassembler r) = L" by (rule dir_link_ended [OF l e])
qed

section \<open>Monotonicity\<close>

definition rcv_le :: "TCPReceiver \<Rightarrow> TCPReceiver \<Rightarrow> bool" where
  "rcv_le r q \<longleftrightarrow> rcv_edge r \<le> rcv_edge q \<and> sr_written (rcv_reassembler r) \<le> sr_written (rcv_reassembler q) \<and>
     rcv_acked r \<le> rcv_acked q"

lemma seg_sent_mono:
  assumes "seg_sent S L s r seg" and "snd_isn t = snd_isn s" and "snd_next_seq_no s \<le> snd_next_seq_no t" and "rcv_le r q"
  shows "seg_sent S L t q seg"
proof -
  obtain a where a: "seg_genuine S L (snd_isn s) a seg" "a + seg_len seg \<le> snd_next_seq_no s" "seg_fits r a seg"
    using assms(1) by (auto simp: seg_sent_def)
  have "seg_fits q a seg" using a(3) assms(4) by (auto simp: seg_fits_def rcv_le_def)
  then show ?thesis using a assms(2,3) by (auto simp: seg_sent_def)
qed

lemma ack_sent_mono:
  assumes "ack_sent L isn r k" and "rcv_le r q"
  shows "ack_sent L isn q k"
proof -
  obtain a where a: "fst k = wrap a isn" "a \<le> rcv_acked r" "a + unat (snd k) \<le> rcv_edge r + 1 \<or> a = L + 2"
    using assms(1) by (auto simp: ack_sent_def)
  have "a \<le> rcv_acked q" "a + unat (snd k) \<le> rcv_edge q + 1 \<or> a = L + 2"
    using a(2,3) assms(2) by (auto simp: rcv_le_def)
  then show ?thesis using a(1) by (auto simp: ack_sent_def)
qed

lemma rcv_le_refl [simp]: "rcv_le r r"
  by (simp add: rcv_le_def)

lemma dir_window_mono:
  assumes "dir_window L s r" and "rcv_le r q"
  shows "dir_window L s q"
  using assms unfolding dir_window_def rcv_le_def by linarith

lemma dir_inv_receiver:
  assumes "dir_inv S L s r D K" and "rcv_le r q" and "dir_link S L s q"
  shows "dir_inv S L s q D K"
  using assms dir_window_mono seg_sent_mono [OF _ refl le_refl assms(2)] ack_sent_mono [OF _ assms(2)]
  unfolding dir_inv_def by blast

text \<open>The sender may change without sending.\<close>

lemma dir_inv_sender:
  assumes "dir_inv S L s r D K" and "dir_link S L t r" and "dir_window L t r"
    and "snd_isn t = snd_isn s" and "snd_next_seq_no s \<le> snd_next_seq_no t"
    and "set (snd_outstanding_segments t) \<subseteq> set (snd_outstanding_segments s) \<union> new"
    and "set (snd_segments_out t) \<subseteq> set (snd_segments_out s) \<union> set (snd_outstanding_segments s) \<union> new"
    and "\<And>seg. seg \<in> new \<Longrightarrow> plain seg \<and> seg_sent S L t r seg"
  shows "dir_inv S L t r D K"
proof -
  have m: "seg_sent S L s r seg \<Longrightarrow> seg_sent S L t r seg" for seg
    using seg_sent_mono [OF _ assms(4,5) rcv_le_refl] .
  have "\<forall>seg \<in> set (snd_outstanding_segments t) \<union> set (snd_segments_out t). plain seg \<and> seg_sent S L t r seg"
    using assms(1,6-8) m unfolding dir_inv_def by blast
  moreover have "\<forall>seg \<in> D. th_rst (seg_header seg) \<or> seg_sent S L t r seg"
    using assms(1) m unfolding dir_inv_def by blast
  ultimately show ?thesis using assms(1-4) unfolding dir_inv_def by simp
qed

section \<open>Operations of the sender\<close>

lemma dir_link_sender:
  assumes "dir_link S L s r" and "snd_inv S L t" and "snd_isn t = snd_isn s" and "snd_read s \<le> snd_read t"
    and "snd_next_seq_no s \<le> snd_next_seq_no t"
  shows "dir_link S L t r"
proof -
  have "snd_next_seq_no t \<le> L + 2" using assms(2) snd_next_bound [of S L t] by (simp add: snd_inv_def)
  then show ?thesis using assms unfolding dir_link_def by auto
qed

lemma dir_write:
  assumes inv: "dir_inv S L s r D K" and n: "n = min (length data) (snd_room s)"
    and data: "take n data = map S [snd_written s..<snd_written s + n]"
    and fit: "snd_written s + n \<le> L" and open_: "\<not> bs_input_ended (snd_stream s)"
  obtains st where "ByteStream_write data (snd_stream s) = Some (n, st)"
    and "dir_inv S L (s\<lparr>snd_stream := st\<rparr>) r D K" and "bs_same_flags (snd_stream s) st"
    and "bs_bytes_written st = snd_written s + n"
proof -
  have link: "dir_link S L s r" and i: "snd_inv S L s" using inv by (simp_all add: dir_inv_def dir_link_def)
  obtain st where w: "ByteStream_write data (snd_stream s) = Some (n, st)"
    "snd_inv S L (s\<lparr>snd_stream := st\<rparr>)" "bs_same_flags (snd_stream s) st" "bs_bytes_written st = snd_written s + n"
    "bs_bytes_read st = snd_read s"
    by (rule write_inv [OF i n data fit open_])
  have "dir_link S L (s\<lparr>snd_stream := st\<rparr>) r" using w by (intro dir_link_sender [OF link]) simp_all
  then have "dir_inv S L (s\<lparr>snd_stream := st\<rparr>) r D K"
    using inv by (intro dir_inv_sender [OF inv, where new = "{}"]) (auto simp: dir_inv_def dir_window_def)
  with w show ?thesis by (intro that)
qed

lemma dir_end_input:
  assumes inv: "dir_inv S L s r D K" and all: "snd_written s = L"
  shows "dir_inv S L (s\<lparr>snd_stream := ByteStream_end_input (snd_stream s)\<rparr>) r D K"
proof -
  let ?t = "s\<lparr>snd_stream := ByteStream_end_input (snd_stream s)\<rparr>"
  have link: "dir_link S L s r" and i: "snd_inv S L s" using inv by (simp_all add: dir_inv_def dir_link_def)
  have "snd_inv S L ?t" using i all
    by (auto simp: snd_inv_def snd_stream_ok_def snd_queue_ok_def snd_out_ok_def out_inv_def)
  then have "dir_link S L ?t r" by (intro dir_link_sender [OF link]) simp_all
  then show ?thesis
    using inv by (intro dir_inv_sender [OF inv, where new = "{}"]) (auto simp: dir_inv_def dir_window_def)
qed

text \<open>New segments fit the window of the receiver, whatever acknowledgment the sender knows.\<close>

lemma fill_fits:
  assumes link: "dir_link S L s r" and win: "dir_window L s r" and last: "snd_last_ack_no s \<le> snd_next_seq_no s"
    and gen: "seg_genuine S L isn c seg" and c: "snd_next_seq_no s \<le> c" "0 < seg_len seg"
    and nx: "c + seg_len seg \<le> nx" "nx \<le> L + 2" "nx \<le> max (snd_next_seq_no s) (snd_last_ack_no s + max 1 (snd_window_size s))"
  shows "seg_fits r c seg"
proof -
  let ?n = "length (Buffer_str (seg_payload seg))" and ?W = "sr_written (rcv_reassembler r)"
  have more: "snd_next_seq_no s < L + 2" and edge: "c + seg_len seg \<le> snd_last_ack_no s + max 1 (snd_window_size s)"
    using c nx by auto
  then have known: "snd_last_ack_no s + snd_window_size s \<le> rcv_edge r + 1" using win last by (auto simp: dir_window_def)
  have len: "seg_len seg = ?n + (if c = 0 then 1 else 0) + (if th_fin (seg_header seg) then 1 else 0)"
    using gen by (simp add: seg_len_def seg_genuine_def)
  show ?thesis
  proof (cases "snd_window_size s = 0")
    case False
    then have "c + seg_len seg \<le> rcv_edge r + 1" using edge known by (simp add: max_def split: if_splits)
    then show ?thesis using len by (auto simp: seg_fits_def split: if_splits)
  next
    case True
    then have one: "c = snd_last_ack_no s" "seg_len seg = 1" using edge c last by auto
    have "\<not> bs_input_ended (TCPReceiver_stream_out r)" using dir_link_ended(2) [OF link] more by auto
    then have "c \<le> ?W + 1" using win one by (auto simp: dir_window_def rcv_acked_def rcv_next_def split: if_splits)
    moreover have "?W \<le> rcv_edge r"
      using link sr_inv_bounds(6) [of S L "rcv_reassembler r"] by (simp add: dir_link_def rcv_ok_def rcv_edge_def)
    moreover have "?n \<le> 1" using len one(2) by linarith
    ultimately show ?thesis unfolding seg_fits_def by linarith
  qed
qed

lemma segs_from_pos: "segs_from S L isn m a segs b \<Longrightarrow> seg \<in> set segs \<Longrightarrow> 0 < seg_len seg"
  by (induction segs arbitrary: a) auto

lemma dir_fill:
  assumes inv: "dir_inv S L s r D K" and ok: "0 < snd_next_seq_no s \<or> \<not> bs_error (snd_stream s)"
  obtains t new where "TCPSender_fill_window s = Some t" and "dir_inv S L t r D K" and "0 < snd_next_seq_no t"
    and "filled S L s new t"
proof -
  have link: "dir_link S L s r" and win: "dir_window L s r" and i: "snd_inv S L s"
    using inv by (simp_all add: dir_inv_def dir_link_def)
  obtain new t where t: "TCPSender_fill_window s = Some t" "snd_inv S L t" "filled S L s new t" "0 < snd_next_seq_no t"
    by (rule fill_window_returns [OF i ok])
  have f: "snd_segments_out t = snd_segments_out s @ new" "snd_outstanding_segments t = snd_outstanding_segments s @ new"
    "segs_from S L (snd_isn s) 1001 (snd_next_seq_no s) new (snd_next_seq_no t)" "snd_isn t = snd_isn s"
    "snd_last_ack_no t = snd_last_ack_no s" "snd_window_size t = snd_window_size s"
    "snd_next_seq_no t \<le> max (snd_next_seq_no s) (snd_last_ack_no s + max 1 (snd_window_size s))"
    using t(3) by (simp_all add: filled_def)
  have le: "snd_next_seq_no s \<le> snd_next_seq_no t" using filled_le [OF t(3)] by (simp add: snd_le_def)
  have last: "snd_last_ack_no s \<le> snd_next_seq_no s" using i by (simp add: snd_inv_def snd_queue_ok_def)
  have nb: "snd_next_seq_no t \<le> L + 2" using t(2) snd_next_bound [of S L t] by (simp add: snd_inv_def)
  have sent: "plain seg \<and> seg_sent S L t r seg" if mem: "seg \<in> set new" for seg
  proof -
    obtain c where c: "seg_genuine S L (snd_isn s) c seg" "snd_next_seq_no s \<le> c" "c + seg_len seg \<le> snd_next_seq_no t"
      using segs_from_genuine [OF f(3) mem] by blast
    have "seg_fits r c seg"
      by (rule fill_fits [OF link win last c(1,2) segs_from_pos [OF f(3) mem] c(3) nb f(7)])
    then show ?thesis using c f(4) t(3) mem by (auto simp: seg_sent_def filled_def)
  qed
  have "dir_link S L t r"
    using t(2) f(4) filled_read [OF t(3) i t(2)] le by (intro dir_link_sender [OF link])
  then have "dir_inv S L t r D K" using win f sent le
    by (intro dir_inv_sender [OF inv, where new = "set new"]) (auto simp: dir_window_def)
  with t show ?thesis by (intro that)
qed

lemma dir_link_bounds:
  assumes "dir_link S L s r"
  shows "snd_next_seq_no s \<le> L + 2" and "L + 2 < 2 ^ 31" and "rcv_acked r \<le> L + 2"
    and "snd_last_ack_no s \<le> snd_next_seq_no s"
proof -
  show nx: "snd_next_seq_no s \<le> L + 2" and "L + 2 < 2 ^ 31" and "snd_last_ack_no s \<le> snd_next_seq_no s"
    using assms snd_next_bound [of S L s] by (simp_all add: dir_link_def snd_inv_def snd_queue_ok_def)
  show "rcv_acked r \<le> L + 2" using dir_link_acked [OF assms] nx by simp
qed

lemma dir_ack:
  assumes inv: "dir_inv S L s r D K" and k: "(ackno, win) \<in> K"
  shows "dir_inv S L (TCPSender_ack_received ackno win s) r D K"
proof -
  let ?t = "TCPSender_ack_received ackno win s"
  have link: "dir_link S L s r" and w: "dir_window L s r" and i: "snd_inv S L s"
    using inv by (simp_all add: dir_inv_def dir_link_def)
  note b = dir_link_bounds [OF link]
  have "ack_sent L (snd_isn s) r (ackno, win)" using inv k by (simp add: dir_inv_def)
  then obtain a where a: "ackno = wrap a (snd_isn s)" "a \<le> rcv_acked r" "a + unat win \<le> rcv_edge r + 1 \<or> a = L + 2"
    by (auto simp: ack_sent_def)
  have un: "a = unwrap ackno (snd_isn s) (snd_last_ack_no s)"
    unfolding a(1) using a(2) b by (intro unwrap_wrap_near [symmetric]) auto
  have new: "dir_link S L ?t r"
    using ack_received_inv [OF i] ack_received_le [OF i] by (intro dir_link_sender [OF link]) (simp_all add: snd_le_def)
  consider "a < snd_last_ack_no s" | "a = snd_last_ack_no s" | "snd_last_ack_no s < a" by linarith
  then show ?thesis
  proof cases
    case 1
    then show ?thesis using ack_received_ignored [OF un] b(4) inv by simp
  next
    case 2
    then have t: "?t = s\<lparr>snd_window_size := unat win\<rparr>" using un by (intro ack_received_repeated) simp
    then have "dir_window L ?t r" using w a(3) 2 by (simp add: dir_window_def)
    then show ?thesis using new unfolding t by (intro dir_inv_sender [OF inv, where new = "{}"]) auto
  next
    case 3
    have le: "a \<le> snd_next_seq_no s" using a(2) dir_link_acked [OF link] by simp
    obtain acked rest mid where o: "snd_outstanding_segments s = acked @ rest"
      and t: "?t = s\<lparr>snd_bytes_in_flight := snd_next_seq_no s - mid,
        snd_outstanding_segments := rest, snd_timer := (let t = Timer_reset_timeout
          (unat (snd_init_retransmission_timeout s)) (snd_timer s) in if rest = [] then t else Timer_restart t),
        snd_retransmission_count := 0, snd_window_size := unat win, snd_last_ack_no := a\<rparr>"
      by (rule ack_received_new [OF i un 3 le, where win = win])
    have "dir_window L ?t r" using a(2,3) unfolding t by (simp add: dir_window_def)
    then show ?thesis using new o unfolding t by (intro dir_inv_sender [OF inv, where new = "{}"]) auto
  qed
qed

lemma dir_tick:
  assumes inv: "dir_inv S L s r D K"
  obtains t where "TCPSender_tick ms s = Some t" and "dir_inv S L t r D K" and "snd_stream t = snd_stream s"
proof -
  have link: "dir_link S L s r" and w: "dir_window L s r" and i: "snd_inv S L s" and q: "snd_queue_ok S L s"
    using inv by (simp_all add: dir_inv_def dir_link_def snd_inv_def)
  obtain t where t: "TCPSender_tick ms s = Some t" "snd_inv S L t" using tick_inv [OF i] by blast
  note le = tick_le [OF t(1)]
  have new: "dir_link S L t r" using t(2) le by (intro dir_link_sender [OF link]) (simp_all add: snd_le_def)
  have "dir_inv S L t r D K"
  proof (cases "Timer_expired (Timer_tick ms (snd_timer s))")
    case True
    note e = tick_retransmits [OF q True]
    then show ?thesis using t(1) w new
      by (intro dir_inv_sender [OF inv, where new = "{}"]) (auto simp: dir_window_def)
  next
    case False
    then show ?thesis using t(1) w new tick_waits [OF False]
      by (intro dir_inv_sender [OF inv, where new = "{}"]) (auto simp: dir_window_def)
  qed
  with t(1) le show ?thesis by (intro that [of t]) simp_all
qed

lemma dir_send_empty:
  assumes inv: "dir_inv S L s r D K" and pos: "0 < snd_next_seq_no s"
  shows "dir_inv S L (TCPSender_send_empty_segment s) r D K"
proof -
  let ?t = "TCPSender_send_empty_segment s"
  let ?seg = "TCPSegment_default\<lparr>seg_header := TCPHeader_default\<lparr>th_seqno := wrap (snd_next_seq_no s) (snd_isn s)\<rparr>\<rparr>"
  have link: "dir_link S L s r" and w: "dir_window L s r" and i: "snd_inv S L s"
    using inv by (simp_all add: dir_inv_def dir_link_def)
  have f: "snd_isn ?t = snd_isn s" "snd_stream ?t = snd_stream s" "snd_next_seq_no ?t = snd_next_seq_no s"
    "snd_last_ack_no ?t = snd_last_ack_no s" "snd_window_size ?t = snd_window_size s"
    "snd_outstanding_segments ?t = snd_outstanding_segments s"
    "set (snd_segments_out ?t) \<subseteq> set (snd_segments_out s) \<union> {?seg}"
    by (auto simp: TCPSender_send_empty_segment_def)
  have "seg_genuine S L (snd_isn s) (snd_next_seq_no s) ?seg" "seg_len ?seg = 0" "seg_empty ?seg"
    using pos dir_link_bounds(1) [OF link]
    by (simp_all add: seg_genuine_def seg_empty_def seg_len_def TCPSegment_default_def TCPHeader_default_def)
  then have "seg_sent S L ?t r ?seg" using f unfolding seg_sent_def seg_fits_def by auto
  moreover have "plain ?seg" by (simp add: plain_def TCPHeader_default_def TCPSegment_default_def)
  moreover have "dir_link S L ?t r" using f send_empty_inv [OF i pos] by (intro dir_link_sender [OF link]) simp_all
  ultimately show ?thesis using f w by (intro dir_inv_sender [OF inv, where new = "{?seg}"]) (auto simp: dir_window_def)
qed

lemma dir_set_error:
  assumes inv: "dir_inv S L s r D K"
  shows "dir_inv S L (s\<lparr>snd_stream := ByteStream_set_error (snd_stream s)\<rparr>) r D K"
proof -
  let ?t = "s\<lparr>snd_stream := ByteStream_set_error (snd_stream s)\<rparr>"
  have link: "dir_link S L s r" and "snd_inv S L s" using inv by (simp_all add: dir_inv_def dir_link_def)
  then have "snd_inv S L ?t"
    by (auto simp: snd_inv_def snd_stream_ok_def snd_queue_ok_def snd_out_ok_def out_inv_def)
  then have "dir_link S L ?t r" by (intro dir_link_sender [OF link]) simp_all
  then show ?thesis
    using inv by (intro dir_inv_sender [OF inv, where new = "{}"]) (auto simp: dir_inv_def dir_window_def)
qed

text \<open>The connection takes the queued segments, adds acknowledgments and puts them on the wire.\<close>

lemma seg_sent_cong:
  assumes "th_seqno (seg_header x) = th_seqno (seg_header y)" and "th_syn (seg_header x) = th_syn (seg_header y)"
    and "th_fin (seg_header x) = th_fin (seg_header y)" and "Buffer_str (seg_payload x) = Buffer_str (seg_payload y)"
  shows "seg_sent S L s r x = seg_sent S L s r y"
  using assms genuine_cong [OF assms] by (simp add: seg_sent_def seg_fits_def seg_empty_def seg_len_def)

lemma dir_transmit:
  assumes inv: "dir_inv S L s r D K" and "\<And>seg. seg \<in> X \<Longrightarrow> th_rst (seg_header seg) \<or> seg_sent S L s r seg"
  shows "dir_inv S L (s\<lparr>snd_segments_out := []\<rparr>) r (D \<union> X) K"
proof -
  let ?t = "s\<lparr>snd_segments_out := []\<rparr>"
  have link: "dir_link S L s r" and w: "dir_window L s r" and "snd_inv S L s" using inv by (simp_all add: dir_inv_def dir_link_def)
  then have "snd_inv S L ?t" by (auto simp: snd_inv_def snd_stream_ok_def snd_queue_ok_def snd_out_ok_def)
  then have "dir_link S L ?t r" by (intro dir_link_sender [OF link]) simp_all
  then have "dir_inv S L ?t r D K" using w by (intro dir_inv_sender [OF inv, where new = "{}"]) (auto simp: dir_window_def)
  moreover have "seg_sent S L ?t r = seg_sent S L s r" by (auto simp: seg_sent_def fun_eq_iff)
  ultimately show ?thesis using assms(2) by (auto simp: dir_inv_def)
qed

section \<open>Operations of the receiver\<close>

text \<open>Every segment on the wire may be received at any time.\<close>

lemma dir_guard:
  assumes inv: "dir_inv S L s r D K" and rcv: "rcv_inv S L (snd_isn s) r"
    and a: "seg_genuine S L (snd_isn s) a seg" "a + seg_len seg \<le> snd_next_seq_no s" "seg_fits r a seg"
  shows "rcv_guard S L (snd_isn s) r (Arrive a seg)"
proof -
  let ?s = "rcv_reassembler r" and ?n = "length (Buffer_str (seg_payload seg))"
  have link: "dir_link S L s r" using inv by (simp add: dir_inv_def)
  have "a \<le> L + 2" "rcv_next r \<le> L + 2" "1 \<le> rcv_next r" using a(1) rcv_next_bound [OF rcv]
    by (simp_all add: seg_genuine_def rcv_next_def)
  then have near: "rcv_near r a" using dir_link_bounds(2) [OF link] by (auto simp: rcv_near_def)
  have sr: "sr_inv S L ?s" using rcv by (simp add: rcv_inv_def)
  note b = sr_inv_bounds(1,6) [OF sr]
  have "seg_empty seg \<or> a - 1 + ?n \<le> sr_read ?s + sr_capacity ?s \<or>
      sr_written ?s = sr_read ?s + sr_capacity ?s \<and> a - 1 \<le> sr_written ?s \<and> a - 1 + ?n \<le> sr_written ?s + sr_capacity ?s"
    using a(3) b unfolding seg_fits_def rcv_edge_def by linarith
  then show ?thesis using a(1) near by (simp add: sr_in_window_def sr_probe_def)
qed

text \<open>What a segment covers was read from the outgoing stream.\<close>

lemma sent_covered:
  assumes link: "dir_link S L s r" and a: "seg_genuine S L (snd_isn s) a seg" "a + seg_len seg \<le> snd_next_seq_no s"
  shows "{a - 1..<a - 1 + length (Buffer_str (seg_payload seg))} \<subseteq> {..<snd_read s}"
    and "th_fin (seg_header seg) \<Longrightarrow> snd_next_seq_no s = L + 2"
    and "th_syn (seg_header seg) \<Longrightarrow> 0 < snd_next_seq_no s"
proof -
  let ?n = "length (Buffer_str (seg_payload seg))"
  have so: "snd_stream_ok S L s" using link by (simp add: dir_link_def snd_inv_def)
  have len: "seg_len seg = ?n + (if a = 0 then 1 else 0) + (if th_fin (seg_header seg) then 1 else 0)"
    using a(1) by (simp add: seg_len_def seg_genuine_def)
  have con: "seg_empty seg \<or> a - 1 + ?n \<le> L \<and> (th_fin (seg_header seg) \<longrightarrow> a - 1 + ?n = L)"
    using a(1) by (auto simp: seg_genuine_def sr_consistent_def)
  have nx: "snd_next_seq_no s \<le> snd_read s + 1 \<or> snd_read s = L" using so by (auto simp: snd_stream_ok_def)
  show "{a - 1..<a - 1 + ?n} \<subseteq> {..<snd_read s}"
  proof (cases "?n = 0")
    case False
    then have ne: "\<not> seg_empty seg" by (auto simp: seg_empty_def)
    have "a - 1 + ?n + 1 \<le> a + seg_len seg" using len by (auto split: if_splits)
    then have "a - 1 + ?n \<le> snd_read s" using a(2) nx con ne by linarith
    then show ?thesis by auto
  qed simp
  show "snd_next_seq_no s = L + 2" if fin: "th_fin (seg_header seg)"
  proof -
    have "a - 1 + ?n = L" using con fin by (auto simp: seg_empty_def)
    then have "L + 2 \<le> a + seg_len seg" using len fin by (auto split: if_splits)
    then show ?thesis using a(2) dir_link_bounds(1) [OF link] by linarith
  qed
  show "0 < snd_next_seq_no s" if "th_syn (seg_header seg)"
    using that a(2) by (simp add: seg_len_def)
qed

lemma rcv_step_le:
  assumes rcv: "rcv_inv S L isn r" and step: "sr_step S L eof (rcv_reassembler r) t"
  shows "rcv_le r (rcv_open isn r\<lparr>rcv_reassembler := t\<rparr>)"
proof -
  let ?s = "rcv_reassembler r"
  have inv: "sr_inv S L ?s" "sr_inv S L t" and w: "sr_written ?s \<le> sr_written t" and c: "sr_capacity t = sr_capacity ?s"
    "sr_read t = sr_read ?s" and e: "sr_eof_index t = (if eof then Some L else sr_eof_index ?s)"
    using rcv step by (simp_all add: rcv_inv_def sr_step_def)
  have "bs_input_ended (sr_output t)" if "bs_input_ended (sr_output ?s)"
  proof -
    have i: "sr_eof_index ?s = Some (sr_written ?s)" "sr_eof_index ?s = Some L"
      using inv(1) that by (auto simp: sr_inv_def)
    then have "sr_eof_index t = Some L" "sr_written ?s = L" using e by simp_all
    moreover have "sr_written t \<le> L" using inv(2) by (rule sr_inv_bounds)
    ultimately show ?thesis using inv(2) w by (simp add: sr_inv_def)
  qed
  then show ?thesis using w c by (auto simp: rcv_le_def rcv_edge_def rcv_acked_def rcv_next_def TCPReceiver_stream_out_def rcv_open_def)
qed

lemma dir_arrive:
  assumes inv: "dir_inv S L s r D K" and err: "\<not> bs_error (TCPReceiver_stream_out r)"
    and seg: "seg \<in> D" "\<not> th_rst (seg_header seg)"
  obtains q where "TCPReceiver_segment_received seg r = Some q" and "dir_inv S L s q D K"
    and "\<not> bs_error (TCPReceiver_stream_out q)" and "sr_read (rcv_reassembler q) = sr_read (rcv_reassembler r)"
    and "rcv_is_listen q \<longleftrightarrow> rcv_is_listen r \<and> \<not> th_syn (seg_header seg)"
proof -
  let ?isn = "snd_isn s" and ?s = "rcv_reassembler r"
  have link: "dir_link S L s r" using inv by (simp add: dir_inv_def)
  then have rcv: "rcv_inv S L ?isn r" using err by (simp add: rcv_inv_ok dir_link_def)
  obtain a where a: "seg_genuine S L ?isn a seg" "a + seg_len seg \<le> snd_next_seq_no s" "seg_fits r a seg"
    using inv seg by (auto simp: dir_inv_def seg_sent_def)
  note guard = dir_guard [OF inv rcv a] and cov = sent_covered [OF link a(1,2)]
  show ?thesis
  proof (cases "rcv_is_listen r \<and> \<not> th_syn (seg_header seg)")
    case True
    then show ?thesis using rcv_ignored [OF rcv] inv err by (intro that [of r]) simp_all
  next
    case False
    then have syn: "rcv_is_listen r \<longrightarrow> th_syn (seg_header seg)" by simp
    obtain t where t: "TCPReceiver_segment_received seg r = Some (rcv_open ?isn r\<lparr>rcv_reassembler := t\<rparr>)"
      "sr_step S L (th_fin (seg_header seg)) ?s t"
      "sr_received t \<subseteq> sr_received ?s \<union> {a - 1..<a - 1 + length (Buffer_str (seg_payload seg))}"
      by (rule rcv_arrive [OF rcv guard syn])
    let ?q = "rcv_open ?isn r\<lparr>rcv_reassembler := t\<rparr>"
    have q: "rcv_inv S L ?isn ?q" by (rule rcv_pushed_inv [OF rcv t(2)])
    have "\<not> rcv_is_listen ?q" by (simp add: rcv_open_def)
    moreover have "0 < snd_next_seq_no s" using syn cov(3) link by (auto simp: dir_link_def)
    moreover have "sr_received t \<subseteq> {..<snd_read s}" using t(3) cov(1) link by (auto simp: dir_link_def)
    moreover have "sr_eof_index t \<noteq> None \<longrightarrow> snd_next_seq_no s = L + 2"
      using t(2) cov(2) link by (auto simp: sr_step_def dir_link_def split: if_splits)
    ultimately have "dir_link S L s ?q" using link q by (simp add: dir_link_def rcv_inv_ok)
    then have "dir_inv S L s ?q D K" using rcv_step_le [OF rcv t(2)] by (intro dir_inv_receiver [OF inv])
    then show ?thesis using t(1,2) q False by (intro that [of ?q]) (auto simp: rcv_inv_def sr_step_def rcv_open_def)
  qed
qed

lemma dir_read:
  assumes inv: "dir_inv S L s r D K" and m: "m = min n (sr_written (rcv_reassembler r) - sr_read (rcv_reassembler r))"
  obtains out where "ByteStream_read n (TCPReceiver_stream_out r) =
      Some (map S [sr_read (rcv_reassembler r)..<sr_read (rcv_reassembler r) + m], out)"
    and "dir_inv S L s (r\<lparr>rcv_reassembler := (rcv_reassembler r)\<lparr>sr_output := out\<rparr>\<rparr>) D K"
    and "bs_bytes_read out = sr_read (rcv_reassembler r) + m" and "bs_same_flags (TCPReceiver_stream_out r) out"
    and "bs_bytes_written out = sr_written (rcv_reassembler r)"
proof -
  let ?s = "rcv_reassembler r"
  have link: "dir_link S L s r" and sr: "sr_inv S L ?s" using inv by (simp_all add: dir_inv_def dir_link_def rcv_ok_def)
  note b = sr_inv_bounds [OF sr]
  have cap: "0 < bs_capacity (sr_output ?s)" using b(1,8) by simp
  obtain out where out: "ByteStream_read n (sr_output ?s) = Some (map S [sr_read ?s..<sr_read ?s + m], out)"
    "out_inv S out" "bs_bytes_written out = sr_written ?s" "bs_bytes_read out = sr_read ?s + m" "bs_same_flags (sr_output ?s) out"
    by (rule out_read [OF b(9) cap m])
  let ?t = "?s\<lparr>sr_output := out\<rparr>"
  have "\<forall>i \<in> iv_set (ub_index_map (sr_buffer ?s)). i < L \<and> i < bs_bytes_read out + sr_capacity ?s"
    using sr out(4) by (auto simp: sr_inv_def)
  then have "sr_inv S L ?t" using sr out(2,3,5) by (simp add: sr_inv_def bs_same_flags_def)
  moreover have "sr_received ?t = sr_received ?s" using out(3) by (simp add: sr_received_def)
  ultimately have "dir_link S L s (r\<lparr>rcv_reassembler := ?t\<rparr>)" using link by (simp add: dir_link_def rcv_ok_def)
  moreover have "rcv_le r (r\<lparr>rcv_reassembler := ?t\<rparr>)" using out(3-5)
    by (simp add: rcv_le_def rcv_edge_def rcv_acked_def rcv_next_def TCPReceiver_stream_out_def bs_same_flags_def)
  ultimately have "dir_inv S L s (r\<lparr>rcv_reassembler := ?t\<rparr>) D K" by (intro dir_inv_receiver [OF inv])
  then show ?thesis using out by (intro that [of out]) (simp_all add: TCPReceiver_stream_out_def)
qed

text \<open>The acknowledgment and the window that the receiver announces.\<close>

lemma dir_advertise:
  assumes inv: "dir_inv S L s r D K" and err: "\<not> bs_error (TCPReceiver_stream_out r)" and ack: "TCPReceiver_ackno r = Some (Some a)"
  shows "dir_inv S L s r D (insert (a, of_nat (min (TCPReceiver_window_size r) 65535)) K)"
proof -
  let ?s = "rcv_reassembler r" and ?w = "of_nat (min (TCPReceiver_window_size r) 65535) :: u16"
  have link: "dir_link S L s r" using inv by (simp add: dir_inv_def)
  then have rcv: "rcv_inv S L (snd_isn s) r" using err by (simp add: rcv_inv_ok dir_link_def)
  note ans = rcv_inv_answers [OF rcv]
  have l: "\<not> rcv_is_listen r" and a: "a = wrap (rcv_next r) (snd_isn s)" using ans(4) ack by (auto split: if_splits)
  have "unat ?w = min (TCPReceiver_window_size r) 65535" by (simp add: unat_of_nat take_bit_eq_mod)
  then have w: "unat ?w \<le> TCPReceiver_window_size r" by simp
  have cap: "rcv_capacity r = sr_capacity ?s" using rcv by (simp add: rcv_inv_def)
  have "rcv_next r + unat ?w \<le> rcv_edge r + 1 \<or> rcv_next r = L + 2"
  proof (cases "bs_input_ended (TCPReceiver_stream_out r)")
    case True
    then show ?thesis using dir_link_ended(1) [OF link] by simp
  next
    case False
    then show ?thesis using ans(5) w cap by (simp add: rcv_next_def rcv_edge_def)
  qed
  then have "ack_sent L (snd_isn s) r (a, ?w)" unfolding ack_sent_def rcv_acked_def using l a by auto
  then show ?thesis using inv by (simp add: dir_inv_def)
qed

lemma dir_ackno:
  assumes "dir_inv S L s r D K" and "\<not> bs_error (TCPReceiver_stream_out r)"
  shows "TCPReceiver_ackno r = Some (if rcv_is_listen r then None else Some (wrap (rcv_next r) (snd_isn s)))"
  using assms by (intro rcv_inv_answers [of S L]) (simp add: rcv_inv_ok dir_inv_def dir_link_def)

lemma dir_receiver_error:
  assumes inv: "dir_inv S L s r D K"
  shows "dir_inv S L s (r\<lparr>rcv_reassembler := (rcv_reassembler r)\<lparr>sr_output := ByteStream_set_error (sr_output (rcv_reassembler r))\<rparr>\<rparr>) D K"
proof -
  let ?q = "r\<lparr>rcv_reassembler := (rcv_reassembler r)\<lparr>sr_output := ByteStream_set_error (sr_output (rcv_reassembler r))\<rparr>\<rparr>"
  have link: "dir_link S L s r" using inv by (simp add: dir_inv_def)
  then have "sr_inv S L (rcv_reassembler ?q)" by (auto simp: dir_link_def rcv_ok_def sr_inv_def out_inv_def)
  moreover have "sr_received (rcv_reassembler ?q) = sr_received (rcv_reassembler r)" by (simp add: sr_received_def)
  ultimately have "dir_link S L s ?q" using link by (simp add: dir_link_def rcv_ok_def)
  moreover have "rcv_le r ?q" by (simp add: rcv_le_def rcv_edge_def rcv_acked_def rcv_next_def TCPReceiver_stream_out_def)
  ultimately show ?thesis by (intro dir_inv_receiver [OF inv])
qed

text \<open>Fewer segments and acknowledgments.\<close>

lemma dir_inv_subset: "dir_inv S L s r D K \<Longrightarrow> D' \<subseteq> D \<Longrightarrow> K' \<subseteq> K \<Longrightarrow> dir_inv S L s r D' K'"
  unfolding dir_inv_def by blast

end
