(* ===== verification/TCP_Endpoint.thy ===== *)
theory TCP_Endpoint
  imports TCP_Connection TCP_Direction
begin

text \<open>
  One TCPConnection with its peer and the wire: every call of the connection returns and keeps the
  invariants of both directions (\<open>TCP_Direction\<close>).
\<close>

section \<open>One endpoint\<close>

definition acks_of :: "TCPSegment set \<Rightarrow> (WrappingInt32 \<times> u16) set" where
  "acks_of X = {(th_ackno (seg_header seg), th_win (seg_header seg)) |seg. seg \<in> X \<and> th_ack (seg_header seg)}"

lemma acks_of_Un: "acks_of (X \<union> Y) = acks_of X \<union> acks_of Y"
  by (auto simp: acks_of_def)

text \<open>The connection \<open>c\<close> has put \<open>W\<close> on the wire; its peer has the sender \<open>p\<close>, the receiver \<open>q\<close> and has
  sent \<open>X\<close>. \<open>So\<close> is the stream that goes out, \<open>Si\<close> the one that comes in.\<close>

definition linked :: "(nat \<Rightarrow> u8) \<Rightarrow> nat \<Rightarrow> (nat \<Rightarrow> u8) \<Rightarrow> nat \<Rightarrow> TCPConnection \<Rightarrow> TCPSegment set \<Rightarrow>
    TCPSender \<Rightarrow> TCPReceiver \<Rightarrow> TCPSegment set \<Rightarrow> bool" where
  "linked So Lo Si Li c W p q X \<longleftrightarrow>
     dir_inv So Lo (tc_sender c) q (W \<union> set (tc_segments_out c)) (acks_of X) \<and>
     dir_inv Si Li p (tc_receiver c) X (acks_of (W \<union> set (tc_segments_out c)))"

definition no_errors :: "TCPConnection \<Rightarrow> bool" where
  "no_errors c \<longleftrightarrow> \<not> tc_need_send_rst c \<and> \<not> bs_error (snd_stream (tc_sender c)) \<and>
     \<not> bs_error (TCPReceiver_stream_out (tc_receiver c))"

definition live :: "TCPConnection \<Rightarrow> bool" where
  "live c \<longleftrightarrow> no_errors c \<and> snd_segments_out (tc_sender c) = []"

text \<open>What no call but a write, an end or a read changes: the numbers of bytes written and read by the
  owner.\<close>

definition same_streams :: "TCPConnection \<Rightarrow> TCPConnection \<Rightarrow> bool" where
  "same_streams c d \<longleftrightarrow> snd_written (tc_sender d) = snd_written (tc_sender c) \<and>
     bs_input_ended (snd_stream (tc_sender d)) = bs_input_ended (snd_stream (tc_sender c)) \<and>
     sr_read (rcv_reassembler (tc_receiver d)) = sr_read (rcv_reassembler (tc_receiver c))"

lemma same_streams_trans: "same_streams c d \<Longrightarrow> same_streams d e \<Longrightarrow> same_streams c e"
  by (simp add: same_streams_def)

lemma linked_update [simp]:
  "linked So Lo Si Li (c\<lparr>tc_ms_since_last_recv := ms\<rparr>) W p q X = linked So Lo Si Li c W p q X"
  "linked So Lo Si Li (c\<lparr>tc_active := b\<rparr>) W p q X = linked So Lo Si Li c W p q X"
  "linked So Lo Si Li (c\<lparr>tc_linger_after_stream_finish := b\<rparr>) W p q X = linked So Lo Si Li c W p q X"
  "linked So Lo Si Li (c\<lparr>tc_need_send_rst := b\<rparr>) W p q X = linked So Lo Si Li c W p q X"
  by (simp_all add: linked_def)

lemma no_errors_update [simp]:
  "no_errors (c\<lparr>tc_ms_since_last_recv := ms\<rparr>) = no_errors c" "no_errors (c\<lparr>tc_active := b\<rparr>) = no_errors c"
  "no_errors (c\<lparr>tc_linger_after_stream_finish := b\<rparr>) = no_errors c" "no_errors (c\<lparr>tc_segments_out := segs\<rparr>) = no_errors c"
  by (simp_all add: no_errors_def)

lemma same_streams_update [simp]:
  "same_streams c (d\<lparr>tc_ms_since_last_recv := ms\<rparr>) = same_streams c d" "same_streams c (d\<lparr>tc_active := b\<rparr>) = same_streams c d"
  "same_streams c (d\<lparr>tc_linger_after_stream_finish := b\<rparr>) = same_streams c d" "same_streams c (d\<lparr>tc_segments_out := segs\<rparr>) = same_streams c d"
  "same_streams c (d\<lparr>tc_need_send_rst := b\<rparr>) = same_streams c d" "same_streams c c"
  by (simp_all add: same_streams_def)

text \<open>A clean shutdown changes the activity only.\<close>

lemma try_clean_cases:
  "TCPConnection_try_clean_shutdown c = c \<or> TCPConnection_try_clean_shutdown c = c\<lparr>tc_active := False\<rparr>"
  by (simp add: TCPConnection_try_clean_shutdown_def)

lemma try_clean_keeps [simp]:
  "linked So Lo Si Li (TCPConnection_try_clean_shutdown c) W p q X = linked So Lo Si Li c W p q X"
  "no_errors (TCPConnection_try_clean_shutdown c) = no_errors c"
  "same_streams d (TCPConnection_try_clean_shutdown c) = same_streams d c"
  "tc_sender (TCPConnection_try_clean_shutdown c) = tc_sender c"
  "tc_receiver (TCPConnection_try_clean_shutdown c) = tc_receiver c"
  by (simp_all add: TCPConnection_try_clean_shutdown_def)

subsection \<open>Segments leave\<close>

text \<open>The segments of the sender carry no acknowledgment of their own.\<close>

lemma acks_of_stamped:
  assumes "\<And>seg. seg \<in> set segs \<Longrightarrow> plain seg"
  shows "acks_of (stamp_ack a w ` set segs) \<subseteq> (case a of None \<Rightarrow> {} | Some k \<Rightarrow> {(k, of_nat (min w 65535))})"
  using assms by (auto simp: acks_of_def stamp_ack_def plain_def split: option.splits)

lemma enqueue_linked:
  assumes link: "linked So Lo Si Li c W p q X" and ok: "no_errors c"
  obtains d where "TCPConnection_enqueue_segments c = Some d" and "linked So Lo Si Li d W p q X" and "live d"
    and "same_streams c d" and "tc_active d = tc_active c" and "tc_receiver d = tc_receiver c"
    and "tc_sender d = (tc_sender c)\<lparr>snd_segments_out := []\<rparr>"
proof -
  let ?a = "if rcv_is_listen (tc_receiver c) then None else Some (wrap (rcv_next (tc_receiver c)) (snd_isn p))"
  let ?w = "TCPReceiver_window_size (tc_receiver c)" and ?old = "W \<union> set (tc_segments_out c)"
  let ?segs = "snd_segments_out (tc_sender c)" and ?new = "stamp_ack ?a ?w ` set (snd_segments_out (tc_sender c))"
  let ?d = "c\<lparr>tc_segments_out := tc_segments_out c @ map (stamp_ack ?a ?w) ?segs, tc_sender := (tc_sender c)\<lparr>snd_segments_out := []\<rparr>\<rparr>"
  have o: "dir_inv So Lo (tc_sender c) q ?old (acks_of X)" and i: "dir_inv Si Li p (tc_receiver c) X (acks_of ?old)"
    using link by (simp_all add: linked_def)
  have rst: "\<not> tc_need_send_rst c" and err: "\<not> bs_error (TCPReceiver_stream_out (tc_receiver c))"
    using ok by (simp_all add: no_errors_def)
  have ack: "TCPReceiver_ackno (tc_receiver c) = Some ?a" by (rule dir_ackno [OF i err])
  have sent: "plain seg \<and> seg_sent So Lo (tc_sender c) q seg" if "seg \<in> set ?segs" for seg
    using o that by (simp add: dir_inv_def)
  have stamped: "seg_sent So Lo (tc_sender c) q (stamp_ack ?a ?w seg)" if "seg \<in> set ?segs" for seg
    using sent [OF that] seg_sent_cong [of "stamp_ack ?a ?w seg" seg] by simp
  have out: "dir_inv So Lo ((tc_sender c)\<lparr>snd_segments_out := []\<rparr>) q (?old \<union> ?new) (acks_of X)"
    by (rule dir_transmit [OF o]) (use stamped in auto)
  have "acks_of ?new \<subseteq> (case ?a of None \<Rightarrow> {} | Some k \<Rightarrow> {(k, of_nat (min ?w 65535))})"
    by (rule acks_of_stamped) (use sent in blast)
  moreover have "dir_inv Si Li p (tc_receiver c) X (acks_of ?old \<union> (case ?a of None \<Rightarrow> {} | Some k \<Rightarrow> {(k, of_nat (min ?w 65535))}))"
    using i dir_advertise [OF i err] ack by (simp split: if_splits)
  ultimately have "dir_inv Si Li p (tc_receiver c) X (acks_of (?old \<union> ?new))"
    unfolding acks_of_Un by (elim dir_inv_subset) auto
  then have "linked So Lo Si Li ?d W p q X" using out by (simp add: linked_def Un_assoc)
  moreover have "TCPConnection_enqueue_segments c = Some ?d"
    unfolding TCPConnection_enqueue_segments_def by (rule enqueue_loop_stamps [OF rst ack])
  ultimately show ?thesis using ok by (intro that [of ?d]) (simp_all add: live_def no_errors_def same_streams_def)
qed

lemma fill_linked:
  assumes link: "linked So Lo Si Li c W p q X" and ok: "no_errors c"
  obtains s where "TCPSender_fill_window (tc_sender c) = Some s" and "linked So Lo Si Li (c\<lparr>tc_sender := s\<rparr>) W p q X"
    and "no_errors (c\<lparr>tc_sender := s\<rparr>)" and "same_streams c (c\<lparr>tc_sender := s\<rparr>)" and "0 < snd_next_seq_no s"
proof -
  have o: "dir_inv So Lo (tc_sender c) q (W \<union> set (tc_segments_out c)) (acks_of X)" using link by (simp add: linked_def)
  obtain s new where s: "TCPSender_fill_window (tc_sender c) = Some s"
    "dir_inv So Lo s q (W \<union> set (tc_segments_out c)) (acks_of X)" "0 < snd_next_seq_no s" "filled So Lo (tc_sender c) new s"
    by (rule dir_fill [OF o]) (use ok in \<open>simp add: no_errors_def\<close>)
  have "snd_written s = snd_written (tc_sender c)" "bs_same_flags (snd_stream (tc_sender c)) (snd_stream s)"
    using s(4) by (simp_all add: filled_def)
  then show ?thesis using s link ok
    by (intro that [of s]) (simp_all add: linked_def no_errors_def same_streams_def bs_same_flags_def)
qed

text \<open>Filling the window and sending what it gives, the last steps of most calls.\<close>

lemma fill_enqueue:
  assumes link: "linked So Lo Si Li c W p q X" and ok: "no_errors c"
  obtains s d where "TCPSender_fill_window (tc_sender c) = Some s" and "TCPConnection_enqueue_segments (c\<lparr>tc_sender := s\<rparr>) = Some d"
    and "linked So Lo Si Li d W p q X" and "live d" and "same_streams c d" and "tc_active d = tc_active c"
    and "0 < snd_next_seq_no (tc_sender d)"
proof -
  obtain s where s: "TCPSender_fill_window (tc_sender c) = Some s" "linked So Lo Si Li (c\<lparr>tc_sender := s\<rparr>) W p q X"
    "no_errors (c\<lparr>tc_sender := s\<rparr>)" "same_streams c (c\<lparr>tc_sender := s\<rparr>)" "0 < snd_next_seq_no s"
    by (rule fill_linked [OF link ok])
  obtain d where "TCPConnection_enqueue_segments (c\<lparr>tc_sender := s\<rparr>) = Some d" "linked So Lo Si Li d W p q X" "live d"
    "same_streams (c\<lparr>tc_sender := s\<rparr>) d" "tc_active d = tc_active (c\<lparr>tc_sender := s\<rparr>)"
    "tc_receiver d = tc_receiver (c\<lparr>tc_sender := s\<rparr>)" "tc_sender d = (tc_sender (c\<lparr>tc_sender := s\<rparr>))\<lparr>snd_segments_out := []\<rparr>"
    by (rule enqueue_linked [OF s(2,3)])
  then show ?thesis using s(1,4,5) same_streams_trans by (intro that [of s d]) auto
qed

subsection \<open>The calls\<close>

lemma connect_linked:
  assumes "linked So Lo Si Li c W p q X" and "no_errors c"
  obtains d where "TCPConnection_connect c = Some d" and "linked So Lo Si Li d W p q X" and "live d"
    and "same_streams c d" and "tc_active d = tc_active c" and "0 < snd_next_seq_no (tc_sender d)"
proof -
  obtain s d where d: "TCPSender_fill_window (tc_sender c) = Some s" "TCPConnection_enqueue_segments (c\<lparr>tc_sender := s\<rparr>) = Some d"
    "linked So Lo Si Li d W p q X" "live d" "same_streams c d" "tc_active d = tc_active c" "0 < snd_next_seq_no (tc_sender d)"
    by (rule fill_enqueue [OF assms])
  then show ?thesis by (intro that [of d]) (simp_all add: TCPConnection_connect_def)
qed

lemma write_linked:
  assumes link: "linked So Lo Si Li c W p q X" and ok: "no_errors c" and n: "n = min (length data) (snd_room (tc_sender c))"
    and data: "take n data = map So [snd_written (tc_sender c)..<snd_written (tc_sender c) + n]"
    and fit: "snd_written (tc_sender c) + n \<le> Lo" and open_: "\<not> bs_input_ended (snd_stream (tc_sender c))"
  obtains d where "TCPConnection_write data c = Some (n, d)" and "linked So Lo Si Li d W p q X" and "live d"
    and "snd_written (tc_sender d) = snd_written (tc_sender c) + n" and "\<not> bs_input_ended (snd_stream (tc_sender d))"
    and "sr_read (rcv_reassembler (tc_receiver d)) = sr_read (rcv_reassembler (tc_receiver c))" and "tc_active d = tc_active c"
    and "0 < snd_next_seq_no (tc_sender d)"
proof -
  have o: "dir_inv So Lo (tc_sender c) q (W \<union> set (tc_segments_out c)) (acks_of X)" using link by (simp add: linked_def)
  obtain st where w: "ByteStream_write data (snd_stream (tc_sender c)) = Some (n, st)"
    "dir_inv So Lo ((tc_sender c)\<lparr>snd_stream := st\<rparr>) q (W \<union> set (tc_segments_out c)) (acks_of X)"
    "bs_same_flags (snd_stream (tc_sender c)) st" "bs_bytes_written st = snd_written (tc_sender c) + n"
    by (rule dir_write [OF o n data fit open_])
  let ?c = "c\<lparr>tc_sender := (tc_sender c)\<lparr>snd_stream := st\<rparr>\<rparr>"
  have l: "linked So Lo Si Li ?c W p q X" "no_errors ?c"
    using w(2,3) link ok by (simp_all add: linked_def no_errors_def bs_same_flags_def)
  obtain s d where d: "TCPSender_fill_window (tc_sender ?c) = Some s" "TCPConnection_enqueue_segments (?c\<lparr>tc_sender := s\<rparr>) = Some d"
    "linked So Lo Si Li d W p q X" "live d" "same_streams ?c d" "tc_active d = tc_active ?c" "0 < snd_next_seq_no (tc_sender d)"
    by (rule fill_enqueue [OF l])
  then have "TCPConnection_write data c = Some (n, d)" using w(1) by (simp add: TCPConnection_write_def)
  with d w open_ show ?thesis by (intro that [of d]) (auto simp: same_streams_def bs_same_flags_def)
qed

text \<open>A connection that gave up keeps a segment in the queue of its sender; it is out of the game.\<close>

definition quiet :: "TCPConnection \<Rightarrow> TCPConnection" where
  "quiet c = c\<lparr>tc_sender := (tc_sender c)\<lparr>snd_segments_out := []\<rparr>\<rparr>"

lemma quiet_live [simp]: "live c \<Longrightarrow> quiet c = c"
  by (cases c; cases "tc_sender c") (simp add: quiet_def live_def)

lemma quiet_simps [simp]:
  "tc_receiver (quiet c) = tc_receiver c" "tc_segments_out (quiet c) = tc_segments_out c" "tc_active (quiet c) = tc_active c"
  "snd_written (tc_sender (quiet c)) = snd_written (tc_sender c)"
  "snd_stream (tc_sender (quiet c)) = snd_stream (tc_sender c)"
  by (simp_all add: quiet_def)

text \<open>What a write accepts.\<close>

lemma write_accepts:
  assumes "linked So Lo Si Li (quiet c) W p q X" and "TCPConnection_write data c = Some (n, d)"
  shows "n = min (length data) (snd_room (tc_sender c))"
proof -
  have "out_inv So (snd_stream (tc_sender c))"
    using assms(1) by (simp add: linked_def dir_inv_def dir_link_def snd_inv_def snd_stream_ok_def)
  then have "bs_inv (snd_stream (tc_sender c))" by (simp add: out_inv_def)
  then obtain t where "ByteStream_write data (snd_stream (tc_sender c)) = Some (min (length data) (snd_room (tc_sender c)), t)"
    by (rule ByteStream_write_spec [OF _ refl])
  then show ?thesis using assms(2) by (auto simp: TCPConnection_write_def bind_eq_Some_conv)
qed

lemma end_input_linked:
  assumes link: "linked So Lo Si Li c W p q X" and ok: "no_errors c" and all: "snd_written (tc_sender c) = Lo"
  obtains d where "TCPConnection_end_input_stream c = Some d" and "linked So Lo Si Li d W p q X" and "live d"
    and "snd_written (tc_sender d) = snd_written (tc_sender c)" and "bs_input_ended (snd_stream (tc_sender d))"
    and "sr_read (rcv_reassembler (tc_receiver d)) = sr_read (rcv_reassembler (tc_receiver c))" and "tc_active d = tc_active c"
    and "0 < snd_next_seq_no (tc_sender d)"
proof -
  let ?c = "c\<lparr>tc_sender := (tc_sender c)\<lparr>snd_stream := ByteStream_end_input (snd_stream (tc_sender c))\<rparr>\<rparr>"
  have "dir_inv So Lo (tc_sender ?c) q (W \<union> set (tc_segments_out c)) (acks_of X)"
    using link all dir_end_input by (simp add: linked_def)
  then have l: "linked So Lo Si Li ?c W p q X" "no_errors ?c" using link ok by (simp_all add: linked_def no_errors_def)
  obtain s d where d: "TCPSender_fill_window (tc_sender ?c) = Some s" "TCPConnection_enqueue_segments (?c\<lparr>tc_sender := s\<rparr>) = Some d"
    "linked So Lo Si Li d W p q X" "live d" "same_streams ?c d" "tc_active d = tc_active ?c" "0 < snd_next_seq_no (tc_sender d)"
    by (rule fill_enqueue [OF l])
  then have "TCPConnection_end_input_stream c = Some d" by (simp add: TCPConnection_end_input_stream_def)
  with d show ?thesis by (intro that [of d]) (simp_all add: same_streams_def)
qed

lemma unclean_linked:
  assumes "linked So Lo Si Li c W p q X"
  shows "linked So Lo Si Li (TCPConnection_unclean_shutdown c) W p q X"
    and "same_streams c (TCPConnection_unclean_shutdown c)" and "\<not> tc_active (TCPConnection_unclean_shutdown c)"
  using assms dir_set_error dir_receiver_error
  by (simp_all add: linked_def TCPConnection_unclean_shutdown_def snd_set_error_def rcv_set_error_def same_streams_def)

lemma rst_linked:
  assumes link: "linked So Lo Si Li c W p q X" and rst: "tc_need_send_rst c"
    and segs: "snd_segments_out s = seg # segs" "\<not> th_ack (seg_header seg)"
    and s: "s\<lparr>snd_segments_out := []\<rparr> = (tc_sender c)\<lparr>snd_segments_out := []\<rparr>"
  obtains d where "TCPConnection_enqueue_segments (c\<lparr>tc_sender := s\<rparr>) = Some d" and "linked So Lo Si Li (quiet d) W p q X"
    and "same_streams c d" and "tc_active d = tc_active c" and "tc_receiver d = tc_receiver c" and "tc_need_send_rst d"
    and "snd_next_seq_no (tc_sender d) = snd_next_seq_no s"
    and "\<forall>seg \<in> set (snd_segments_out s). \<not> th_ack (seg_header seg) \<Longrightarrow>
      \<forall>seg \<in> set (snd_segments_out (tc_sender d)). \<not> th_ack (seg_header seg)"
proof -
  let ?rst = "seg\<lparr>seg_header := (seg_header seg)\<lparr>th_rst := True\<rparr>\<rparr>"
  let ?moved = "seg\<lparr>seg_payload := (seg_payload seg)\<lparr>buf_storage := None\<rparr>\<rparr>"
  let ?d = "c\<lparr>tc_segments_out := tc_segments_out c @ [?rst], tc_sender := s\<lparr>snd_segments_out := ?moved # segs\<rparr>\<rparr>"
  let ?old = "W \<union> set (tc_segments_out c)"
  have o: "dir_inv So Lo (tc_sender c) q ?old (acks_of X)" and i: "dir_inv Si Li p (tc_receiver c) X (acks_of ?old)"
    using link by (simp_all add: linked_def)
  have "dir_inv So Lo ((tc_sender c)\<lparr>snd_segments_out := []\<rparr>) q (?old \<union> {?rst}) (acks_of X)"
    by (rule dir_transmit [OF o]) simp
  moreover have "acks_of (?old \<union> {?rst}) = acks_of ?old" using segs(2) by (auto simp: acks_of_def)
  moreover have "tc_sender (quiet ?d) = (tc_sender c)\<lparr>snd_segments_out := []\<rparr>" unfolding s [symmetric] by (simp add: quiet_def)
  ultimately have "linked So Lo Si Li (quiet ?d) W p q X" using i by (simp add: linked_def)
  moreover have "snd_stream s = snd_stream (tc_sender c)" using arg_cong [OF s, of snd_stream] by simp
  ultimately show ?thesis using rst segs
    by (intro that [of ?d]) (simp_all add: TCPConnection_enqueue_segments_def same_streams_def)
qed

text \<open>A connection that was reset or gave up: its receiver has an error, and what is left in the queue of
  its sender after a reset was due stays there. A connection has opened when its sender has sent the
  SYN; before that nothing was received or sent again.\<close>

definition dead :: "TCPConnection \<Rightarrow> bool" where
  "dead c \<longleftrightarrow> \<not> tc_active c \<and> 0 < snd_next_seq_no (tc_sender c) \<and> bs_error (TCPReceiver_stream_out (tc_receiver c)) \<and>
     (tc_need_send_rst c \<or> snd_segments_out (tc_sender c) = []) \<and>
     (\<forall>seg \<in> set (snd_segments_out (tc_sender c)). \<not> th_ack (seg_header seg))"

definition opened :: "TCPConnection \<Rightarrow> bool" where
  "opened c \<longleftrightarrow> 0 < snd_next_seq_no (tc_sender c) \<or>
     rcv_is_listen (tc_receiver c) \<and> snd_retransmission_count (tc_sender c) = 0"

definition settled :: "TCPConnection \<Rightarrow> bool" where
  "settled c \<longleftrightarrow> live c \<and> opened c \<or> dead c"

lemma settled_active: "settled c \<Longrightarrow> tc_active c \<Longrightarrow> live c \<and> opened c"
  by (auto simp: settled_def dead_def)

lemma settledI: "live c \<Longrightarrow> 0 < snd_next_seq_no (tc_sender c) \<Longrightarrow> settled c"
  by (simp add: settled_def opened_def)

lemma rst_dead:
  assumes link: "linked So Lo Si Li c W p q X" and c: "tc_need_send_rst c" "\<not> tc_active c" "bs_error (TCPReceiver_stream_out (tc_receiver c))"
    and segs: "snd_segments_out s \<noteq> []" "\<forall>seg \<in> set (snd_segments_out s). \<not> th_ack (seg_header seg)"
    and s: "s\<lparr>snd_segments_out := []\<rparr> = (tc_sender c)\<lparr>snd_segments_out := []\<rparr>" "0 < snd_next_seq_no s"
  obtains d where "TCPConnection_enqueue_segments (c\<lparr>tc_sender := s\<rparr>) = Some d" and "linked So Lo Si Li (quiet d) W p q X"
    and "same_streams c d" and "dead d"
proof -
  obtain seg segs where q: "snd_segments_out s = seg # segs" "\<not> th_ack (seg_header seg)" using segs by (cases "snd_segments_out s") auto
  obtain d where d: "TCPConnection_enqueue_segments (c\<lparr>tc_sender := s\<rparr>) = Some d" "linked So Lo Si Li (quiet d) W p q X"
    "same_streams c d" "tc_active d = tc_active c" "tc_receiver d = tc_receiver c" "tc_need_send_rst d"
    "snd_next_seq_no (tc_sender d) = snd_next_seq_no s"
    "\<forall>seg \<in> set (snd_segments_out s). \<not> th_ack (seg_header seg) \<Longrightarrow>
      \<forall>seg \<in> set (snd_segments_out (tc_sender d)). \<not> th_ack (seg_header seg)"
    by (rule rst_linked [OF link c(1) q s(1)]) blast
  have "dead d" unfolding dead_def using d(4-7) d(8) [OF segs(2)] c s(2) by simp
  with d(1-3) show ?thesis by (rule that)
qed

lemma tick_opened:
  assumes "opened c" and "snd_queue_ok So Lo (tc_sender c)" and "TCPSender_tick ms (tc_sender c) = Some s"
  shows "opened (c\<lparr>tc_sender := s, tc_ms_since_last_recv := m\<rparr>)"
    and "unat (TCPSender_consecutive_retransmissions s) > MAX_RETX_ATTEMPTS \<Longrightarrow> 0 < snd_next_seq_no s"
proof -
  have "snd_next_seq_no s = snd_next_seq_no (tc_sender c)"
    using assms(3) by (auto simp: TCPSender_tick_def Let_def split: if_splits list.splits)
  moreover have "snd_retransmission_count s = snd_retransmission_count (tc_sender c)" if "snd_next_seq_no (tc_sender c) = 0"
  proof -
    have "snd_outstanding_segments (tc_sender c) = []"
      using segs_from_le assms(2) that by (fastforce simp: snd_queue_ok_def)
    then have "\<not> Timer_expired (Timer_tick ms (snd_timer (tc_sender c)))"
      using assms(2) by (simp add: snd_queue_ok_def Timer_expired_def Timer_tick_def)
    then show ?thesis using assms(3) tick_waits by fastforce
  qed
  ultimately have o: "opened (c\<lparr>tc_sender := s\<rparr>)" using assms(1) by (auto simp: opened_def)
  then show "opened (c\<lparr>tc_sender := s, tc_ms_since_last_recv := m\<rparr>)" by (simp add: opened_def)
  show "unat (TCPSender_consecutive_retransmissions s) > MAX_RETX_ATTEMPTS \<Longrightarrow> 0 < snd_next_seq_no s"
    using o by (auto simp: opened_def TCPSender_consecutive_retransmissions_def MAX_RETX_ATTEMPTS_def)
qed

lemma tick_linked:
  assumes link: "linked So Lo Si Li c W p q X" and ok: "live c" "opened c"
  obtains d where "TCPConnection_tick ms c = Some d" and "linked So Lo Si Li (quiet d) W p q X" and "settled d"
    and "same_streams c d"
proof -
  let ?ms = "add64 (tc_ms_since_last_recv c) ms"
  have o: "dir_inv So Lo (tc_sender c) q (W \<union> set (tc_segments_out c)) (acks_of X)" using link by (simp add: linked_def)
  obtain s where s: "TCPSender_tick ms (tc_sender c) = Some s"
    "dir_inv So Lo s q (W \<union> set (tc_segments_out c)) (acks_of X)" "snd_stream s = snd_stream (tc_sender c)"
    by (rule dir_tick [OF o])
  have "snd_queue_ok So Lo (tc_sender c)" using o by (simp add: dir_inv_def dir_link_def snd_inv_def)
  note op = tick_opened [OF ok(2) this s(1)]
  let ?c = "c\<lparr>tc_ms_since_last_recv := ?ms, tc_sender := s\<rparr>"
  have l: "linked So Lo Si Li ?c W p q X" "no_errors ?c" "same_streams c ?c"
    using link s ok by (simp_all add: linked_def live_def no_errors_def same_streams_def)
  show ?thesis
  proof (cases "unat (TCPSender_consecutive_retransmissions s) > MAX_RETX_ATTEMPTS")
    case True
    let ?u = "(TCPConnection_unclean_shutdown ?c)\<lparr>tc_need_send_rst := True\<rparr>"
    let ?e = "TCPSender_send_empty_segment (tc_sender ?u)"
    note u = unclean_linked [OF l(1)]
    have "\<forall>seg \<in> set (snd_segments_out s). plain seg" using s(2) by (simp add: dir_inv_def)
    then have q: "snd_segments_out ?e \<noteq> [] \<and> (\<forall>seg \<in> set (snd_segments_out ?e). \<not> th_ack (seg_header seg))"
      by (auto simp: TCPConnection_unclean_shutdown_def snd_set_error_def
        TCPSender_send_empty_segment_def TCPSegment_default_def TCPHeader_default_def plain_def)
    have e: "?e\<lparr>snd_segments_out := []\<rparr> = (tc_sender ?u)\<lparr>snd_segments_out := []\<rparr>" "0 < snd_next_seq_no ?e"
      using op(2) [OF True] by (simp_all add: TCPSender_send_empty_segment_def TCPConnection_unclean_shutdown_def snd_set_error_def)
    obtain d where d: "TCPConnection_enqueue_segments (?u\<lparr>tc_sender := ?e\<rparr>) = Some d" "linked So Lo Si Li (quiet d) W p q X"
      "same_streams ?u d" "dead d"
      by (rule rst_dead [OF _ _ _ _ _ _ e, of So Lo Si Li W p q X])
        (use u(1) q in \<open>simp_all add: TCPConnection_unclean_shutdown_def rcv_set_error_def TCPReceiver_stream_out_def\<close>)
    have "same_streams c d" using l(3) u(2) d(3) by (simp add: same_streams_def)
    moreover have "TCPConnection_tick ms c = Some d" using s(1) True d(1) by (simp add: TCPConnection_tick_def Let_def)
    ultimately show ?thesis using d by (intro that [of d]) (simp_all add: settled_def)
  next
    case False
    obtain d where d: "TCPConnection_enqueue_segments (TCPConnection_try_clean_shutdown ?c) = Some d" "linked So Lo Si Li d W p q X" "live d"
      "same_streams (TCPConnection_try_clean_shutdown ?c) d" "tc_receiver d = tc_receiver (TCPConnection_try_clean_shutdown ?c)"
      "tc_sender d = (tc_sender (TCPConnection_try_clean_shutdown ?c))\<lparr>snd_segments_out := []\<rparr>"
      by (rule enqueue_linked [of So Lo Si Li "TCPConnection_try_clean_shutdown ?c" W p q X]) (use l in simp_all)
    have "same_streams c d" using same_streams_trans [OF _ d(4), of c] l(3) by simp
    moreover have "TCPConnection_tick ms c = Some d" using s(1) False d(1) by (simp add: TCPConnection_tick_def Let_def)
    moreover have "opened d" using op(1) d(5,6) by (simp add: opened_def)
    ultimately show ?thesis using d by (intro that [of d]) (simp_all add: settled_def)
  qed
qed

subsection \<open>Calls on a dead connection\<close>

text \<open>The owner may go on writing: the segments are sent without an acknowledgment, or a reset is sent.\<close>

lemma dead_fill_enqueue:
  assumes link: "linked So Lo Si Li (quiet c) W p q X" and dead: "dead c"
  obtains s d where "TCPSender_fill_window (tc_sender c) = Some s" and "TCPConnection_enqueue_segments (c\<lparr>tc_sender := s\<rparr>) = Some d"
    and "linked So Lo Si Li (quiet d) W p q X" and "dead d" and "same_streams c d"
proof -
  let ?old = "W \<union> set (tc_segments_out c)" and ?q = "snd_segments_out (tc_sender c)" and ?c = "tc_sender (quiet c)"
  have o: "dir_inv So Lo ?c q ?old (acks_of X)" and i: "dir_inv Si Li p (tc_receiver c) X (acks_of ?old)"
    using link by (simp_all add: linked_def)
  have pos: "0 < snd_next_seq_no ?c" using dead by (simp add: dead_def quiet_def)
  obtain t new where t: "TCPSender_fill_window ?c = Some t" "dir_inv So Lo t q ?old (acks_of X)" "0 < snd_next_seq_no t"
    "filled So Lo ?c new t" by (rule dir_fill [OF o]) (use pos in simp_all)
  let ?s = "t\<lparr>snd_segments_out := ?q @ snd_segments_out t\<rparr>"
  have "tc_sender c = ?c\<lparr>snd_segments_out := ?q @ snd_segments_out ?c\<rparr>" by (simp add: quiet_def)
  then have fill: "TCPSender_fill_window (tc_sender c) = Some ?s" using fill_window_behind [OF t(1) pos, of ?q] by simp
  have plain: "\<forall>seg \<in> set (snd_segments_out t). plain seg \<and> seg_sent So Lo t q seg" using t(2) by (simp add: dir_inv_def)
  have str: "snd_written t = snd_written (tc_sender c)" "bs_same_flags (snd_stream (tc_sender c)) (snd_stream t)"
    using t(4) by (simp_all add: filled_def quiet_def)
  have ct: "linked So Lo Si Li (c\<lparr>tc_sender := t\<rparr>) W p q X" "same_streams c (c\<lparr>tc_sender := t\<rparr>)"
    using t(2) i str by (simp_all add: linked_def same_streams_def bs_same_flags_def)
  have noack: "\<forall>seg \<in> set (snd_segments_out ?s). \<not> th_ack (seg_header seg)" using dead plain by (auto simp: dead_def plain_def)
  show ?thesis
  proof (cases "tc_need_send_rst c \<and> snd_segments_out ?s \<noteq> []")
    case True
    obtain d where d: "TCPConnection_enqueue_segments (c\<lparr>tc_sender := t\<rparr>\<lparr>tc_sender := ?s\<rparr>) = Some d" "linked So Lo Si Li (quiet d) W p q X"
      "same_streams (c\<lparr>tc_sender := t\<rparr>) d" "dead d"
      by (rule rst_dead [OF ct(1), of ?s]) (use True noack dead t(3) in \<open>simp_all add: dead_def\<close>)
    show ?thesis using fill d same_streams_trans [OF ct(2) d(3)] by (intro that [of ?s d]) simp_all
  next
    case False
    let ?d = "c\<lparr>tc_segments_out := tc_segments_out c @ snd_segments_out t, tc_sender := t\<lparr>snd_segments_out := []\<rparr>\<rparr>"
    have q: "?q = []" "tc_need_send_rst c \<longrightarrow> snd_segments_out t = []" using False dead by (auto simp: dead_def)
    have "TCPConnection_enqueue_segments (c\<lparr>tc_sender := ?s\<rparr>) = Some ?d"
    proof (cases "tc_need_send_rst c")
      case False
      have "TCPReceiver_ackno (tc_receiver c) = Some None" using dead by (simp add: dead_def TCPReceiver_ackno_def TCPReceiver_state_def)
      moreover have "stamp_ack None w = (\<lambda>seg. seg)" for w by (simp add: fun_eq_iff stamp_ack_def)
      ultimately show ?thesis using False enqueue_loop_stamps [of "c\<lparr>tc_sender := ?s\<rparr>" None "snd_segments_out t"]
        by (simp add: TCPConnection_enqueue_segments_def q(1))
    qed (use q in \<open>simp add: TCPConnection_enqueue_segments_def\<close>)
    moreover have "dir_inv So Lo (t\<lparr>snd_segments_out := []\<rparr>) q (?old \<union> set (snd_segments_out t)) (acks_of X)"
      by (rule dir_transmit [OF t(2)]) (use plain in blast)
    moreover have "acks_of (?old \<union> set (snd_segments_out t)) = acks_of ?old" using plain by (auto simp: acks_of_def plain_def)
    ultimately show ?thesis using fill i dead t(3) str
      by (intro that [of ?s ?d]) (simp_all add: linked_def dead_def same_streams_def bs_same_flags_def quiet_def Un_assoc)
  qed
qed

text \<open>Writing and ending the stream, whether the connection is alive or dead.\<close>

lemma write_settled:
  assumes link: "linked So Lo Si Li (quiet c) W p q X" and ok: "settled c" and n: "n = min (length data) (snd_room (tc_sender c))"
    and data: "take n data = map So [snd_written (tc_sender c)..<snd_written (tc_sender c) + n]"
    and fit: "snd_written (tc_sender c) + n \<le> Lo" and open_: "\<not> bs_input_ended (snd_stream (tc_sender c))"
  obtains d where "TCPConnection_write data c = Some (n, d)" and "linked So Lo Si Li (quiet d) W p q X" and "settled d"
    and "snd_written (tc_sender d) = snd_written (tc_sender c) + n" and "\<not> bs_input_ended (snd_stream (tc_sender d))"
    and "sr_read (rcv_reassembler (tc_receiver d)) = sr_read (rcv_reassembler (tc_receiver c))" and "tc_active d = tc_active c"
proof (cases "live c")
  case True
  have l: "linked So Lo Si Li c W p q X" "no_errors c" using link True by (simp_all add: live_def)
  show ?thesis by (rule write_linked [OF l n data fit open_]) (rule that, assumption, simp_all add: settledI)
next
  case False
  then have dead: "dead c" using ok by (simp add: settled_def)
  let ?old = "W \<union> set (tc_segments_out c)"
  have o: "dir_inv So Lo (tc_sender (quiet c)) q ?old (acks_of X)" and i: "dir_inv Si Li p (tc_receiver c) X (acks_of ?old)"
    using link by (simp_all add: linked_def)
  obtain st where w: "ByteStream_write data (snd_stream (tc_sender c)) = Some (n, st)"
    "dir_inv So Lo ((tc_sender (quiet c))\<lparr>snd_stream := st\<rparr>) q ?old (acks_of X)"
    "bs_same_flags (snd_stream (tc_sender c)) st" "bs_bytes_written st = snd_written (tc_sender c) + n"
    by (rule dir_write [OF o, unfolded quiet_simps, OF n data fit open_])
  let ?c = "c\<lparr>tc_sender := (tc_sender c)\<lparr>snd_stream := st\<rparr>\<rparr>"
  have q: "tc_sender (quiet ?c) = (tc_sender (quiet c))\<lparr>snd_stream := st\<rparr>" by (simp add: quiet_def)
  have l: "linked So Lo Si Li (quiet ?c) W p q X" "dead ?c" using w(2) i dead unfolding linked_def q by (simp_all add: dead_def)
  obtain s d where d: "TCPSender_fill_window (tc_sender ?c) = Some s" "TCPConnection_enqueue_segments (?c\<lparr>tc_sender := s\<rparr>) = Some d"
    "linked So Lo Si Li (quiet d) W p q X" "dead d" "same_streams ?c d" by (rule dead_fill_enqueue [OF l])
  then have "TCPConnection_write data c = Some (n, d)" using w(1) by (simp add: TCPConnection_write_def)
  then show ?thesis using d w open_ dead
    by (intro that [of d]) (auto simp: same_streams_def bs_same_flags_def settled_def dead_def)
qed

lemma end_input_settled:
  assumes link: "linked So Lo Si Li (quiet c) W p q X" and ok: "settled c" and all: "snd_written (tc_sender c) = Lo"
  obtains d where "TCPConnection_end_input_stream c = Some d" and "linked So Lo Si Li (quiet d) W p q X" and "settled d"
    and "snd_written (tc_sender d) = snd_written (tc_sender c)" and "bs_input_ended (snd_stream (tc_sender d))"
    and "sr_read (rcv_reassembler (tc_receiver d)) = sr_read (rcv_reassembler (tc_receiver c))" and "tc_active d = tc_active c"
proof (cases "live c")
  case True
  have l: "linked So Lo Si Li c W p q X" "no_errors c" using link True by (simp_all add: live_def)
  show ?thesis by (rule end_input_linked [OF l all]) (rule that, assumption, simp_all add: settledI)
next
  case False
  then have dead: "dead c" using ok by (simp add: settled_def)
  let ?old = "W \<union> set (tc_segments_out c)" and ?st = "ByteStream_end_input (snd_stream (tc_sender c))"
  have o: "dir_inv So Lo (tc_sender (quiet c)) q ?old (acks_of X)" and i: "dir_inv Si Li p (tc_receiver c) X (acks_of ?old)"
    using link by (simp_all add: linked_def)
  let ?c = "c\<lparr>tc_sender := (tc_sender c)\<lparr>snd_stream := ?st\<rparr>\<rparr>"
  have q: "tc_sender (quiet ?c) = (tc_sender (quiet c))\<lparr>snd_stream := ByteStream_end_input (snd_stream (tc_sender (quiet c)))\<rparr>"
    by (simp add: quiet_def)
  have "dir_inv So Lo (tc_sender (quiet ?c)) q ?old (acks_of X)" unfolding q by (rule dir_end_input [OF o]) (use all in simp)
  then have l: "linked So Lo Si Li (quiet ?c) W p q X" "dead ?c" using i dead by (simp_all add: linked_def dead_def)
  obtain s d where d: "TCPSender_fill_window (tc_sender ?c) = Some s" "TCPConnection_enqueue_segments (?c\<lparr>tc_sender := s\<rparr>) = Some d"
    "linked So Lo Si Li (quiet d) W p q X" "dead d" "same_streams ?c d" by (rule dead_fill_enqueue [OF l])
  then have "TCPConnection_end_input_stream c = Some d" by (simp add: TCPConnection_end_input_stream_def)
  then show ?thesis using d dead by (intro that [of d]) (auto simp: same_streams_def settled_def dead_def)
qed

text \<open>A segment that is neither ignored nor a reset: the part of \<open>segment_received\<close> from the receiver to
  the end of the passive-close rule, and the rest.\<close>

definition conn_accept :: "TCPSegment \<Rightarrow> TCPConnection \<Rightarrow> TCPConnection option" where
  "conn_accept seg c = do {
     r \<leftarrow> TCPReceiver_segment_received seg (tc_receiver c);
     let c = c\<lparr>tc_receiver := r\<rparr>;
     let c = (if th_ack (seg_header seg)
       then c\<lparr>tc_sender := TCPSender_ack_received (th_ackno (seg_header seg)) (th_win (seg_header seg)) (tc_sender c)\<rparr> else c);
     Some (if TCPReceiver_state (tc_receiver c) = RcvFinRecv \<and> TCPSender_state (tc_sender c) = SndSynAcked
       then TCPConnection_try_clean_shutdown (c\<lparr>tc_linger_after_stream_finish := False\<rparr>) else c)
   }"

definition conn_reply :: "TCPSegment \<Rightarrow> TCPConnection \<Rightarrow> TCPConnection option" where
  "conn_reply seg c = do {
     s \<leftarrow> TCPSender_fill_window (tc_sender c);
     let c = c\<lparr>tc_sender := s\<rparr>;
     reply \<leftarrow> needs_reply seg (tc_receiver c);
     let c = (if reply then c\<lparr>tc_sender := TCPSender_send_empty_segment (tc_sender c)\<rparr> else c);
     TCPConnection_enqueue_segments (TCPConnection_try_clean_shutdown c)
   }"

lemma segment_received_split:
  "TCPConnection_segment_received seg c =
     (if TCPReceiver_state (tc_receiver c) = RcvListen \<and> TCPSender_state (tc_sender c) = SndClosed \<and>
         (\<not> th_syn (seg_header seg) \<or> th_ack (seg_header seg) \<or> th_rst (seg_header seg)) then Some c
      else if th_rst (seg_header seg) then Some (TCPConnection_unclean_shutdown (c\<lparr>tc_ms_since_last_recv := 0\<rparr>))
      else Option.bind (conn_accept seg (c\<lparr>tc_ms_since_last_recv := 0\<rparr>)) (conn_reply seg))"
  unfolding TCPConnection_segment_received_def conn_accept_def conn_reply_def Let_def Option.bind_assoc Option.bind.simps
  by (rule refl)

lemma accept_linked:
  assumes link: "linked So Lo Si Li c W p q X" and ok: "no_errors c" and seg: "seg \<in> X" "\<not> th_rst (seg_header seg)"
  obtains d where "conn_accept seg c = Some d" and "linked So Lo Si Li d W p q X" and "no_errors d" and "same_streams c d"
proof -
  let ?old = "W \<union> set (tc_segments_out c)" and ?h = "seg_header seg"
  have o: "dir_inv So Lo (tc_sender c) q ?old (acks_of X)" and i: "dir_inv Si Li p (tc_receiver c) X (acks_of ?old)"
    using link by (simp_all add: linked_def)
  obtain r where r: "TCPReceiver_segment_received seg (tc_receiver c) = Some r" "dir_inv Si Li p r X (acks_of ?old)"
    "\<not> bs_error (TCPReceiver_stream_out r)" "sr_read (rcv_reassembler r) = sr_read (rcv_reassembler (tc_receiver c))"
    by (rule dir_arrive [OF i _ seg]) (use ok in \<open>simp add: no_errors_def\<close>)
  define s where "s = (if th_ack ?h then TCPSender_ack_received (th_ackno ?h) (th_win ?h) (tc_sender c) else tc_sender c)"
  have "(th_ackno ?h, th_win ?h) \<in> acks_of X" if "th_ack ?h" using that seg(1) by (auto simp: acks_of_def)
  then have s: "dir_inv So Lo s q ?old (acks_of X)" using o dir_ack [OF o] by (simp add: s_def)
  have "snd_inv So Lo (tc_sender c)" using o by (simp add: dir_inv_def dir_link_def)
  then have st: "snd_stream s = snd_stream (tc_sender c)" using ack_received_le by (simp add: s_def)
  let ?c = "c\<lparr>tc_receiver := r, tc_sender := s\<rparr>"
  let ?d = "if TCPReceiver_state r = RcvFinRecv \<and> TCPSender_state s = SndSynAcked
    then TCPConnection_try_clean_shutdown (?c\<lparr>tc_linger_after_stream_finish := False\<rparr>) else ?c"
  have c: "linked So Lo Si Li ?c W p q X" "no_errors ?c" "same_streams c ?c"
    using r s st ok by (simp_all add: linked_def no_errors_def same_streams_def)
  moreover have "conn_accept seg c = Some ?d" using r(1) by (auto simp: conn_accept_def s_def Let_def)
  ultimately show ?thesis by (intro that [of ?d]) simp_all
qed

lemma needs_reply_returns:
  assumes "dir_inv S L p r D K" and "\<not> bs_error (TCPReceiver_stream_out r)"
  shows "\<exists>b. needs_reply seg r = Some b"
  using dir_ackno [OF assms] by (auto simp: needs_reply_def TCPReceiver_state_def)

lemma reply_linked:
  assumes link: "linked So Lo Si Li c W p q X" and ok: "no_errors c"
  obtains d where "conn_reply seg c = Some d" and "linked So Lo Si Li d W p q X" and "live d" and "same_streams c d"
    and "0 < snd_next_seq_no (tc_sender d)"
proof -
  obtain s where s: "TCPSender_fill_window (tc_sender c) = Some s" "linked So Lo Si Li (c\<lparr>tc_sender := s\<rparr>) W p q X"
    "no_errors (c\<lparr>tc_sender := s\<rparr>)" "same_streams c (c\<lparr>tc_sender := s\<rparr>)" "0 < snd_next_seq_no s"
    by (rule fill_linked [OF link ok])
  let ?c = "c\<lparr>tc_sender := s\<rparr>"
  obtain b where b: "needs_reply seg (tc_receiver c) = Some b"
    using needs_reply_returns [of Si Li p "tc_receiver c"] link ok unfolding linked_def no_errors_def by blast
  let ?e = "if b then c\<lparr>tc_sender := TCPSender_send_empty_segment s\<rparr> else ?c"
  have "dir_inv So Lo (TCPSender_send_empty_segment s) q (W \<union> set (tc_segments_out c)) (acks_of X)"
    using s(2,5) by (intro dir_send_empty) (simp_all add: linked_def)
  then have e: "linked So Lo Si Li ?e W p q X" "no_errors ?e" "same_streams c ?e"
    using s by (simp_all add: linked_def no_errors_def same_streams_def TCPSender_send_empty_segment_def)
  obtain d where d: "TCPConnection_enqueue_segments (TCPConnection_try_clean_shutdown ?e) = Some d" "linked So Lo Si Li d W p q X"
    "live d" "same_streams (TCPConnection_try_clean_shutdown ?e) d"
    "tc_sender d = (tc_sender (TCPConnection_try_clean_shutdown ?e))\<lparr>snd_segments_out := []\<rparr>"
    by (rule enqueue_linked [of So Lo Si Li "TCPConnection_try_clean_shutdown ?e" W p q X]) (use e in simp_all)
  have "same_streams c d" using same_streams_trans [OF _ d(4), of c] e(3) by simp
  moreover have "conn_reply seg c = Some d" using s(1) b d(1) by (cases b) (simp_all add: conn_reply_def)
  moreover have "0 < snd_next_seq_no (tc_sender d)" using d(5) s(5) by (simp add: TCPSender_send_empty_segment_def)
  ultimately show ?thesis using d(2,3) by (intro that)
qed

lemma segment_linked:
  assumes link: "linked So Lo Si Li c W p q X" and ok: "live c" "opened c" and seg: "seg \<in> X"
  obtains d where "TCPConnection_segment_received seg c = Some d" and "linked So Lo Si Li (quiet d) W p q X"
    and "settled d" and "same_streams c d"
proof -
  let ?c = "c\<lparr>tc_ms_since_last_recv := 0\<rparr>"
  have l: "linked So Lo Si Li ?c W p q X" "no_errors ?c" using link ok by (simp_all add: live_def)
  consider "TCPConnection_segment_received seg c = Some c"
    | "TCPConnection_segment_received seg c = Some (TCPConnection_unclean_shutdown ?c)" "0 < snd_next_seq_no (tc_sender c)"
    | "TCPConnection_segment_received seg c = Option.bind (conn_accept seg ?c) (conn_reply seg)" "\<not> th_rst (seg_header seg)"
  proof -
    have "TCPReceiver_state (tc_receiver c) = RcvListen \<and> TCPSender_state (tc_sender c) = SndClosed" if "snd_next_seq_no (tc_sender c) = 0"
      using that ok by (simp add: opened_def live_def no_errors_def TCPReceiver_state_def TCPSender_state_def)
    then show ?thesis using segment_received_split [of seg c] that by (metis gr0I)
  qed
  then show ?thesis
  proof cases
    case 1
    then show ?thesis using link ok by (intro that [of c]) (simp_all add: settled_def)
  next
    case 2
    have "quiet (TCPConnection_unclean_shutdown ?c) = TCPConnection_unclean_shutdown ?c"
      using ok by (simp add: quiet_def TCPConnection_unclean_shutdown_def live_def snd_set_error_def)
    moreover have "dead (TCPConnection_unclean_shutdown ?c)" using 2(2) ok
      by (simp add: dead_def TCPConnection_unclean_shutdown_def snd_set_error_def rcv_set_error_def TCPReceiver_stream_out_def live_def)
    ultimately show ?thesis using 2 unclean_linked [OF l(1)]
      by (intro that [of "TCPConnection_unclean_shutdown ?c"]) (simp_all add: same_streams_def settled_def)
  next
    case 3
    obtain e where e: "conn_accept seg ?c = Some e" "linked So Lo Si Li e W p q X" "no_errors e" "same_streams ?c e"
      by (rule accept_linked [OF l seg 3(2)])
    obtain d where d: "conn_reply seg e = Some d" "linked So Lo Si Li d W p q X" "live d" "same_streams e d" "0 < snd_next_seq_no (tc_sender d)"
      by (rule reply_linked [OF e(2,3)])
    then show ?thesis using 3(1) e by (intro that [of d]) (simp_all add: same_streams_def settledI)
  qed
qed

end
