(* ===== verification/TCP_Network.thy ===== *)
theory TCP_Network
  imports TCP_Endpoint "HOL-Library.Sublist"
begin

text \<open>
  Two connections over a network. Each endpoint is a TCPConnection; the network keeps every segment
  that was ever sent and may deliver any of them at any time, any number of times or never.
  Reachable states satisfy \<open>net_inv\<close>, by induction over the steps.
\<close>

section \<open>Two endpoints\<close>

datatype side = Client | Server

fun peer :: "side \<Rightarrow> side" where
  "peer Client = Server"
| "peer Server = Client"

lemma peer_peer [simp]: "peer (peer p) = p" and peer_neq [simp]: "peer p \<noteq> p" "p \<noteq> peer p"
  by (cases p; simp)+

lemma side_eq_peer: "q = p \<or> q = peer p"
  by (cases p; cases q) simp_all

text \<open>The endpoints, the segments each has put on the wire, and what their owners have written, ended
  and read so far.\<close>

record network =
  nw_conn :: "side \<Rightarrow> TCPConnection"
  nw_wire :: "side \<Rightarrow> TCPSegment list"
  nw_written :: "side \<Rightarrow> bytes"
  nw_ended :: "side \<Rightarrow> bool"
  nw_delivered :: "side \<Rightarrow> bytes"

definition net_init :: "(side \<Rightarrow> TCPConfig) \<Rightarrow> (side \<Rightarrow> u32) \<Rightarrow> network" where
  "net_init cfg random = \<lparr>nw_conn = (\<lambda>p. TCPConnection_init (cfg p) (random p)), nw_wire = (\<lambda>_. []),
     nw_written = (\<lambda>_. []), nw_ended = (\<lambda>_. False), nw_delivered = (\<lambda>_. [])\<rparr>"

text \<open>A connection that is active or was not reset.\<close>

definition usable :: "TCPConnection \<Rightarrow> bool" where
  "usable c \<longleftrightarrow> tc_active c \<or> \<not> bs_error (TCPConnection_inbound_stream c)"

lemma active_usable: "tc_active c \<Longrightarrow> usable c"
  by (simp add: usable_def)

text \<open>The owner connects, passes time and hands in segments unless the endpoint was reset, also when it is no
  longer active; it may write, end its stream, read and transmit at any time, also after a reset.\<close>

inductive net_step :: "network \<Rightarrow> network \<Rightarrow> bool" where
  net_connect: "net_step x (x\<lparr>nw_conn := (nw_conn x)(p := c)\<rparr>)"
    if "usable (nw_conn x p)" and "TCPConnection_connect (nw_conn x p) = Some c"
| net_write: "net_step x (x\<lparr>nw_conn := (nw_conn x)(p := c), nw_written := (nw_written x)(p := nw_written x p @ take n data)\<rparr>)"
    if "\<not> nw_ended x p" and "TCPConnection_write data (nw_conn x p) = Some (n, c)"
| net_end_input: "net_step x (x\<lparr>nw_conn := (nw_conn x)(p := c), nw_ended := (nw_ended x)(p := True)\<rparr>)"
    if "TCPConnection_end_input_stream (nw_conn x p) = Some c"
| net_tick: "net_step x (x\<lparr>nw_conn := (nw_conn x)(p := c)\<rparr>)"
    if "usable (nw_conn x p)" and "TCPConnection_tick ms (nw_conn x p) = Some c"
| net_deliver: "net_step x (x\<lparr>nw_conn := (nw_conn x)(p := c)\<rparr>)"
    if "usable (nw_conn x p)" and "seg \<in> set (nw_wire x (peer p))" and "TCPConnection_segment_received seg (nw_conn x p) = Some c"
| net_transmit: "net_step x (x\<lparr>nw_conn := (nw_conn x)(p := (nw_conn x p)\<lparr>tc_segments_out := []\<rparr>),
      nw_wire := (nw_wire x)(p := nw_wire x p @ tc_segments_out (nw_conn x p))\<rparr>)"
| net_read: "net_step x (x\<lparr>nw_conn := (nw_conn x)(p := (nw_conn x p)\<lparr>tc_receiver := (tc_receiver (nw_conn x p))
        \<lparr>rcv_reassembler := (rcv_reassembler (tc_receiver (nw_conn x p)))\<lparr>sr_output := out\<rparr>\<rparr>\<rparr>),
      nw_delivered := (nw_delivered x)(p := nw_delivered x p @ data)\<rparr>)"
    if "ByteStream_read n (TCPConnection_inbound_stream (nw_conn x p)) = Some (data, out)"

section \<open>The invariant of the network\<close>

abbreviation nw_sent :: "network \<Rightarrow> side \<Rightarrow> TCPSegment set" where
  "nw_sent x p \<equiv> set (nw_wire x p) \<union> set (tc_segments_out (nw_conn x p))"

text \<open>\<open>S p\<close> is the stream that \<open>p\<close> writes, \<open>L p\<close> its length.\<close>

definition agrees :: "(side \<Rightarrow> nat \<Rightarrow> u8) \<Rightarrow> (side \<Rightarrow> nat) \<Rightarrow> network \<Rightarrow> bool" where
  "agrees S L x \<longleftrightarrow> (\<forall>p. nw_written x p = map (S p) [0..<length (nw_written x p)] \<and>
     length (nw_written x p) \<le> L p \<and> (nw_ended x p \<longrightarrow> length (nw_written x p) = L p))"

definition histories :: "(side \<Rightarrow> nat \<Rightarrow> u8) \<Rightarrow> network \<Rightarrow> side \<Rightarrow> bool" where
  "histories S x p \<longleftrightarrow> length (nw_written x p) = snd_written (tc_sender (nw_conn x p)) \<and>
     nw_ended x p = bs_input_ended (snd_stream (tc_sender (nw_conn x p))) \<and>
     nw_delivered x p = map (S (peer p)) [0..<sr_read (rcv_reassembler (tc_receiver (nw_conn x p)))]"

definition net_linked :: "(side \<Rightarrow> nat \<Rightarrow> u8) \<Rightarrow> (side \<Rightarrow> nat) \<Rightarrow> network \<Rightarrow> side \<Rightarrow> TCPConnection \<Rightarrow> bool" where
  "net_linked S L x p c \<longleftrightarrow> linked (S p) (L p) (S (peer p)) (L (peer p)) (quiet c) (set (nw_wire x p))
     (tc_sender (quiet (nw_conn x (peer p)))) (tc_receiver (nw_conn x (peer p))) (nw_sent x (peer p))"

definition net_inv :: "(side \<Rightarrow> nat \<Rightarrow> u8) \<Rightarrow> (side \<Rightarrow> nat) \<Rightarrow> network \<Rightarrow> bool" where
  "net_inv S L x \<longleftrightarrow> (\<forall>p. net_linked S L x p (nw_conn x p) \<and> histories S x p \<and> settled (nw_conn x p))"

text \<open>Both endpoints see the same two directions.\<close>

lemma net_linked_peer: "net_linked S L x (peer p) (nw_conn x (peer p)) = net_linked S L x p (nw_conn x p)"
  by (auto simp: net_linked_def linked_def)

lemma net_inv_update:
  assumes inv: "net_inv S L x" and c: "net_linked S L x p c" "settled c"
    and y: "nw_conn y = (nw_conn x)(p := c)" "nw_wire y = nw_wire x" "histories S y p"
      "nw_written y (peer p) = nw_written x (peer p)" "nw_ended y (peer p) = nw_ended x (peer p)"
      "nw_delivered y (peer p) = nw_delivered x (peer p)"
  shows "net_inv S L y"
proof -
  have p: "net_linked S L y p (nw_conn y p)" using c(1) y(1,2) by (simp add: net_linked_def)
  have h: "histories S y (peer p)" using inv y by (simp add: net_inv_def histories_def)
  have "net_linked S L y q (nw_conn y q) \<and> histories S y q \<and> settled (nw_conn y q)" for q
    using side_eq_peer [of q p] p net_linked_peer [of S L y p] h y c(2) inv by (auto simp: net_inv_def)
  then show ?thesis by (simp add: net_inv_def)
qed

lemma settled_usable: "settled c \<Longrightarrow> usable c \<Longrightarrow> live c \<and> opened c"
  by (auto simp: settled_def dead_def usable_def TCPConnection_inbound_stream_def)

lemma net_invD:
  assumes "net_inv S L x"
  shows "net_linked S L x p (nw_conn x p)" and "histories S x p" and "settled (nw_conn x p)"
    and "usable (nw_conn x p) \<Longrightarrow> live (nw_conn x p)" and "usable (nw_conn x p) \<Longrightarrow> opened (nw_conn x p)"
  using assms settled_usable by (auto simp: net_inv_def)

lemma net_linked_live:
  assumes "net_inv S L x" and "usable (nw_conn x p)"
  shows "linked (S p) (L p) (S (peer p)) (L (peer p)) (nw_conn x p) (set (nw_wire x p))
     (tc_sender (quiet (nw_conn x (peer p)))) (tc_receiver (nw_conn x (peer p))) (nw_sent x (peer p))"
  using net_invD [OF assms(1), of p] assms(2) by (simp add: net_linked_def)

text \<open>A call that leaves the streams of the owner alone.\<close>

lemma net_inv_call:
  assumes inv: "net_inv S L x" and c: "net_linked S L x p c" "settled c" "same_streams (nw_conn x p) c"
  shows "net_inv S L (x\<lparr>nw_conn := (nw_conn x)(p := c)\<rparr>)"
  using net_invD(2) [OF inv, of p] c(3)
  by (intro net_inv_update [OF inv c(1,2)]) (simp_all add: histories_def same_streams_def)

lemma agrees_write:
  assumes "agrees S L (x\<lparr>nw_conn := f, nw_written := (nw_written x)(p := nw_written x p @ data)\<rparr>)" and "\<not> nw_ended x p"
  shows "agrees S L x" and "data = map (S p) [length (nw_written x p)..<length (nw_written x p) + length data]"
    and "length (nw_written x p) + length data \<le> L p"
proof -
  let ?w = "nw_written x p"
  have a: "?w @ data = map (S p) [0..<length ?w + length data]" "length ?w + length data \<le> L p"
    using assms(1) unfolding agrees_def by (auto dest!: spec [of _ p])
  show "length ?w + length data \<le> L p" by (rule a)
  have s: "map (S p) [0..<length ?w + length data] = map (S p) [0..<length ?w] @ map (S p) [length ?w..<length ?w + length data]"
    using upt_add_eq_append [of 0 "length ?w" "length data"] by simp
  have w: "?w = map (S p) [0..<length ?w]" and d: "data = map (S p) [length ?w..<length ?w + length data]"
    using a(1) unfolding s by simp_all
  show "data = map (S p) [length ?w..<length ?w + length data]" by (rule d)
  have "nw_written x q = map (S q) [0..<length (nw_written x q)] \<and> length (nw_written x q) \<le> L q \<and>
      (nw_ended x q \<longrightarrow> length (nw_written x q) = L q)" for q
  proof (cases "q = p")
    case True
    then show ?thesis using w a(2) assms(2) by simp
  next
    case False
    then show ?thesis using assms(1) by (auto simp: agrees_def dest!: spec [of _ q])
  qed
  then show "agrees S L x" by (simp add: agrees_def)
qed

text \<open>What was written and ended in the past is a part of what will have been written.\<close>

lemma agrees_back: "net_step x y \<Longrightarrow> agrees S L y \<Longrightarrow> agrees S L x"
proof (induction rule: net_step.induct)
  case (net_write x p data n c)
  then show ?case using agrees_write(1) by blast
next
  case (net_end_input x p c)
  then show ?case by (auto simp: agrees_def split: if_splits)
qed (simp_all add: agrees_def)

section \<open>Steps keep the invariant\<close>

lemma live_no_errors: "live c \<Longrightarrow> no_errors c"
  by (simp add: live_def)

lemma inv_connect:
  assumes inv: "net_inv S L x" and act: "usable (nw_conn x p)"
  obtains c where "TCPConnection_connect (nw_conn x p) = Some c" and "net_inv S L (x\<lparr>nw_conn := (nw_conn x)(p := c)\<rparr>)"
proof -
  let ?q = "peer p"
  obtain d where d: "TCPConnection_connect (nw_conn x p) = Some d"
    "linked (S p) (L p) (S ?q) (L ?q) d (set (nw_wire x p)) (tc_sender (quiet (nw_conn x ?q))) (tc_receiver (nw_conn x ?q)) (nw_sent x ?q)"
    "live d" "same_streams (nw_conn x p) d" "0 < snd_next_seq_no (tc_sender d)"
    by (rule connect_linked [OF net_linked_live [OF inv act] live_no_errors [OF net_invD(4) [OF inv act]]])
  then show ?thesis by (intro that [of d] net_inv_call [OF inv]) (simp_all add: net_linked_def settledI)
qed

lemma inv_tick:
  assumes inv: "net_inv S L x" and act: "usable (nw_conn x p)"
  obtains c where "TCPConnection_tick ms (nw_conn x p) = Some c" and "net_inv S L (x\<lparr>nw_conn := (nw_conn x)(p := c)\<rparr>)"
proof -
  let ?q = "peer p"
  obtain d where d: "TCPConnection_tick ms (nw_conn x p) = Some d"
    "linked (S p) (L p) (S ?q) (L ?q) (quiet d) (set (nw_wire x p)) (tc_sender (quiet (nw_conn x ?q))) (tc_receiver (nw_conn x ?q)) (nw_sent x ?q)"
    "settled d" "same_streams (nw_conn x p) d"
    by (rule tick_linked [OF net_linked_live [OF inv act] net_invD(4,5) [OF inv act]])
  then show ?thesis by (intro that [of d] net_inv_call [OF inv]) (simp_all add: net_linked_def)
qed

lemma inv_deliver:
  assumes inv: "net_inv S L x" and act: "usable (nw_conn x p)" and seg: "seg \<in> set (nw_wire x (peer p))"
  obtains c where "TCPConnection_segment_received seg (nw_conn x p) = Some c" and "net_inv S L (x\<lparr>nw_conn := (nw_conn x)(p := c)\<rparr>)"
proof -
  let ?q = "peer p"
  have mem: "seg \<in> nw_sent x ?q" using seg by simp
  obtain d where d: "TCPConnection_segment_received seg (nw_conn x p) = Some d"
    "linked (S p) (L p) (S ?q) (L ?q) (quiet d) (set (nw_wire x p)) (tc_sender (quiet (nw_conn x ?q))) (tc_receiver (nw_conn x ?q)) (nw_sent x ?q)"
    "settled d" "same_streams (nw_conn x p) d"
    by (rule segment_linked [OF net_linked_live [OF inv act] net_invD(4,5) [OF inv act] mem])
  then show ?thesis by (intro that [of d] net_inv_call [OF inv]) (simp_all add: net_linked_def)
qed

lemma inv_end_input:
  assumes inv: "net_inv S L x" and all: "length (nw_written x p) = L p"
  obtains c where "TCPConnection_end_input_stream (nw_conn x p) = Some c"
    and "net_inv S L (x\<lparr>nw_conn := (nw_conn x)(p := c), nw_ended := (nw_ended x)(p := True)\<rparr>)"
proof -
  let ?q = "peer p"
  note h = net_invD(2) [OF inv, of p]
  have w: "snd_written (tc_sender (nw_conn x p)) = L p" using all h by (simp add: histories_def)
  obtain d where d: "TCPConnection_end_input_stream (nw_conn x p) = Some d"
    "linked (S p) (L p) (S ?q) (L ?q) (quiet d) (set (nw_wire x p)) (tc_sender (quiet (nw_conn x ?q))) (tc_receiver (nw_conn x ?q)) (nw_sent x ?q)"
    "settled d" "snd_written (tc_sender d) = snd_written (tc_sender (nw_conn x p))" "bs_input_ended (snd_stream (tc_sender d))"
    "sr_read (rcv_reassembler (tc_receiver d)) = sr_read (rcv_reassembler (tc_receiver (nw_conn x p)))"
    by (rule end_input_settled [OF net_invD(1) [OF inv, unfolded net_linked_def] net_invD(3) [OF inv] w])
  then show ?thesis using h
    by (intro that [of d] net_inv_update [OF inv, of p d]) (simp_all add: net_linked_def histories_def)
qed

lemma inv_write:
  assumes inv: "net_inv S L x" and open_: "\<not> nw_ended x p"
    and n: "n = min (length data) (snd_room (tc_sender (nw_conn x p)))"
    and data: "take n data = map (S p) [length (nw_written x p)..<length (nw_written x p) + n]"
    and fit: "length (nw_written x p) + n \<le> L p"
  obtains c where "TCPConnection_write data (nw_conn x p) = Some (n, c)"
    and "net_inv S L (x\<lparr>nw_conn := (nw_conn x)(p := c), nw_written := (nw_written x)(p := nw_written x p @ take n data)\<rparr>)"
proof -
  let ?q = "peer p" and ?s = "tc_sender (nw_conn x p)"
  note h = net_invD(2) [OF inv, of p]
  have w: "take n data = map (S p) [snd_written ?s..<snd_written ?s + n]" "snd_written ?s + n \<le> L p"
    "\<not> bs_input_ended (snd_stream ?s)" using data fit open_ h by (simp_all add: histories_def)
  obtain d where d: "TCPConnection_write data (nw_conn x p) = Some (n, d)"
    "linked (S p) (L p) (S ?q) (L ?q) (quiet d) (set (nw_wire x p)) (tc_sender (quiet (nw_conn x ?q))) (tc_receiver (nw_conn x ?q)) (nw_sent x ?q)"
    "settled d" "snd_written (tc_sender d) = snd_written ?s + n" "\<not> bs_input_ended (snd_stream (tc_sender d))"
    "sr_read (rcv_reassembler (tc_receiver d)) = sr_read (rcv_reassembler (tc_receiver (nw_conn x p)))"
    by (rule write_settled [OF net_invD(1) [OF inv, unfolded net_linked_def] net_invD(3) [OF inv] n w])
  have "length (take n data) = n" using n by simp
  then show ?thesis using d h open_
    by (intro that [of d] net_inv_update [OF inv, of p d]) (simp_all add: net_linked_def histories_def)
qed

lemma inv_transmit:
  assumes inv: "net_inv S L x" and y: "y = x\<lparr>nw_conn := (nw_conn x)(p := (nw_conn x p)\<lparr>tc_segments_out := []\<rparr>),
      nw_wire := (nw_wire x)(p := nw_wire x p @ tc_segments_out (nw_conn x p))\<rparr>"
  shows "net_inv S L y"
proof -
  have sent: "nw_sent y q = nw_sent x q" for q unfolding y by auto
  have c: "tc_sender (quiet (nw_conn y q)) = tc_sender (quiet (nw_conn x q))" "tc_receiver (nw_conn y q) = tc_receiver (nw_conn x q)"
    "settled (nw_conn y q) = settled (nw_conn x q)" for q
    unfolding y by (auto simp: quiet_def settled_def dead_def opened_def live_def no_errors_def)
  have "net_linked S L y q (nw_conn y q)" for q
    using net_invD(1) [OF inv, of q] unfolding net_linked_def linked_def quiet_simps sent c .
  moreover have "histories S y q" for q using net_invD(2) [OF inv, of q] unfolding y by (auto simp: histories_def)
  ultimately show ?thesis using inv unfolding net_inv_def c by simp
qed

lemma inv_read:
  assumes inv: "net_inv S L x"
  obtains data out where "ByteStream_read n (TCPConnection_inbound_stream (nw_conn x p)) = Some (data, out)"
    and "net_inv S L (x\<lparr>nw_conn := (nw_conn x)(p := (nw_conn x p)\<lparr>tc_receiver := (tc_receiver (nw_conn x p))
        \<lparr>rcv_reassembler := (rcv_reassembler (tc_receiver (nw_conn x p)))\<lparr>sr_output := out\<rparr>\<rparr>\<rparr>),
      nw_delivered := (nw_delivered x)(p := nw_delivered x p @ data)\<rparr>)"
proof -
  let ?q = "peer p" and ?r = "tc_receiver (nw_conn x p)"
  let ?R = "sr_read (rcv_reassembler ?r)" and ?W = "sr_written (rcv_reassembler ?r)"
  define m where "m = min n (?W - ?R)"
  note link = net_invD(1) [OF inv, of p] and h = net_invD(2) [OF inv, of p]
  have i: "dir_inv (S ?q) (L ?q) (tc_sender (quiet (nw_conn x ?q))) ?r (nw_sent x ?q) (acks_of (nw_sent x p))"
    using link by (simp add: net_linked_def linked_def)
  obtain out where out: "ByteStream_read n (TCPReceiver_stream_out ?r) = Some (map (S ?q) [?R..<?R + m], out)"
    "dir_inv (S ?q) (L ?q) (tc_sender (quiet (nw_conn x ?q))) (?r\<lparr>rcv_reassembler := (rcv_reassembler ?r)\<lparr>sr_output := out\<rparr>\<rparr>)
       (nw_sent x ?q) (acks_of (nw_sent x p))"
    "bs_bytes_read out = ?R + m" "bs_same_flags (TCPReceiver_stream_out ?r) out"
    by (rule dir_read [OF i m_def])
  let ?c = "(nw_conn x p)\<lparr>tc_receiver := ?r\<lparr>rcv_reassembler := (rcv_reassembler ?r)\<lparr>sr_output := out\<rparr>\<rparr>\<rparr>"
  have "quiet ?c = (quiet (nw_conn x p))\<lparr>tc_receiver := tc_receiver ?c\<rparr>" by (simp add: quiet_def)
  then have c: "net_linked S L x p ?c" using link out(2) by (simp add: net_linked_def linked_def)
  have l: "settled ?c" using net_invD(3) [OF inv, of p] out(4)
    by (auto simp: settled_def dead_def opened_def live_def no_errors_def TCPReceiver_stream_out_def bs_same_flags_def)
  have "map (S ?q) [0..<?R] @ map (S ?q) [?R..<?R + m] = map (S ?q) [0..<?R + m]"
    using upt_add_eq_append [of 0 ?R m] by simp
  then show ?thesis using out h
    by (intro that [of "map (S ?q) [?R..<?R + m]" out] net_inv_update [OF inv c l])
      (simp_all add: TCPConnection_inbound_stream_def histories_def)
qed

lemma net_inv_step:
  assumes "net_step x y" and "net_inv S L x" and "agrees S L y"
  shows "net_inv S L y"
  using assms
proof (induction rule: net_step.induct)
  case (net_connect x p c)
  then show ?case by (metis inv_connect option.inject)
next
  case (net_write x p data n c)
  have n: "n = min (length data) (snd_room (tc_sender (nw_conn x p)))"
    using write_accepts [OF net_invD(1) [OF net_write.prems(1), of p, unfolded net_linked_def], of data n c] net_write.hyps(2) by simp
  then have len: "length (take n data) = n" by simp
  note a = agrees_write [OF net_write.prems(2) net_write.hyps(1)]
  obtain d where "TCPConnection_write data (nw_conn x p) = Some (n, d)"
    "net_inv S L (x\<lparr>nw_conn := (nw_conn x)(p := d), nw_written := (nw_written x)(p := nw_written x p @ take n data)\<rparr>)"
    by (rule inv_write [OF net_write.prems(1) net_write.hyps(1) n a(2,3) [unfolded len]])
  then show ?case using net_write.hyps(2) by simp
next
  case (net_end_input x p c)
  have "length (nw_written x p) = L p" using net_end_input.prems(2) by (auto simp: agrees_def dest!: spec [of _ p])
  then show ?case using net_end_input by (metis inv_end_input option.inject)
next
  case (net_tick x p ms c)
  then show ?case by (metis inv_tick option.inject)
next
  case (net_deliver x p seg c)
  then show ?case by (metis inv_deliver option.inject)
next
  case (net_transmit x p)
  then show ?case by (intro inv_transmit [OF _ refl])
next
  case (net_read n x p data out)
  show ?case by (rule inv_read [OF net_read.prems(1), of n p]) (use net_read.hyps in simp)
qed

lemma net_inv_init:
  assumes "\<And>p. 0 < cfg_send_capacity (cfg p) \<and> cfg_send_capacity (cfg p) < 2 ^ 63 \<and>
      0 < cfg_recv_capacity (cfg p) \<and> cfg_recv_capacity (cfg p) < 2 ^ 63" and "\<And>p. L p + 2 < 2 ^ 31"
  shows "net_inv S L (net_init cfg random)"
proof -
  let ?c = "\<lambda>p. TCPConnection_init (cfg p) (random p)"
  have d: "dir_inv (S p) (L p) (tc_sender (?c p)) (tc_receiver (?c (peer p))) {} {}" for p
    unfolding TCPConnection_init_def TCPConnection.select_convs by (rule dir_inv_init) (use assms in auto)
  have l: "live (?c p)" for p
    by (simp add: live_def no_errors_def TCPConnection_init_def TCPSender_init_def TCPReceiver_init_def
      StreamReassembler_init_def TCPReceiver_stream_out_def)
  have "settled (?c p)" for p
    using l [of p] by (simp add: settled_def opened_def) (simp add: TCPConnection_init_def TCPSender_init_def TCPReceiver_init_def)
  then show ?thesis using d [of "peer _"] d l
    by (simp add: net_inv_def net_init_def net_linked_def linked_def histories_def acks_of_def)
      (simp add: TCPConnection_init_def TCPSender_init_def TCPReceiver_init_def StreamReassembler_init_def)
qed

definition capacities_ok :: "(side \<Rightarrow> TCPConfig) \<Rightarrow> bool" where
  "capacities_ok cfg \<longleftrightarrow> (\<forall>p. 0 < cfg_send_capacity (cfg p) \<and> cfg_send_capacity (cfg p) < 2 ^ 63 \<and>
     0 < cfg_recv_capacity (cfg p) \<and> cfg_recv_capacity (cfg p) < 2 ^ 63)"

lemma net_inv_reachable:
  assumes "net_step\<^sup>*\<^sup>* (net_init cfg random) x" and "capacities_ok cfg" and "agrees S L x" and "\<And>p. L p + 2 < 2 ^ 31"
  shows "net_inv S L x"
  using assms
proof (induction rule: rtranclp_induct)
  case base
  then show ?case by (intro net_inv_init) (simp_all add: capacities_ok_def)
next
  case (step y z)
  have "agrees S L y" by (rule agrees_back [OF step.hyps(2) step.prems(2)])
  with step.prems(1) have "net_inv S L y" using step.prems(3) by (rule step.IH)
  with step.hyps(2) show ?case using step.prems(2) by (rule net_inv_step)
qed

text \<open>The streams as the owners have written them, continued by \<open>rest\<close> where they are still open.\<close>

definition stream_of :: "network \<Rightarrow> (side \<Rightarrow> bytes) \<Rightarrow> side \<Rightarrow> nat \<Rightarrow> u8" where
  "stream_of x rest p i = (nw_written x p @ rest p) ! i"

lemma stream_of_written: "map (stream_of x rest p) [0..<length (nw_written x p)] = nw_written x p"
  by (rule nth_equalityI) (simp_all add: stream_of_def nth_append)

lemma agrees_stream_of:
  assumes "\<And>p. nw_ended x p \<Longrightarrow> rest p = []"
  shows "agrees (stream_of x rest) (\<lambda>p. length (nw_written x p @ rest p)) x"
  using assms by (auto simp: agrees_def stream_of_written)

lemma net_reachable_inv:
  assumes "net_step\<^sup>*\<^sup>* (net_init cfg random) x" and "capacities_ok cfg" and "\<And>p. length (nw_written x p) + 2 < 2 ^ 31"
  shows "net_inv (stream_of x (\<lambda>_. [])) (\<lambda>p. length (nw_written x p)) x"
proof -
  have "agrees (stream_of x (\<lambda>_. [])) (\<lambda>p. length (nw_written x p)) x"
    using agrees_stream_of [of x "\<lambda>_. []"] by simp
  then show ?thesis using assms(3) by (rule net_inv_reachable [OF assms(1,2)])
qed

lemma inbound_prefix:
  assumes inv: "net_inv S L x" and w: "\<And>q. nw_written x q = map (S q) [0..<length (nw_written x q)]"
    and L: "\<And>q. L q = length (nw_written x q)"
  shows "nw_delivered x p @ bs_content (TCPConnection_inbound_stream (nw_conn x p)) =
      take (bs_bytes_written (TCPConnection_inbound_stream (nw_conn x p))) (nw_written x (peer p))"
    and "bs_bytes_written (TCPConnection_inbound_stream (nw_conn x p)) \<le> length (nw_written x (peer p))"
    and "bs_input_ended (TCPConnection_inbound_stream (nw_conn x p)) \<Longrightarrow>
      nw_ended x (peer p) \<and> bs_bytes_written (TCPConnection_inbound_stream (nw_conn x p)) = length (nw_written x (peer p))"
proof -
  let ?q = "peer p" and ?r = "tc_receiver (nw_conn x p)"
  let ?R = "sr_read (rcv_reassembler ?r)" and ?W = "sr_written (rcv_reassembler ?r)"
  have i: "dir_inv (S ?q) (L ?q) (tc_sender (quiet (nw_conn x ?q))) ?r (nw_sent x ?q) (acks_of (nw_sent x p))"
    using net_invD(1) [OF inv, of p] by (simp add: net_linked_def linked_def)
  then have link: "dir_link (S ?q) (L ?q) (tc_sender (quiet (nw_conn x ?q))) ?r" by (simp add: dir_inv_def)
  then have sr: "sr_inv (S ?q) (L ?q) (rcv_reassembler ?r)" by (simp add: dir_link_def rcv_ok_def)
  note b = sr_inv_bounds [OF sr]
  have content: "bs_content (sr_output (rcv_reassembler ?r)) = map (S ?q) [?R..<?W]" using b(9) by (simp add: out_inv_def)
  have "map (S ?q) [0..<?R] @ map (S ?q) [?R..<?W] = map (S ?q) [0..<?W]"
    using upt_add_eq_append [of 0 ?R "?W - ?R"] b(5) by simp
  moreover have "take ?W (nw_written x ?q) = map (S ?q) [0..<?W]"
    using arg_cong [OF w [of ?q], of "take ?W"] b(4) L [of ?q] by (simp add: take_map)
  ultimately show "nw_delivered x p @ bs_content (TCPConnection_inbound_stream (nw_conn x p)) =
      take (bs_bytes_written (TCPConnection_inbound_stream (nw_conn x p))) (nw_written x ?q)"
    using net_invD(2) [OF inv, of p] content
    by (simp add: histories_def TCPConnection_inbound_stream_def TCPReceiver_stream_out_def)
  show "bs_bytes_written (TCPConnection_inbound_stream (nw_conn x p)) \<le> length (nw_written x ?q)"
    using b(4) L by (simp add: TCPConnection_inbound_stream_def TCPReceiver_stream_out_def)
  show "nw_ended x ?q \<and> bs_bytes_written (TCPConnection_inbound_stream (nw_conn x p)) = length (nw_written x ?q)"
    if "bs_input_ended (TCPConnection_inbound_stream (nw_conn x p))"
  proof -
    note e = dir_link_ended [OF link that [unfolded TCPConnection_inbound_stream_def]]
    have "snd_stream_ok (S ?q) (L ?q) (tc_sender (quiet (nw_conn x ?q)))" using link by (simp add: dir_link_def snd_inv_def)
    then have "bs_input_ended (snd_stream (tc_sender (nw_conn x ?q)))"
      using e(2) by (auto simp: snd_stream_ok_def out_inv_def)
    then show ?thesis using e(3) L net_invD(2) [OF inv, of ?q]
      by (simp add: histories_def TCPConnection_inbound_stream_def TCPReceiver_stream_out_def)
  qed
qed

lemma write_returns:
  assumes "net_step\<^sup>*\<^sup>* (net_init cfg random) x" and "capacities_ok cfg" and "\<And>q. length (nw_written x q) + 2 < 2 ^ 31"
    and open_: "\<not> nw_ended x p" and short: "length (nw_written x p) + length data + 2 < 2 ^ 31"
  shows "TCPConnection_write data (nw_conn x p) \<noteq> None"
proof -
  let ?rest = "\<lambda>q. if q = p then data else []" and ?w = "nw_written x p"
  define n where "n = min (length data) (snd_room (tc_sender (nw_conn x p)))"
  have inv: "net_inv (stream_of x ?rest) (\<lambda>p. length (nw_written x p @ ?rest p)) x"
    by (rule net_inv_reachable [OF assms(1,2) agrees_stream_of]) (use open_ short assms(3) in \<open>auto split: if_splits\<close>)
  have "take n data = map (stream_of x ?rest p) [length ?w..<length ?w + n]"
    by (rule nth_equalityI) (simp_all add: stream_of_def nth_append n_def)
  moreover have "length ?w + n \<le> length (?w @ ?rest p)" by (simp add: n_def)
  ultimately show ?thesis by (metis inv_write [OF inv open_ n_def] option.distinct(1))
qed

text \<open>The calls of an owner return.\<close>

lemma calls_return:
  assumes "net_step\<^sup>*\<^sup>* (net_init cfg random) x" and "capacities_ok cfg" and "\<And>q. length (nw_written x q) + 2 < 2 ^ 31"
  shows "usable (nw_conn x p) \<Longrightarrow> TCPConnection_connect (nw_conn x p) \<noteq> None"
    and "usable (nw_conn x p) \<Longrightarrow> TCPConnection_tick ms (nw_conn x p) \<noteq> None"
    and "usable (nw_conn x p) \<Longrightarrow> seg \<in> set (nw_wire x (peer p)) \<Longrightarrow> TCPConnection_segment_received seg (nw_conn x p) \<noteq> None"
    and "\<not> nw_ended x p \<Longrightarrow> length (nw_written x p) + length data + 2 < 2 ^ 31 \<Longrightarrow> TCPConnection_write data (nw_conn x p) \<noteq> None"
    and "TCPConnection_end_input_stream (nw_conn x p) \<noteq> None"
    and "ByteStream_read n (TCPConnection_inbound_stream (nw_conn x p)) \<noteq> None"
proof -
  let ?S = "stream_of x (\<lambda>_. [])" and ?L = "\<lambda>p. length (nw_written x p)"
  have inv: "net_inv ?S ?L x" using assms by (rule net_reachable_inv)
  show "TCPConnection_connect (nw_conn x p) \<noteq> None" if "usable (nw_conn x p)"
    by (rule inv_connect [OF inv that]) simp
  show "TCPConnection_tick ms (nw_conn x p) \<noteq> None" if "usable (nw_conn x p)"
    by (rule inv_tick [OF inv that, of ms]) simp
  show "TCPConnection_segment_received seg (nw_conn x p) \<noteq> None" if "usable (nw_conn x p)" "seg \<in> set (nw_wire x (peer p))"
    by (rule inv_deliver [OF inv that]) simp
  show "TCPConnection_write data (nw_conn x p) \<noteq> None" if "\<not> nw_ended x p" "length (nw_written x p) + length data + 2 < 2 ^ 31"
    using that by (rule write_returns [OF assms])
  show "TCPConnection_end_input_stream (nw_conn x p) \<noteq> None" by (rule inv_end_input [OF inv refl, of p]) simp
  show "ByteStream_read n (TCPConnection_inbound_stream (nw_conn x p)) \<noteq> None" by (rule inv_read [OF inv, of n p]) simp
qed

section \<open>Executing steps\<close>

datatype net_event = N_connect side | N_write side bytes | N_end side | N_tick side nat | N_deliver side nat
  | N_transmit side | N_read side nat

text \<open>\<open>N_deliver p i\<close> delivers the segment number \<open>i\<close> that the peer of \<open>p\<close> has sent.\<close>

fun net_call :: "network \<Rightarrow> net_event \<Rightarrow> network option" where
  "net_call x (N_connect p) = (if tc_active (nw_conn x p)
     then map_option (\<lambda>c. x\<lparr>nw_conn := (nw_conn x)(p := c)\<rparr>) (TCPConnection_connect (nw_conn x p)) else None)"
| "net_call x (N_write p data) = (if \<not> nw_ended x p
     then map_option (\<lambda>(n, c). x\<lparr>nw_conn := (nw_conn x)(p := c), nw_written := (nw_written x)(p := nw_written x p @ take n data)\<rparr>)
       (TCPConnection_write data (nw_conn x p)) else None)"
| "net_call x (N_end p) = map_option (\<lambda>c. x\<lparr>nw_conn := (nw_conn x)(p := c), nw_ended := (nw_ended x)(p := True)\<rparr>)
     (TCPConnection_end_input_stream (nw_conn x p))"
| "net_call x (N_tick p ms) = (if tc_active (nw_conn x p)
     then map_option (\<lambda>c. x\<lparr>nw_conn := (nw_conn x)(p := c)\<rparr>) (TCPConnection_tick ms (nw_conn x p)) else None)"
| "net_call x (N_deliver p i) = (if tc_active (nw_conn x p) \<and> i < length (nw_wire x (peer p))
     then map_option (\<lambda>c. x\<lparr>nw_conn := (nw_conn x)(p := c)\<rparr>)
       (TCPConnection_segment_received (nw_wire x (peer p) ! i) (nw_conn x p)) else None)"
| "net_call x (N_transmit p) = Some (x\<lparr>nw_conn := (nw_conn x)(p := (nw_conn x p)\<lparr>tc_segments_out := []\<rparr>),
     nw_wire := (nw_wire x)(p := nw_wire x p @ tc_segments_out (nw_conn x p))\<rparr>)"
| "net_call x (N_read p n) = map_option (\<lambda>(data, out). x\<lparr>nw_conn := (nw_conn x)(p := (nw_conn x p)\<lparr>tc_receiver :=
       (tc_receiver (nw_conn x p))\<lparr>rcv_reassembler := (rcv_reassembler (tc_receiver (nw_conn x p)))\<lparr>sr_output := out\<rparr>\<rparr>\<rparr>),
     nw_delivered := (nw_delivered x)(p := nw_delivered x p @ data)\<rparr>)
     (ByteStream_read n (TCPConnection_inbound_stream (nw_conn x p)))"

lemma net_call_step: "net_call x e = Some y \<Longrightarrow> net_step x y"
  by (cases e) (auto split: if_splits intro: net_step.intros nth_mem active_usable)

lemma net_run_steps: "run net_call x es = Some y \<Longrightarrow> net_step\<^sup>*\<^sup>* x y"
proof (induction es arbitrary: x)
  case (Cons e es)
  then obtain z where "net_call x e = Some z" "run net_call z es = Some y" by (auto split: option.splits simp del: net_call.simps)
  then show ?case using net_call_step Cons.IH by (meson converse_rtranclp_into_rtranclp)
qed simp

text \<open>An example: a handshake, three bytes one way with a segment delivered twice, and the end of the
  stream.\<close>

definition example_config :: "u32 \<Rightarrow> TCPConfig" where
  "example_config isn = TCPConfig_default\<lparr>cfg_recv_capacity := 8, cfg_send_capacity := 8, cfg_fixed_isn := Some (WrappingInt32 isn)\<rparr>"

definition example_configs :: "side \<Rightarrow> TCPConfig" where
  "example_configs p = (case p of Client \<Rightarrow> example_config 5 | Server \<Rightarrow> example_config 9)"

definition example_events :: "net_event list" where
  "example_events = [N_connect Client, N_transmit Client, N_deliver Server 0, N_transmit Server, N_deliver Client 0,
     N_write Client [1, 2, 3], N_transmit Client, N_deliver Server 2, N_deliver Server 2, N_read Server 2,
     N_end Client, N_transmit Client, N_deliver Server 3, N_transmit Server, N_deliver Client 3]"

lemma example_capacities: "capacities_ok example_configs"
  by (auto simp: capacities_ok_def example_configs_def example_config_def split: side.split)

lemma example_run:
  "map_option (\<lambda>x. (nw_written x Client, nw_written x Server, nw_delivered x Server, nw_ended x Server,
       tc_active (nw_conn x Server), TCPSender_state (tc_sender (nw_conn x Client))))
     (run net_call (net_init example_configs (\<lambda>_. 0)) example_events) = Some ([1, 2, 3], [], [1, 2], False, True, SndFinAcked)"
  by (simp add: example_events_def example_configs_def example_config_def net_init_def TCPConnection_inbound_stream_def
    sponge_eval cong: eval_cong)

lemma example_reachable:
  obtains x where "net_step\<^sup>*\<^sup>* (net_init example_configs (\<lambda>_. 0)) x" and "\<forall>p. length (nw_written x p) + 2 < 2 ^ 31"
    and "nw_written x Client = [1, 2, 3]" and "nw_delivered x Server = [1, 2]" and "tc_active (nw_conn x Server)"
    and "\<not> nw_ended x Server" and "TCPSender_state (tc_sender (nw_conn x Client)) = SndFinAcked" and "nw_written x Server = []"
proof -
  obtain x where x: "run net_call (net_init example_configs (\<lambda>_. 0)) example_events = Some x" "nw_written x Client = [1, 2, 3]"
    "nw_written x Server = []" "nw_delivered x Server = [1, 2]" "tc_active (nw_conn x Server)" "\<not> nw_ended x Server"
    "TCPSender_state (tc_sender (nw_conn x Client)) = SndFinAcked" using example_run by auto
  have "length (nw_written x p) + 2 < 2 ^ 31" for p using x(2,3) by (cases p) simp_all
  then show ?thesis using x net_run_steps by (intro that [of x]) simp_all
qed

section \<open>The properties\<close>

text \<open>C4. Two connections over a network that loses, repeats, delays and reorders segments at will,
  with streams shorter than 2 to the 31 bytes: at every moment, in both directions, the bytes the
  reader has read followed by the bytes it can read are a prefix of the bytes the peer's owner
  has written. When the inbound stream has ended they are all of them, and the peer has ended
  its stream.\<close>

theorem network_delivers_prefix:
  assumes "net_step\<^sup>*\<^sup>* (net_init cfg random) x" and "capacities_ok cfg" and "\<And>q. length (nw_written x q) + 2 < 2 ^ 31"
  shows "prefix (nw_delivered x p @ bs_content (TCPConnection_inbound_stream (nw_conn x p))) (nw_written x (peer p)) \<and>
    (bs_input_ended (TCPConnection_inbound_stream (nw_conn x p)) \<longrightarrow> nw_ended x (peer p) \<and>
      nw_delivered x p @ bs_content (TCPConnection_inbound_stream (nw_conn x p)) = nw_written x (peer p))"
proof -
  have inv: "net_inv (stream_of x (\<lambda>_. [])) (\<lambda>p. length (nw_written x p)) x" using assms by (rule net_reachable_inv)
  note i = inbound_prefix [OF inv stream_of_written [symmetric] refl, of p]
  show ?thesis unfolding i(1) using i(3) by (auto simp: take_is_prefix)
qed

theorem network_delivers_prefix_witness:
  "\<exists>x. net_step\<^sup>*\<^sup>* (net_init example_configs (\<lambda>_. 0)) x \<and> nw_delivered x Server = [1, 2] \<and>
     prefix (nw_delivered x Server @ bs_content (TCPConnection_inbound_stream (nw_conn x Server))) [1, 2, 3]"
proof -
  obtain x where x: "net_step\<^sup>*\<^sup>* (net_init example_configs (\<lambda>_. 0)) x" "\<forall>p. length (nw_written x p) + 2 < 2 ^ 31"
    "nw_written x Client = [1, 2, 3]" "nw_delivered x Server = [1, 2]" by (rule example_reachable)
  with network_delivers_prefix [OF x(1) example_capacities x(2) [rule_format], of Server] show ?thesis by auto
qed

text \<open>C5. What is acknowledged was delivered: when the sender of an endpoint has seen the
  acknowledgment of its FIN, the inbound stream of the peer has ended and holds, after what was
  read, exactly what was written.\<close>

theorem network_acknowledged_is_delivered:
  assumes "net_step\<^sup>*\<^sup>* (net_init cfg random) x" and "capacities_ok cfg" and "\<And>q. length (nw_written x q) + 2 < 2 ^ 31"
    and "TCPSender_state (tc_sender (nw_conn x p)) = SndFinAcked"
  shows "bs_input_ended (TCPConnection_inbound_stream (nw_conn x (peer p))) \<and>
    nw_delivered x (peer p) @ bs_content (TCPConnection_inbound_stream (nw_conn x (peer p))) = nw_written x p"
proof -
  let ?S = "stream_of x (\<lambda>_. [])" and ?L = "\<lambda>p. length (nw_written x p)" and ?s = "tc_sender (quiet (nw_conn x p))"
  have inv: "net_inv ?S ?L x" using assms(1-3) by (rule net_reachable_inv)
  have d: "dir_inv (?S p) (?L p) ?s (tc_receiver (nw_conn x (peer p))) (nw_sent x p) (acks_of (nw_sent x (peer p)))"
    using net_invD(1) [OF inv, of p] by (simp add: net_linked_def linked_def)
  then have so: "snd_stream_ok (?S p) (?L p) ?s" and q: "snd_queue_ok (?S p) (?L p) ?s"
    by (simp_all add: dir_inv_def dir_link_def snd_inv_def)
  have "TCPSender_state ?s = TCPSender_state (tc_sender (nw_conn x p))" by (simp add: quiet_def TCPSender_state_def)
  then have st: "TCPSender_state ?s = SndFinAcked" using assms(4) by simp
  have "snd_last_ack_no ?s = ?L p + 2" by (rule fin_acked_last [OF so q st])
  note e = dir_acked_all(1) [OF d this]
  note i = inbound_prefix [OF inv stream_of_written [symmetric] refl, of "peer p"]
  show ?thesis using e i(1,3) by (simp add: TCPConnection_inbound_stream_def)
qed

theorem network_acknowledged_is_delivered_witness:
  "\<exists>x. net_step\<^sup>*\<^sup>* (net_init example_configs (\<lambda>_. 0)) x \<and> nw_delivered x Server = [1, 2] \<and>
     bs_content (TCPConnection_inbound_stream (nw_conn x Server)) = [3] \<and>
     bs_input_ended (TCPConnection_inbound_stream (nw_conn x Server))"
proof -
  obtain x where x: "net_step\<^sup>*\<^sup>* (net_init example_configs (\<lambda>_. 0)) x" "\<forall>p. length (nw_written x p) + 2 < 2 ^ 31"
    "nw_written x Client = [1, 2, 3]" "nw_delivered x Server = [1, 2]" "TCPSender_state (tc_sender (nw_conn x Client)) = SndFinAcked"
    by (rule example_reachable)
  with network_acknowledged_is_delivered [OF x(1) example_capacities x(2) [rule_format] x(5)] show ?thesis by auto
qed



text \<open>Both endpoints end their streams at the same time and the FIN of the client is lost: it waits
  for the acknowledgment of its FIN in the state CLOSING.\<close>

definition closing_events :: "net_event list" where
  "closing_events = [N_connect Client, N_transmit Client, N_deliver Server 0, N_transmit Server, N_deliver Client 0,
     N_transmit Client, N_deliver Server 1, N_end Client, N_end Server, N_transmit Server, N_deliver Client 1, N_tick Client 10000]"

lemma closing_run:
  "map_option (\<lambda>x. (tc_active (nw_conn x Client), TCPSender_state (tc_sender (nw_conn x Client)),
       TCPReceiver_state (tc_receiver (nw_conn x Client)), bs_input_ended (TCPConnection_inbound_stream (nw_conn x Server))))
     (run net_call (net_init example_configs (\<lambda>_. 0)) closing_events) = Some (False, SndFinSent, RcvFinRecv, False)"
  by (simp add: closing_events_def example_configs_def example_config_def net_init_def TCPConnection_inbound_stream_def
    sponge_eval cong: eval_cong)


end
