(* ===== verification/Segment_Bounds.thy ===== *)
theory Segment_Bounds
  imports TCP_Network
begin

text \<open>
  The sizes of segments: every segment that a connection of a network ever sends has a header of
  five words and a payload of at most the maximal size. The operations of sender and connection keep
  that, whatever segments arrive.
\<close>

definition tame :: "TCPSegment \<Rightarrow> bool" where
  "tame seg \<longleftrightarrow> th_doff (seg_header seg) = 5 \<and> length (Buffer_str (seg_payload seg)) \<le> MAX_PAYLOAD_SIZE"

definition snd_tame :: "TCPSender \<Rightarrow> bool" where
  "snd_tame s \<longleftrightarrow> (\<forall>seg \<in> set (snd_segments_out s) \<union> set (snd_outstanding_segments s). tame seg)"

definition conn_tame :: "TCPConnection \<Rightarrow> bool" where
  "conn_tame c \<longleftrightarrow> snd_tame (tc_sender c) \<and> (\<forall>seg \<in> set (tc_segments_out c). tame seg)"

section \<open>The sender\<close>

lemma tame_default [simp]:
  "tame (TCPSegment_default\<lparr>seg_header := TCPHeader_default\<lparr>th_seqno := a\<rparr>\<rparr>)"
  "tame (TCPSegment_default\<lparr>seg_header := TCPHeader_default\<lparr>th_syn := True, th_seqno := a\<rparr>\<rparr>)"
  by (simp_all add: tame_def TCPSegment_default_def TCPHeader_default_def TCPHeader_LENGTH_def)

lemma snd_tame_update [simp]:
  "snd_tame (s\<lparr>snd_stream := st\<rparr>) = snd_tame s" "snd_tame (s\<lparr>snd_timer := t\<rparr>) = snd_tame s"
  "snd_tame (s\<lparr>snd_window_size := w\<rparr>) = snd_tame s" "snd_tame (s\<lparr>snd_last_ack_no := n\<rparr>) = snd_tame s"
  "snd_tame (s\<lparr>snd_retransmission_count := n\<rparr>) = snd_tame s" "snd_tame (s\<lparr>snd_bytes_in_flight := n\<rparr>) = snd_tame s"
  by (simp_all add: snd_tame_def)

lemma peek_length: "ByteStream_peek_output len s = Some data \<Longrightarrow> length data \<le> len"
  by (auto simp: ByteStream_peek_output_def memcpy_def Let_def bind_eq_Some_conv split: if_splits)

lemma read_length: "ByteStream_read len s = Some (data, t) \<Longrightarrow> length data \<le> len"
  by (auto simp: ByteStream_read_def bind_eq_Some_conv dest: peek_length)

lemma send_segment_tame: "snd_tame s \<Longrightarrow> tame seg \<Longrightarrow> snd_tame (TCPSender_send_segment seg s)"
  by (auto simp: TCPSender_send_segment_def Let_def snd_tame_def)

lemma read_payload: "ByteStream_read (min m MAX_PAYLOAD_SIZE) s = Some (data, t) \<Longrightarrow> length data \<le> MAX_PAYLOAD_SIZE"
  by (drule read_length) simp

lemma tame_filled:
  assumes "length data \<le> MAX_PAYLOAD_SIZE"
  shows "tame (TCPSegment_default\<lparr>seg_header := TCPHeader_default\<lparr>th_seqno := a\<rparr>, seg_payload := Buffer_init data\<rparr>)"
    and "tame (TCPSegment_default\<lparr>seg_payload := Buffer_init data, seg_header := TCPHeader_default\<lparr>th_seqno := a, th_fin := True\<rparr>\<rparr>)"
  using assms by (simp_all add: tame_def TCPHeader_default_def TCPHeader_LENGTH_def)

lemma fill_loop_tame:
  assumes "fill_loop s = Some t" and "snd_tame s"
  shows "snd_tame t"
proof -
  have "snd_tame s \<longrightarrow> snd_tame t"
  proof (rule fill_loop.raw_induct [OF _ assms(1), where P = "\<lambda>s t. snd_tame s \<longrightarrow> snd_tame t"], goal_cases)
    case (1 fill s t)
    have "t = s \<or> (\<exists>seg st. tame seg \<and> fill (TCPSender_send_segment seg (s\<lparr>snd_stream := st\<rparr>)) = Some t)"
    proof (cases "ByteStream_read (min (min (ByteStream_buffer_size (snd_stream s)) (TCPSender_free_window_size s)) MAX_PAYLOAD_SIZE) (snd_stream s)")
      case None
      then show ?thesis using 1(2) by (simp add: Let_def split: if_splits)
    next
      case (Some r)
      obtain data st where r: "r = (data, st)" by (cases r)
      note tame_filled [OF read_payload [OF Some [unfolded r]]]
      then show ?thesis using 1(2) Some r by (auto simp: Let_def split: if_splits)
    qed
    then show ?case using 1(1) send_segment_tame by fastforce
  qed
  then show ?thesis using assms(2) by simp
qed

lemma fill_window_tame: "TCPSender_fill_window s = Some t \<Longrightarrow> snd_tame s \<Longrightarrow> snd_tame t"
  by (auto simp: TCPSender_fill_window_def split: if_splits intro: fill_loop_tame send_segment_tame)

lemma ack_loop_tame: "snd_tame s \<Longrightarrow> \<forall>seg \<in> set segs. tame seg \<Longrightarrow> snd_tame (ack_loop a segs s)"
proof (induction segs arbitrary: s)
  case (Cons seg segs)
  have "snd_tame (s\<lparr>snd_timer := t, snd_outstanding_segments := seg # segs\<rparr>)" for t using Cons.prems by (auto simp: snd_tame_def)
  then show ?case using Cons by (simp add: Let_def)
qed (simp add: snd_tame_def)

lemma ack_received_tame: "snd_tame s \<Longrightarrow> snd_tame (TCPSender_ack_received ackno win s)"
  by (auto simp: TCPSender_ack_received_def Let_def intro!: ack_loop_tame) (simp add: snd_tame_def)

lemma tick_tame: "TCPSender_tick ms s = Some t \<Longrightarrow> snd_tame s \<Longrightarrow> snd_tame t"
  by (auto simp: TCPSender_tick_def Let_def snd_tame_def split: if_splits list.splits)

lemma send_empty_tame: "snd_tame s \<Longrightarrow> snd_tame (TCPSender_send_empty_segment s)"
  by (auto simp: TCPSender_send_empty_segment_def snd_tame_def)

section \<open>The connection\<close>

lemma conn_tame_update [simp]:
  "conn_tame (c\<lparr>tc_receiver := r\<rparr>) = conn_tame c" "conn_tame (c\<lparr>tc_active := b\<rparr>) = conn_tame c"
  "conn_tame (c\<lparr>tc_ms_since_last_recv := n\<rparr>) = conn_tame c" "conn_tame (c\<lparr>tc_need_send_rst := b\<rparr>) = conn_tame c"
  "conn_tame (c\<lparr>tc_linger_after_stream_finish := b\<rparr>) = conn_tame c"
  by (simp_all add: conn_tame_def)

lemma conn_tame_sender: "conn_tame c \<Longrightarrow> snd_tame s \<Longrightarrow> conn_tame (c\<lparr>tc_sender := s\<rparr>)"
  by (simp add: conn_tame_def)

lemma tame_stamp [simp]: "tame (stamp_ack a w seg) = tame seg"
  by (simp add: stamp_ack_def tame_def split: option.split)

lemma tame_moved [simp]:
  "tame seg \<Longrightarrow> tame (seg\<lparr>seg_payload := (seg_payload seg)\<lparr>buf_storage := None\<rparr>\<rparr>)"
  "tame (seg\<lparr>seg_header := (seg_header seg)\<lparr>th_rst := b\<rparr>\<rparr>) = tame seg"
  by (simp_all add: tame_def Buffer_str_def)

lemma enqueue_loop_tame:
  "enqueue_loop segs c = Some d \<Longrightarrow> \<forall>seg \<in> set segs. tame seg \<Longrightarrow> conn_tame c \<Longrightarrow> conn_tame d"
proof (induction segs arbitrary: c)
  case Nil
  then show ?case by (auto simp: conn_tame_def snd_tame_def)
next
  case (Cons seg segs)
  show ?case
  proof (cases "tc_need_send_rst c")
    case True
    then show ?thesis using Cons.prems by (auto simp: Let_def conn_tame_def snd_tame_def)
  next
    case False
    then obtain a where "enqueue_loop segs (c\<lparr>tc_segments_out := tc_segments_out c @
        [stamp_ack a (TCPReceiver_window_size (tc_receiver c)) seg]\<rparr>) = Some d"
      using Cons.prems(1) by (auto simp: Let_def split: bind_splits)
    then show ?thesis using Cons.prems(2,3) by (elim Cons.IH) (auto simp: conn_tame_def snd_tame_def)
  qed
qed

lemma enqueue_tame: "TCPConnection_enqueue_segments c = Some d \<Longrightarrow> conn_tame c \<Longrightarrow> conn_tame d"
  unfolding TCPConnection_enqueue_segments_def by (erule enqueue_loop_tame) (simp_all add: conn_tame_def snd_tame_def)

lemma try_clean_tame [simp]: "conn_tame (TCPConnection_try_clean_shutdown c) = conn_tame c"
  by (simp add: TCPConnection_try_clean_shutdown_def)

lemma unclean_tame [simp]: "conn_tame (TCPConnection_unclean_shutdown c) = conn_tame c"
  by (simp add: TCPConnection_unclean_shutdown_def snd_set_error_def conn_tame_def)

lemma fill_enqueue_tame:
  assumes "Option.bind (TCPSender_fill_window s) (\<lambda>s. TCPConnection_enqueue_segments (c\<lparr>tc_sender := s\<rparr>)) = Some d"
    and "conn_tame c" and "snd_tame s"
  shows "conn_tame d"
  using assms by (auto simp: bind_eq_Some_conv intro: enqueue_tame conn_tame_sender fill_window_tame)

lemma call_tame:
  assumes "conn_tame c"
  shows "TCPConnection_connect c = Some d \<Longrightarrow> conn_tame d" and "TCPConnection_write data c = Some (n, d) \<Longrightarrow> conn_tame d"
    and "TCPConnection_end_input_stream c = Some d \<Longrightarrow> conn_tame d" and "TCPConnection_tick ms c = Some d \<Longrightarrow> conn_tame d"
proof -
  have s: "snd_tame (tc_sender c)" using assms by (simp add: conn_tame_def)
  show "conn_tame d" if "TCPConnection_connect c = Some d"
    using that assms s unfolding TCPConnection_connect_def by (rule fill_enqueue_tame)
  show "conn_tame d" if "TCPConnection_end_input_stream c = Some d"
    using that assms s unfolding TCPConnection_end_input_stream_def by (elim fill_enqueue_tame) simp_all
  show "conn_tame d" if w: "TCPConnection_write data c = Some (n, d)"
  proof -
    obtain st t where f: "TCPSender_fill_window ((tc_sender c)\<lparr>snd_stream := st\<rparr>) = Some t"
      "TCPConnection_enqueue_segments (c\<lparr>tc_sender := t\<rparr>) = Some d"
      using w by (auto simp: TCPConnection_write_def bind_eq_Some_conv)
    have "snd_tame t" using f(1) s by (elim fill_window_tame) simp
    then show ?thesis using f(2) assms by (elim enqueue_tame) (simp add: conn_tame_sender)
  qed
  show "conn_tame d" if tick: "TCPConnection_tick ms c = Some d"
  proof -
    obtain t where t: "TCPSender_tick ms (tc_sender c) = Some t"
      using tick by (auto simp: TCPConnection_tick_def Let_def split: bind_splits)
    let ?c = "c\<lparr>tc_ms_since_last_recv := add64 (tc_ms_since_last_recv c) ms, tc_sender := t\<rparr>"
    let ?u = "(TCPConnection_unclean_shutdown ?c)\<lparr>tc_need_send_rst := True\<rparr>"
    have c: "conn_tame ?c" using assms tick_tame [OF t s] by (simp add: conn_tame_def)
    then have u: "conn_tame ?u" by (simp only: conn_tame_update unclean_tame)
    have "conn_tame (?u\<lparr>tc_sender := TCPSender_send_empty_segment (tc_sender ?u)\<rparr>)"
      using u conn_tame_def [of ?u] by (intro conn_tame_sender send_empty_tame) blast+
    then show ?thesis using tick t c
      by (auto simp: TCPConnection_tick_def Let_def split: if_splits elim!: enqueue_tame)
  qed
qed

lemma segment_received_tame:
  assumes "TCPConnection_segment_received seg c = Some d" and "conn_tame c"
  shows "conn_tame d"
proof -
  let ?c = "c\<lparr>tc_ms_since_last_recv := 0\<rparr>"
  have acc: "conn_tame e" if "conn_accept seg ?c = Some e" for e
    using that assms(2) ack_received_tame [of "tc_sender c"] conn_tame_def [of c]
    by (auto simp: conn_accept_def Let_def intro!: conn_tame_sender split: bind_splits if_splits)
  have reply: "conn_tame d" if e: "conn_tame e" and r: "conn_reply seg e = Some d" for e
  proof -
    obtain t e' where t: "TCPSender_fill_window (tc_sender e) = Some t" "e' = e\<lparr>tc_sender := TCPSender_send_empty_segment t\<rparr> \<or> e' = e\<lparr>tc_sender := t\<rparr>"
      "TCPConnection_enqueue_segments (TCPConnection_try_clean_shutdown e') = Some d"
      using r by (auto simp: conn_reply_def Let_def split: bind_splits if_splits)
    have "snd_tame t" using fill_window_tame [OF t(1)] e by (simp add: conn_tame_def)
    then have "conn_tame e'" using e t(2) by (auto simp: conn_tame_sender send_empty_tame)
    then show ?thesis using t(3) by (elim enqueue_tame) simp
  qed
  show ?thesis
    using assms acc reply unfolding segment_received_split by (auto simp: bind_eq_Some_conv split: if_splits)
qed

section \<open>The network\<close>

lemma step_tame:
  assumes "net_step x y" and "\<And>p. conn_tame (nw_conn x p) \<and> (\<forall>seg \<in> set (nw_wire x p). tame seg)"
  shows "conn_tame (nw_conn y p) \<and> (\<forall>seg \<in> set (nw_wire y p). tame seg)"
  using assms
proof (induction rule: net_step.induct)
  case (net_transmit x q)
  then show ?case by (auto simp: conn_tame_def snd_tame_def)
qed (auto intro: call_tame segment_received_tame)

lemma reachable_tame:
  assumes "net_step\<^sup>*\<^sup>* (net_init cfg random) x"
  shows "conn_tame (nw_conn x p) \<and> (\<forall>seg \<in> set (nw_wire x p). tame seg)"
  using assms
proof (induction arbitrary: p rule: rtranclp_induct)
  case base
  then show ?case by (simp add: net_init_def conn_tame_def snd_tame_def TCPConnection_init_def TCPSender_init_def)
next
  case (step y z)
  then show ?case using step_tame by blast
qed

text \<open>C34. Whatever happens on the network, every segment that is ever put on the wire has a header of five
  words without options and a payload of at most 1000 bytes.\<close>

theorem network_segments_fit:
  assumes "net_step\<^sup>*\<^sup>* (net_init cfg random) x" and "seg \<in> set (nw_wire x p) \<union> set (tc_segments_out (nw_conn x p))"
  shows "th_doff (seg_header seg) = 5 \<and> length (Buffer_str (seg_payload seg)) \<le> 1000"
  using reachable_tame [OF assms(1), of p] assms(2) by (auto simp: conn_tame_def tame_def MAX_PAYLOAD_SIZE_def)

theorem network_segments_fit_witness:
  "\<exists>x. net_step\<^sup>*\<^sup>* (net_init example_configs (\<lambda>_. 0)) x \<and> nw_wire x Client \<noteq> [] \<and>
    length (Buffer_str (seg_payload (hd (nw_wire x Client)))) \<le> 1000"
proof -
  have "map_option (\<lambda>x. length (nw_wire x Client)) (run net_call (net_init example_configs (\<lambda>_. 0)) [N_connect Client, N_transmit Client]) = Some 1"
    by (simp add: example_configs_def example_config_def net_init_def sponge_eval cong: eval_cong)
  then obtain x where x: "run net_call (net_init example_configs (\<lambda>_. 0)) [N_connect Client, N_transmit Client] = Some x"
    "nw_wire x Client \<noteq> []" by fastforce
  note r = net_run_steps [OF x(1)]
  show ?thesis using network_segments_fit [OF r, of "hd (nw_wire x Client)" Client] r x(2) by auto
qed

end
