(* ===== verification/TCP_Handshake.thy ===== *)
theory TCP_Handshake
  imports TCP_Network
begin

text \<open>
  The three-way handshake, for every configuration: the states of both endpoints after each of its
  steps, computed once for all initial sequence numbers and capacities.
\<close>

section \<open>The sender of a fresh connection\<close>

definition fresh_sender :: "TCPConfig \<Rightarrow> u32 \<Rightarrow> TCPSender" where
  "fresh_sender cfg random = tc_sender (TCPConnection_init cfg random)"

definition syn_sent :: "TCPSender \<Rightarrow> TCPSender" where
  "syn_sent s = s\<lparr>snd_next_seq_no := 1, snd_bytes_in_flight := 1, snd_outstanding_segments := [syn_segment s],
     snd_timer := Timer_restart (snd_timer s)\<rparr>"

definition syn_acked :: "TCPSender \<Rightarrow> u16 \<Rightarrow> TCPSender" where
  "syn_acked s win = s\<lparr>snd_next_seq_no := 1, snd_last_ack_no := 1, snd_bytes_in_flight := 0, snd_outstanding_segments := [],
     snd_retransmission_count := 0, snd_window_size := unat win,
     snd_timer := Timer_reset_timeout (unat (snd_init_retransmission_timeout s)) (snd_timer s)\<rparr>"

lemma fresh_sender_fields [simp]:
  "snd_segments_out (fresh_sender cfg random) = []" "snd_outstanding_segments (fresh_sender cfg random) = []"
  "snd_next_seq_no (fresh_sender cfg random) = 0" "snd_last_ack_no (fresh_sender cfg random) = 0"
  "snd_bytes_in_flight (fresh_sender cfg random) = 0" "snd_stream (fresh_sender cfg random) = ByteStream_init (cfg_send_capacity cfg)"
  "snd_timer (fresh_sender cfg random) = Timer_init (unat (cfg_rt_timeout cfg))"
  by (simp_all add: fresh_sender_def TCPConnection_init_def TCPSender_init_def)

lemma states [simp]:
  "TCPSender_state (fresh_sender cfg random) = SndClosed" "TCPSender_state (syn_sent (fresh_sender cfg random)) = SndSynSent"
  "TCPSender_state (syn_acked (fresh_sender cfg random) win) = SndSynAcked"
  by (simp_all add: TCPSender_state_def syn_sent_def syn_acked_def ByteStream_init_def ByteStream_eof_def)

lemma fill_fresh:
  "TCPSender_fill_window (fresh_sender cfg random) =
   Some ((syn_sent (fresh_sender cfg random))\<lparr>snd_segments_out := [syn_segment (fresh_sender cfg random)]\<rparr>)"
  by (simp add: TCPSender_fill_window_def TCPSender_send_segment_def syn_sent_def Timer_init_def
    TCPSegment_length_in_sequence_space_def TCPSegment_default_def TCPHeader_default_def add64_def Let_def
    syn_segment_def [unfolded TCPSegment_default_def TCPHeader_default_def])

lemma wrap_0: "wrap 0 isn = isn"
  by (cases isn) (simp add: wrap_def wi_plus_def)

lemma ack_syn:
  assumes "snd_isn s = isn" and "snd_last_ack_no s = 0" and "snd_segments_out s = []"
  shows "TCPSender_ack_received (wrap 1 isn) win (syn_sent s) = syn_acked s win"
proof -
  have u: "unwrap (wrap 1 isn) isn 0 = 1" "unwrap isn isn 0 = 0"
    using unwrap_wrap_near [of 1 0 isn] unwrap_wrap_near [of 0 0 isn] by (simp_all add: wrap_0)
  have l: "TCPSegment_length_in_sequence_space (syn_segment s) = 1"
    using seg_len_exact [of "syn_segment s"] syn_segment_genuine(2,3) [of s] by simp
  have q: "th_seqno (seg_header (syn_segment s)) = isn" using assms(1) by (simp add: syn_segment_def TCPSegment_default_def)
  show ?thesis
    using assms(1,2) by (simp add: TCPSender_ack_received_def syn_sent_def syn_acked_def Let_def u [simplified] l [simplified] q
      add64_def sub64_def Timer_restart_def Timer_reset_timeout_def Timer_reset_def)
qed

lemma fill_acked:
  "TCPSender_fill_window (syn_acked (fresh_sender cfg random) win) = Some (syn_acked (fresh_sender cfg random) win)"
proof -
  let ?s = "syn_acked (fresh_sender cfg random) win"
  have "\<not> more_to_send ?s"
    by (simp add: more_to_send_def) (simp add: syn_acked_def ByteStream_buffer_size_def ByteStream_init_def)
  then show ?thesis by (simp add: TCPSender_fill_window_def fill_loop_done)
qed

section \<open>The receiver of a fresh connection\<close>

lemma receive_nothing:
  assumes cap: "0 < cap" "cap < 2 ^ 63" and r: "r = TCPReceiver_init cap \<or> r = rcv_open isn (TCPReceiver_init cap)"
    and seg: "Buffer_str (seg_payload seg) = []" "\<not> th_fin (seg_header seg)"
    and seq: "th_seqno (seg_header seg) = wrap a isn" "th_syn (seg_header seg) \<longleftrightarrow> a = 0" "a \<le> 1"
    and syn: "r = TCPReceiver_init cap \<longrightarrow> a = 0"
  shows "TCPReceiver_segment_received seg r = Some (rcv_open isn (TCPReceiver_init cap))"
proof -
  let ?S = "\<lambda>_. 0 :: u8" and ?r = "TCPReceiver_init cap"
  have i: "rcv_inv ?S 0 isn ?r" using cap by (intro rcv_inv_init) simp_all
  then have inv: "rcv_inv ?S 0 isn r" using r rcv_open_inv by blast
  have gen: "seg_genuine ?S 0 isn a seg" using seg seq by (simp add: seg_genuine_def seg_empty_def)
  have "rcv_next r = 1" using r rcv_listen_next [OF i] by (auto simp: TCPReceiver_init_def)
  then have near: "rcv_near r a" using seq(3) by (simp add: rcv_near_def)
  have re: "rcv_reassembler r = rcv_reassembler ?r" using r by auto
  have "StreamReassembler_push_substring [] (a - 1) False (rcv_reassembler ?r) = Some (rcv_reassembler ?r)"
    using i seq(3) by (intro push_empty [of ?S 0]) (simp_all add: rcv_inv_def)
  moreover have "rcv_open isn r = rcv_open isn ?r" using r by (auto simp: rcv_open_def)
  ultimately show ?thesis
    using segment_received_push [OF inv gen near] seg syn seq(2) r re by (auto simp: rcv_open_def)
qed

lemma open_answers:
  assumes "0 < cap" and "cap < 2 ^ 63"
  shows "TCPReceiver_ackno (rcv_open isn (TCPReceiver_init cap)) = Some (Some (wrap 1 isn))"
    and "TCPReceiver_window_size (rcv_open isn (TCPReceiver_init cap)) = cap"
    and "TCPReceiver_state (rcv_open isn (TCPReceiver_init cap)) = RcvSynRecv"
proof -
  let ?r = "TCPReceiver_init cap"
  have i: "rcv_inv (\<lambda>_. 0) 0 isn ?r" using assms by (intro rcv_inv_init) simp_all
  note a = rcv_inv_answers [OF rcv_open_inv [OF i]]
  have "rcv_next ?r = 1" using rcv_listen_next [OF i] by (simp add: TCPReceiver_init_def)
  then show "TCPReceiver_ackno (rcv_open isn ?r) = Some (Some (wrap 1 isn))" using a(4) by simp
  show "TCPReceiver_window_size (rcv_open isn ?r) = cap"
    using a(5) by (simp add: TCPReceiver_init_def StreamReassembler_init_def ByteStream_init_def)
  show "TCPReceiver_state (rcv_open isn ?r) = RcvSynRecv"
    by (simp add: TCPReceiver_state_def TCPReceiver_init_def StreamReassembler_init_def ByteStream_init_def TCPReceiver_stream_out_def)
qed

lemma listen_answers:
  "TCPReceiver_ackno (TCPReceiver_init cap) = Some None" "TCPReceiver_state (TCPReceiver_init cap) = RcvListen"
  by (simp_all add: TCPReceiver_ackno_def TCPReceiver_state_def TCPReceiver_init_def StreamReassembler_init_def
    ByteStream_init_def TCPReceiver_stream_out_def)

section \<open>The steps\<close>

text \<open>A connection in the handshake: receiver, sender and outgoing segments.\<close>

definition handshake_conn :: "TCPConfig \<Rightarrow> u32 \<Rightarrow> TCPReceiver \<Rightarrow> TCPSender \<Rightarrow> TCPSegment list \<Rightarrow> TCPConnection" where
  "handshake_conn cfg random r s segs = (TCPConnection_init cfg random)\<lparr>tc_receiver := r, tc_sender := s, tc_segments_out := segs\<rparr>"

lemma handshake_conn_simps [simp]:
  "tc_receiver (handshake_conn cfg random r s segs) = r" "tc_sender (handshake_conn cfg random r s segs) = s"
  "tc_segments_out (handshake_conn cfg random r s segs) = segs" "tc_active (handshake_conn cfg random r s segs)"
  "tc_linger_after_stream_finish (handshake_conn cfg random r s segs)" "\<not> tc_need_send_rst (handshake_conn cfg random r s segs)"
  "(handshake_conn cfg random r s segs)\<lparr>tc_ms_since_last_recv := 0\<rparr> = handshake_conn cfg random r s segs"
  "(handshake_conn cfg random r s segs)\<lparr>tc_receiver := r'\<rparr> = handshake_conn cfg random r' s segs"
  "(handshake_conn cfg random r s segs)\<lparr>tc_sender := s'\<rparr> = handshake_conn cfg random r s' segs"
  "(handshake_conn cfg random r s segs)\<lparr>tc_segments_out := segs'\<rparr> = handshake_conn cfg random r s segs'"
  by (simp_all add: handshake_conn_def TCPConnection_init_def)

lemma handshake_conn_init:
  "TCPConnection_init cfg random = handshake_conn cfg random (TCPReceiver_init (cfg_recv_capacity cfg)) (fresh_sender cfg random) []"
  by (simp add: handshake_conn_def fresh_sender_def TCPConnection_init_def)

lemma handshake_enqueue:
  assumes "TCPReceiver_ackno r = Some a"
  shows "TCPConnection_enqueue_segments (handshake_conn cfg random r s segs) = Some (handshake_conn cfg random r
    (s\<lparr>snd_segments_out := []\<rparr>) (segs @ map (stamp_ack a (TCPReceiver_window_size r)) (snd_segments_out s)))"
  using assms by (simp add: TCPConnection_enqueue_segments_def enqueue_loop_stamps)

lemma handshake_try_clean:
  "TCPReceiver_state r \<noteq> RcvFinRecv \<Longrightarrow>
   TCPConnection_try_clean_shutdown (handshake_conn cfg random r s segs) = handshake_conn cfg random r s segs"
  by (simp add: TCPConnection_try_clean_shutdown_def)

lemma quiet_sender [simp]:
  "(syn_sent (fresh_sender cfg random))\<lparr>snd_segments_out := []\<rparr> = syn_sent (fresh_sender cfg random)"
  "snd_segments_out (syn_sent (fresh_sender cfg random)) = []" "snd_segments_out (syn_acked (fresh_sender cfg random) win) = []"
  "(syn_acked (fresh_sender cfg random) win)\<lparr>snd_segments_out := []\<rparr> = syn_acked (fresh_sender cfg random) win"
  by (simp_all add: syn_sent_def syn_acked_def fresh_sender_def TCPConnection_init_def TCPSender_init_def)

lemma stamp_None [simp]: "stamp_ack None w seg = seg"
  by (simp add: stamp_ack_def)

lemma handshake_connect:
  "TCPConnection_connect (TCPConnection_init cfg random) = Some (handshake_conn cfg random
     (TCPReceiver_init (cfg_recv_capacity cfg)) (syn_sent (fresh_sender cfg random)) [syn_segment (fresh_sender cfg random)])"
  unfolding handshake_conn_init by (simp add: TCPConnection_connect_def fill_fresh handshake_enqueue listen_answers)

text \<open>A segment without payload, FIN and RST.\<close>

definition bare :: "TCPSegment \<Rightarrow> bool" where
  "bare seg \<longleftrightarrow> Buffer_str (seg_payload seg) = [] \<and> \<not> th_fin (seg_header seg) \<and> \<not> th_rst (seg_header seg)"

lemma handshake_syn:
  assumes cap: "cap = cfg_recv_capacity cfg" "0 < cap" "cap < 2 ^ 63" and seg: "bare seg"
    and f: "th_syn (seg_header seg)" "\<not> th_ack (seg_header seg)" "th_seqno (seg_header seg) = isn"
  shows "TCPConnection_segment_received seg (TCPConnection_init cfg random) = Some (handshake_conn cfg random
     (rcv_open isn (TCPReceiver_init cap)) (syn_sent (fresh_sender cfg random))
     [stamp_ack (Some (wrap 1 isn)) cap (syn_segment (fresh_sender cfg random))])"
proof -
  have r: "TCPReceiver_segment_received seg (TCPReceiver_init cap) = Some (rcv_open isn (TCPReceiver_init cap))"
    using f seg cap by (intro receive_nothing [where a = 0]) (simp_all add: wrap_0 bare_def)
  have "needs_reply seg (rcv_open isn (TCPReceiver_init cap)) = Some True"
    using f seg by (simp add: needs_reply_def TCPSegment_length_in_sequence_space_def add64_def bare_def)
  then show ?thesis
    unfolding handshake_conn_init cap(1) [symmetric] using f seg r
    by (simp add: bare_def TCPConnection_segment_received_def Let_def open_answers [OF cap(2,3)] fill_fresh handshake_try_clean
      handshake_enqueue TCPSender_send_empty_segment_def)
qed

definition ack_segment :: "TCPSender \<Rightarrow> TCPSegment" where
  "ack_segment s = TCPSegment_default\<lparr>seg_header := TCPHeader_default\<lparr>th_seqno := wrap 1 (snd_isn s)\<rparr>\<rparr>"

lemma send_ack:
  "TCPSender_send_empty_segment (syn_acked (fresh_sender cfg random) win) =
   (syn_acked (fresh_sender cfg random) win)\<lparr>snd_segments_out := [ack_segment (fresh_sender cfg random)]\<rparr>"
  by (simp add: TCPSender_send_empty_segment_def ack_segment_def TCPSender_next_seqno_def) (simp add: syn_acked_def)

lemma stamped_simps [simp]:
  "bare (stamp_ack a w seg) \<longleftrightarrow> bare seg" "bare (syn_segment s)" "bare (ack_segment s)"
  "th_syn (seg_header (stamp_ack a w seg)) = th_syn (seg_header seg)" "th_syn (seg_header (syn_segment s))"
  "\<not> th_syn (seg_header (ack_segment s))" "\<not> th_ack (seg_header (syn_segment s))"
  "th_seqno (seg_header (stamp_ack a w seg)) = th_seqno (seg_header seg)"
  "th_seqno (seg_header (syn_segment s)) = snd_isn s" "th_seqno (seg_header (ack_segment s)) = wrap 1 (snd_isn s)"
  "th_ack (seg_header (stamp_ack (Some k) w seg))" "th_ackno (seg_header (stamp_ack (Some k) w seg)) = k"
  by (simp_all add: bare_def stamp_ack_def syn_segment_def ack_segment_def TCPSegment_default_def TCPHeader_default_def
    Buffer_str_def Buffer_empty_def split: option.split)

lemma handshake_syn_ack:
  assumes cap: "cap = cfg_recv_capacity cfg" "0 < cap" "cap < 2 ^ 63" and seg: "bare seg"
    and f: "th_syn (seg_header seg)" "th_ack (seg_header seg)" "th_seqno (seg_header seg) = isn"
      "th_ackno (seg_header seg) = wrap 1 (snd_isn (fresh_sender cfg random))"
  shows "TCPConnection_segment_received seg (handshake_conn cfg random (TCPReceiver_init cap) (syn_sent (fresh_sender cfg random)) []) =
    Some (handshake_conn cfg random (rcv_open isn (TCPReceiver_init cap)) (syn_acked (fresh_sender cfg random) (th_win (seg_header seg)))
     [stamp_ack (Some (wrap 1 isn)) cap (ack_segment (fresh_sender cfg random))])"
proof -
  have r: "TCPReceiver_segment_received seg (TCPReceiver_init cap) = Some (rcv_open isn (TCPReceiver_init cap))"
    using f seg cap by (intro receive_nothing [where a = 0]) (simp_all add: wrap_0 bare_def)
  have "needs_reply seg (rcv_open isn (TCPReceiver_init cap)) = Some True"
    using f seg by (simp add: needs_reply_def TCPSegment_length_in_sequence_space_def add64_def bare_def)
  then show ?thesis
    using f seg r by (simp add: bare_def TCPConnection_segment_received_def Let_def open_answers [OF cap(2,3)] fill_acked
      ack_syn [simplified] handshake_try_clean handshake_enqueue send_ack)
qed

lemma handshake_ack:
  assumes cap: "cap = cfg_recv_capacity cfg" "0 < cap" "cap < 2 ^ 63" and seg: "bare seg"
    and f: "\<not> th_syn (seg_header seg)" "th_ack (seg_header seg)" "th_seqno (seg_header seg) = wrap 1 isn"
      "th_ackno (seg_header seg) = wrap 1 (snd_isn (fresh_sender cfg random))"
  shows "TCPConnection_segment_received seg
      (handshake_conn cfg random (rcv_open isn (TCPReceiver_init cap)) (syn_sent (fresh_sender cfg random)) []) =
    Some (handshake_conn cfg random (rcv_open isn (TCPReceiver_init cap)) (syn_acked (fresh_sender cfg random) (th_win (seg_header seg))) [])"
proof -
  have ne: "rcv_open isn (TCPReceiver_init cap) \<noteq> TCPReceiver_init cap" by (simp add: rcv_open_def TCPReceiver_init_def)
  have r: "TCPReceiver_segment_received seg (rcv_open isn (TCPReceiver_init cap)) = Some (rcv_open isn (TCPReceiver_init cap))"
    using f seg cap ne by (intro receive_nothing [where a = 1]) (simp_all add: bare_def)
  have "wrap 1 isn \<noteq> wi_minus (wrap 1 isn) 1" by (cases isn) (simp add: wrap_def wi_plus_def wi_minus_def)
  then have "needs_reply seg (rcv_open isn (TCPReceiver_init cap)) = Some False"
    using f seg by (simp add: needs_reply_def TCPSegment_length_in_sequence_space_def add64_def bare_def open_answers [OF cap(2,3)])
  then show ?thesis
    using f seg r by (simp add: bare_def TCPConnection_segment_received_def Let_def open_answers [OF cap(2,3)] fill_acked
      ack_syn [simplified] handshake_try_clean handshake_enqueue)
qed

section \<open>The handshake\<close>

definition handshake_events :: "net_event list" where
  "handshake_events = [N_connect Client, N_transmit Client, N_deliver Server 0, N_transmit Server, N_deliver Client 0,
     N_transmit Client, N_deliver Server 1]"

text \<open>The states of both endpoints after the first \<open>n\<close> events.\<close>

definition handshake_states :: "(side \<Rightarrow> TCPConfig) \<Rightarrow> (side \<Rightarrow> u32) \<Rightarrow> nat \<Rightarrow> (TCPState \<times> TCPState) option" where
  "handshake_states cfg random n = map_option (\<lambda>x. (TCPConnection_state (nw_conn x Client), TCPConnection_state (nw_conn x Server)))
     (run net_call (net_init cfg random) (take n handshake_events))"

lemma fresh_simps [simp]:
  "tc_active (TCPConnection_init cfg random)"
  "TCPConnection_state (TCPConnection_init cfg random) = TCPState_of_State LISTEN"
  unfolding handshake_conn_init by (simp_all add: TCPConnection_state_def TCPState_of_endpoints listen_answers del: TCPState_of_State.simps)

lemma handshake_conn_state:
  "TCPConnection_state (handshake_conn cfg random r s segs) = TCPState_of_State x \<longleftrightarrow>
   endpoint_states x = (TCPSender_state s, TCPReceiver_state r, True, True)"
  by (simp add: TCPConnection_state_def TCPState_of_endpoints del: TCPState_of_State.simps)

text \<open>C7. The three-way handshake: for all initial sequence numbers and capacities, when nothing is
  lost, a connecting client passes from LISTEN over SYN_SENT to ESTABLISHED and the server from LISTEN
  over SYN_RCVD to ESTABLISHED, in the order of the protocol.\<close>

theorem handshake_establishes:
  assumes "capacities_ok cfg"
  shows "map (handshake_states cfg random) [0, 1, 2, 3, 4, 5, 6, 7] = map (\<lambda>(c, s). Some (TCPState_of_State c, TCPState_of_State s))
    [(LISTEN, LISTEN), (SYN_SENT, LISTEN), (SYN_SENT, LISTEN), (SYN_SENT, SYN_RCVD), (SYN_SENT, SYN_RCVD),
     (ESTABLISHED, SYN_RCVD), (ESTABLISHED, SYN_RCVD), (ESTABLISHED, ESTABLISHED)]"
proof -
  have c: "0 < cfg_recv_capacity (cfg p)" "cfg_recv_capacity (cfg p) < 2 ^ 63" for p using assms by (auto simp: capacities_ok_def)
  note o = open_answers(3) [OF c]
  note steps = handshake_connect handshake_syn [OF refl c] handshake_syn_ack [OF refl c, simplified] handshake_ack [OF refl c, simplified]
  show ?thesis
    by (simp add: handshake_states_def handshake_events_def net_init_def steps o listen_answers handshake_conn_state
      del: TCPState_of_State.simps)
qed

theorem handshake_establishes_witness:
  "map (handshake_states example_configs (\<lambda>_. 0)) [0, 1, 2, 3, 4, 5, 6, 7] = map (\<lambda>(c, s). Some (TCPState_of_State c, TCPState_of_State s))
    [(LISTEN, LISTEN), (SYN_SENT, LISTEN), (SYN_SENT, LISTEN), (SYN_SENT, SYN_RCVD), (SYN_SENT, SYN_RCVD),
     (ESTABLISHED, SYN_RCVD), (ESTABLISHED, SYN_RCVD), (ESTABLISHED, ESTABLISHED)]"
  by (rule handshake_establishes [OF example_capacities])

end
