(* ===== verification/Sponge_Socket.thy ===== *)
theory Sponge_Socket
  imports Datagram_Adapters Stream_Copy Segment_Bounds TCP_Handshake
begin

text \<open>
  TCPSpongeSocket (libsponge/tcp\_helpers/tcp\_sponge\_socket.hh, tcp\_sponge\_socket.cc): a TCPConnection
  run by an EventLoop of four rules between a datagram adapter and a stream socket to the owner.

  The state of the object is a record. What the operating system answers in one round of the loop is
  part of it, and so are, as a record of the past, the segments and datagrams sent and the bytes that
  came from and went to the owner. The template parameter is given by the operations of the adapter.
  The event loop is not part of the record; its rules are passed along. A loop runs for the rounds
  whose answers it is given.
\<close>

section \<open>State\<close>

text \<open>The answers in one round: \<open>sy_read pos\<close> reads from the stream socket behind the first \<open>pos\<close> bytes, \<open>sy_send
  k\<close> sends the datagrams of the segment number \<open>k\<close>. The flag \<open>_abort\<close> is set by the owner.\<close>

record system_calls =
  sy_poll :: poll
  sy_recv :: receive_call
  sy_send :: "nat \<Rightarrow> write_call"
  sy_read :: "nat \<Rightarrow> u64 \<Rightarrow> (int \<times> int) \<times> bytes"
  sy_write :: write_call
  sy_shutdown :: "int \<times> int"
  sy_time :: u64
  sy_abort :: bool

record 'a TCPSpongeSocket =
  ss_owner :: FDWrapper
  ss_thread_data :: FDWrapper
  ss_datagram_adapter :: 'a
  ss_tcp :: "TCPConnection option"
  ss_inbound_shutdown :: bool
  ss_outbound_shutdown :: bool
  ss_fully_acked :: bool
  ss_base_time :: u64
  ss_calls :: system_calls
  ss_wire :: "TCPSegment list"
  ss_datagrams :: "bytes list"
  ss_from_owner :: bytes
  ss_to_owner :: bytes
  ss_ended_cleanly :: bool

definition TCP_TICK_MS :: int where
  "TCP_TICK_MS = 10"

text \<open>The constructor from a pair of sockets and an adapter; the second socket is made non-blocking.\<close>

definition TCPSpongeSocket_init ::
  "int \<times> int \<Rightarrow> (int \<Rightarrow> int \<times> int) \<Rightarrow> FDWrapper \<times> FDWrapper \<Rightarrow> 'a \<Rightarrow> system_calls \<Rightarrow> 'a TCPSpongeSocket option" where
  "TCPSpongeSocket_init getfl setfl data_socket_pair datagram_interface calls = do {
     _ \<leftarrow> FileDescriptor_set_blocking getfl setfl False;
     Some \<lparr>ss_owner = fst data_socket_pair, ss_thread_data = snd data_socket_pair, ss_datagram_adapter = datagram_interface,
       ss_tcp = None, ss_inbound_shutdown = False, ss_outbound_shutdown = False, ss_fully_acked = False, ss_base_time = 0,
       ss_calls = calls, ss_wire = [], ss_datagrams = [], ss_from_owner = [], ss_to_owner = [], ss_ended_cleanly = False\<rparr>
   }"

definition socket_pair_helper :: "(int \<times> int) \<times> (int \<times> int) \<Rightarrow> (FDWrapper \<times> FDWrapper) option" where
  "socket_pair_helper socketpair = do {
     let ((return_value, errno), (fd0, fd1)) = socketpair;
     _ \<leftarrow> SystemCall return_value errno 0;
     a \<leftarrow> FDWrapper_init fd0;
     b \<leftarrow> FDWrapper_init fd1;
     Some (a, b)
   }"

section \<open>The rules\<close>

text \<open>The name of the peer, for the debugging output.\<close>

definition destination_name :: "resolver \<Rightarrow> 'a adapter_ops \<Rightarrow> 'a TCPSpongeSocket \<Rightarrow> string option" where
  "destination_name rs ops s = Address_to_string rs (fc_destination (ao_config ops (ss_datagram_adapter s)))"

text \<open>Rule 1 reads a datagram and gives the segment in it, if any, to the connection.\<close>

definition segment_rule :: "resolver \<Rightarrow> 'a adapter_ops \<Rightarrow> 'a TCPSpongeSocket Rule" where
  "segment_rule rs ops = \<lparr>ru_fd = (\<lambda>s. ao_fd ops (ss_datagram_adapter s)), ru_direction = In,
     ru_callback = (\<lambda>s. do {
       (seg, adapter) \<leftarrow> ao_read ops (sy_recv (ss_calls s)) (sy_send (ss_calls s) (length (ss_wire s))) (ss_datagram_adapter s);
       let s = s\<lparr>ss_datagram_adapter := adapter\<rparr>;
       tcp \<leftarrow> ss_tcp s;
       tcp \<leftarrow> (case seg of None \<Rightarrow> Some tcp | Some seg \<Rightarrow> TCPConnection_segment_received seg tcp);
       let s = s\<lparr>ss_tcp := Some tcp\<rparr>;
       if fd_eof (ss_thread_data s) \<and> TCPConnection_bytes_in_flight tcp = 0 \<and> \<not> ss_fully_acked s then do {
         _ \<leftarrow> destination_name rs ops s;
         Some (s\<lparr>ss_fully_acked := True\<rparr>)
       } else Some s
     }),
     ru_interest = (\<lambda>s. case ss_tcp s of None \<Rightarrow> False | Some tcp \<Rightarrow> tc_active tcp),
     ru_cancel = (\<lambda>s. Some s)\<rparr>"

text \<open>Rule 2 reads what the owner wrote and writes it to the outbound stream.\<close>

definition end_outbound :: "'a TCPSpongeSocket \<Rightarrow> 'a TCPSpongeSocket option" where
  "end_outbound s = do {
     tcp \<leftarrow> ss_tcp s;
     tcp \<leftarrow> TCPConnection_end_input_stream tcp;
     Some (s\<lparr>ss_tcp := Some tcp, ss_outbound_shutdown := True\<rparr>)
   }"

definition outbound_rule :: "resolver \<Rightarrow> 'a adapter_ops \<Rightarrow> 'a TCPSpongeSocket Rule" where
  "outbound_rule rs ops = \<lparr>ru_fd = ss_thread_data, ru_direction = In,
     ru_callback = (\<lambda>s. do {
       tcp \<leftarrow> ss_tcp s;
       (data, fd) \<leftarrow> FileDescriptor_read (sy_read (ss_calls s) (length (ss_from_owner s)))
         (TCPConnection_remaining_outbound_capacity tcp) (ss_thread_data s);
       (amount_written, tcp) \<leftarrow> TCPConnection_write data tcp;
       if amount_written \<noteq> length data then None
       else do {
         let s = s\<lparr>ss_thread_data := fd, ss_tcp := Some tcp, ss_from_owner := ss_from_owner s @ data\<rparr>;
         if fd_eof fd then do {
           s \<leftarrow> end_outbound s;
           _ \<leftarrow> destination_name rs ops s;
           Some s
         } else Some s
       }
     }),
     ru_interest = (\<lambda>s. case ss_tcp s of None \<Rightarrow> False
       | Some tcp \<Rightarrow> tc_active tcp \<and> \<not> ss_outbound_shutdown s \<and> TCPConnection_remaining_outbound_capacity tcp > 0),
     ru_cancel = end_outbound\<rparr>"

text \<open>Rule 3 writes the inbound stream to the owner and shuts the stream socket down at its end.\<close>

definition with_inbound :: "ByteStream \<Rightarrow> TCPConnection \<Rightarrow> TCPConnection" where
  "with_inbound inbound tcp = tcp\<lparr>tc_receiver := (tc_receiver tcp)\<lparr>rcv_reassembler :=
     (rcv_reassembler (tc_receiver tcp))\<lparr>sr_output := inbound\<rparr>\<rparr>\<rparr>"

definition inbound_rule :: "resolver \<Rightarrow> 'a adapter_ops \<Rightarrow> 'a TCPSpongeSocket Rule" where
  "inbound_rule rs ops = \<lparr>ru_fd = ss_thread_data, ru_direction = Out,
     ru_callback = (\<lambda>s. do {
       tcp \<leftarrow> ss_tcp s;
       (written, inbound, fd) \<leftarrow> stream_to_device (sy_write (ss_calls s)) (TCPConnection_inbound_stream tcp) (ss_thread_data s);
       let s = s\<lparr>ss_thread_data := fd, ss_tcp := Some (with_inbound inbound tcp), ss_to_owner := ss_to_owner s @ written\<rparr>;
       if ByteStream_eof inbound \<or> bs_error inbound then do {
         fd \<leftarrow> Socket_shutdown (sy_shutdown (ss_calls s)) SHUT_WR fd;
         _ \<leftarrow> destination_name rs ops s;
         Some (s\<lparr>ss_thread_data := fd, ss_inbound_shutdown := True, ss_ended_cleanly := ss_ended_cleanly s \<or> \<not> bs_error inbound\<rparr>)
       } else Some s
     }),
     ru_interest = (\<lambda>s. case ss_tcp s of None \<Rightarrow> False
       | Some tcp \<Rightarrow> (let inbound = TCPConnection_inbound_stream tcp in \<not> ByteStream_buffer_empty inbound \<or>
           (ByteStream_eof inbound \<or> bs_error inbound) \<and> \<not> ss_inbound_shutdown s)),
     ru_cancel = (\<lambda>s. Some s)\<rparr>"

text \<open>Rule 4 sends the queue of the connection as datagrams.\<close>

fun send_segments :: "'a adapter_ops \<Rightarrow> TCPSegment list \<Rightarrow> 'a TCPSpongeSocket \<Rightarrow> 'a TCPSpongeSocket option" where
  "send_segments ops [] s = Some s"
| "send_segments ops (seg # segs) s = do {
     (datagrams, adapter) \<leftarrow> ao_write ops (sy_send (ss_calls s) (length (ss_wire s))) seg (ss_datagram_adapter s);
     tcp \<leftarrow> ss_tcp s;
     send_segments ops segs (s\<lparr>ss_datagram_adapter := adapter, ss_tcp := Some (tcp\<lparr>tc_segments_out := segs\<rparr>),
       ss_wire := ss_wire s @ [seg], ss_datagrams := ss_datagrams s @ datagrams\<rparr>)
   }"

definition send_rule :: "'a adapter_ops \<Rightarrow> 'a TCPSpongeSocket Rule" where
  "send_rule ops = \<lparr>ru_fd = (\<lambda>s. ao_fd ops (ss_datagram_adapter s)), ru_direction = Out,
     ru_callback = (\<lambda>s. do { tcp \<leftarrow> ss_tcp s; send_segments ops (tc_segments_out tcp) s }),
     ru_interest = (\<lambda>s. case ss_tcp s of None \<Rightarrow> False | Some tcp \<Rightarrow> tc_segments_out tcp \<noteq> []),
     ru_cancel = (\<lambda>s. Some s)\<rparr>"

definition add_tcp_rules :: "resolver \<Rightarrow> 'a adapter_ops \<Rightarrow> 'a TCPSpongeSocket Rule list \<Rightarrow> 'a TCPSpongeSocket Rule list" where
  "add_tcp_rules rs ops rules = EventLoop_add_rule (send_rule ops) (EventLoop_add_rule (inbound_rule rs ops)
     (EventLoop_add_rule (outbound_rule rs ops) (EventLoop_add_rule (segment_rule rs ops) rules)))"

definition TCPSpongeSocket_initialize_TCP ::
  "resolver \<Rightarrow> 'a adapter_ops \<Rightarrow> TCPConfig \<Rightarrow> u32 \<Rightarrow> 'a TCPSpongeSocket Rule list \<Rightarrow> 'a TCPSpongeSocket \<Rightarrow>
    'a TCPSpongeSocket Rule list \<times> 'a TCPSpongeSocket" where
  "TCPSpongeSocket_initialize_TCP rs ops config random rules s =
     (add_tcp_rules rs ops rules, s\<lparr>ss_tcp := Some (TCPConnection_init config random)\<rparr>)"

section \<open>The loop\<close>

text \<open>One round, after the condition was tested; the first component of the result tells whether the loop
  ends with it.\<close>

definition tcp_round ::
  "'a adapter_ops \<Rightarrow> 'a TCPSpongeSocket Rule list \<Rightarrow> 'a TCPSpongeSocket \<Rightarrow> (bool \<times> 'a TCPSpongeSocket Rule list \<times> 'a TCPSpongeSocket) option" where
  "tcp_round ops rules s = do {
     (ret, rules, s) \<leftarrow> EventLoop_wait_next_event (sy_poll (ss_calls s)) TCP_TICK_MS rules s;
     if ret = Exit \<or> sy_abort (ss_calls s) then Some (True, rules, s)
     else do {
       tcp \<leftarrow> ss_tcp s;
       if tc_active tcp then do {
         let next_time = sy_time (ss_calls s);
         let ms_since_last_tick = sub64 next_time (ss_base_time s);
         tcp \<leftarrow> TCPConnection_tick ms_since_last_tick tcp;
         (datagrams, adapter) \<leftarrow> ao_tick ops (sy_send (ss_calls s) (length (ss_wire s))) ms_since_last_tick (ss_datagram_adapter s);
         Some (False, rules, s\<lparr>ss_tcp := Some tcp, ss_datagram_adapter := adapter, ss_datagrams := ss_datagrams s @ datagrams,
           ss_base_time := next_time\<rparr>)
       } else Some (False, rules, s)
     }
   }"

text \<open>The loop over the answers of the rounds to come; what is left of them is returned.\<close>

fun TCPSpongeSocket_tcp_loop ::
  "'a adapter_ops \<Rightarrow> ('a TCPSpongeSocket \<Rightarrow> bool option) \<Rightarrow> system_calls list \<Rightarrow> 'a TCPSpongeSocket Rule list \<Rightarrow> 'a TCPSpongeSocket \<Rightarrow>
    (bool \<times> system_calls list \<times> 'a TCPSpongeSocket Rule list \<times> 'a TCPSpongeSocket) option" where
  "TCPSpongeSocket_tcp_loop ops condition [] rules s = Some (False, [], rules, s)"
| "TCPSpongeSocket_tcp_loop ops condition (calls # rounds) rules s = do {
     go \<leftarrow> condition s;
     if \<not> go then Some (True, calls # rounds, rules, s)
     else do {
       (ended, rules, s) \<leftarrow> tcp_round ops rules (s\<lparr>ss_calls := calls\<rparr>);
       if ended then Some (True, rounds, rules, s) else TCPSpongeSocket_tcp_loop ops condition rounds rules s
     }
   }"

section \<open>Connecting, accepting and the main function of the thread\<close>

definition in_state :: "State list \<Rightarrow> 'a TCPSpongeSocket \<Rightarrow> bool option" where
  "in_state states s = do {
     tcp \<leftarrow> ss_tcp s;
     Some (\<exists>st \<in> set states. TCPState_eq (TCPConnection_state tcp) (TCPState_of_State st))
   }"

text \<open>\<open>connect\<close> and \<open>listen_and_accept\<close> up to the loop.\<close>

definition connect_start ::
  "resolver \<Rightarrow> 'a adapter_ops \<Rightarrow> TCPConfig \<Rightarrow> FdAdapterConfig \<Rightarrow> u32 \<Rightarrow> 'a TCPSpongeSocket Rule list \<Rightarrow> 'a TCPSpongeSocket \<Rightarrow>
    ('a TCPSpongeSocket Rule list \<times> 'a TCPSpongeSocket) option" where
  "connect_start rs ops c_tcp c_ad random rules s =
     (if ss_tcp s \<noteq> None then None
      else do {
        let (rules, s) = TCPSpongeSocket_initialize_TCP rs ops c_tcp random rules s;
        let s = s\<lparr>ss_datagram_adapter := ao_configure ops c_ad (ss_datagram_adapter s)\<rparr>;
        _ \<leftarrow> Address_to_string rs (fc_destination c_ad);
        tcp \<leftarrow> ss_tcp s;
        tcp \<leftarrow> TCPConnection_connect tcp;
        if TCPState_ne (TCPConnection_state tcp) (TCPState_of_State SYN_SENT) then None
        else Some (rules, s\<lparr>ss_tcp := Some tcp\<rparr>)
      })"

definition listen_start ::
  "resolver \<Rightarrow> 'a adapter_ops \<Rightarrow> TCPConfig \<Rightarrow> FdAdapterConfig \<Rightarrow> u32 \<Rightarrow> 'a TCPSpongeSocket Rule list \<Rightarrow> 'a TCPSpongeSocket \<Rightarrow>
    ('a TCPSpongeSocket Rule list \<times> 'a TCPSpongeSocket) option" where
  "listen_start rs ops c_tcp c_ad random rules s =
     (if ss_tcp s \<noteq> None then None
      else (let (rules, s) = TCPSpongeSocket_initialize_TCP rs ops c_tcp random rules s in
        Some (rules, s\<lparr>ss_datagram_adapter := ao_set_listening ops True (ao_configure ops c_ad (ss_datagram_adapter s))\<rparr>)))"

definition connecting :: "State list" where
  "connecting = [SYN_SENT]"

definition accepting :: "State list" where
  "accepting = [LISTEN, SYN_RCVD, SYN_SENT]"

definition TCPSpongeSocket_connect ::
  "resolver \<Rightarrow> 'a adapter_ops \<Rightarrow> TCPConfig \<Rightarrow> FdAdapterConfig \<Rightarrow> u32 \<Rightarrow> u64 \<Rightarrow> system_calls list \<Rightarrow> 'a TCPSpongeSocket Rule list \<Rightarrow>
    'a TCPSpongeSocket \<Rightarrow> (bool \<times> system_calls list \<times> 'a TCPSpongeSocket Rule list \<times> 'a TCPSpongeSocket) option" where
  "TCPSpongeSocket_connect rs ops c_tcp c_ad random time rounds rules s = do {
     (rules, s) \<leftarrow> connect_start rs ops c_tcp c_ad random rules s;
     (ended, rounds, rules, s) \<leftarrow> TCPSpongeSocket_tcp_loop ops (in_state connecting) rounds rules (s\<lparr>ss_base_time := time\<rparr>);
     _ \<leftarrow> (if ended then Address_to_string rs (fc_destination c_ad) else Some []);
     Some (ended, rounds, rules, s)
   }"

definition TCPSpongeSocket_listen_and_accept ::
  "resolver \<Rightarrow> 'a adapter_ops \<Rightarrow> TCPConfig \<Rightarrow> FdAdapterConfig \<Rightarrow> u32 \<Rightarrow> u64 \<Rightarrow> system_calls list \<Rightarrow> 'a TCPSpongeSocket Rule list \<Rightarrow>
    'a TCPSpongeSocket \<Rightarrow> (bool \<times> system_calls list \<times> 'a TCPSpongeSocket Rule list \<times> 'a TCPSpongeSocket) option" where
  "TCPSpongeSocket_listen_and_accept rs ops c_tcp c_ad random time rounds rules s = do {
     (rules, s) \<leftarrow> listen_start rs ops c_tcp c_ad random rules s;
     (ended, rounds, rules, s) \<leftarrow> TCPSpongeSocket_tcp_loop ops (in_state accepting) rounds rules (s\<lparr>ss_base_time := time\<rparr>);
     _ \<leftarrow> (if ended then destination_name rs ops s else Some []);
     Some (ended, rounds, rules, s)
   }"

text \<open>The end of the main function. The connection is destroyed with the segments in its queue.\<close>

definition tcp_finish :: "'a TCPSpongeSocket \<Rightarrow> 'a TCPSpongeSocket option" where
  "tcp_finish s = do {
     owner \<leftarrow> Socket_shutdown (sy_shutdown (ss_calls s)) SHUT_RDWR (ss_owner s);
     _ \<leftarrow> ss_tcp s;
     Some (s\<lparr>ss_owner := owner, ss_tcp := None\<rparr>)
   }"

definition TCPSpongeSocket_tcp_main ::
  "'a adapter_ops \<Rightarrow> u64 \<Rightarrow> system_calls list \<Rightarrow> 'a TCPSpongeSocket Rule list \<Rightarrow> 'a TCPSpongeSocket \<Rightarrow>
    (bool \<times> system_calls list \<times> 'a TCPSpongeSocket Rule list \<times> 'a TCPSpongeSocket) option" where
  "TCPSpongeSocket_tcp_main ops time rounds rules s =
     (if ss_tcp s = None then None
      else do {
        (ended, rounds, rules, s) \<leftarrow> TCPSpongeSocket_tcp_loop ops (\<lambda>_. Some True) rounds rules (s\<lparr>ss_base_time := time\<rparr>);
        if ended then do { s \<leftarrow> tcp_finish s; Some (True, rounds, rules, s) } else Some (False, rounds, rules, s)
      })"

text \<open>The owner shuts its end down and waits for the thread.\<close>

definition TCPSpongeSocket_wait_until_closed :: "int \<times> int \<Rightarrow> 'a TCPSpongeSocket \<Rightarrow> 'a TCPSpongeSocket option" where
  "TCPSpongeSocket_wait_until_closed shutdown_result s = do {
     owner \<leftarrow> Socket_shutdown shutdown_result SHUT_RDWR (ss_owner s);
     Some (s\<lparr>ss_owner := owner\<rparr>)
   }"

end
