(* ===== verification/Sponge_Network.thy ===== *)
theory Sponge_Network
  imports Sponge_Socket
begin

text \<open>
  One TCPSpongeSocket against the network of TCP\_Network: each of the four rules of its thread, its start and its end are
  steps of the connection in that network, whatever datagrams arrive and whatever the system answers. With the
  contract of the adapter, the rules meet the contract of the event loop, so that a round does not throw.
\<close>

section \<open>Facts about the parts\<close>

text \<open>What a connection does with a segment depends on its contents only.\<close>

lemma segment_received_same:
  assumes "same_contents seg' seg"
  shows "TCPConnection_segment_received seg' c = TCPConnection_segment_received seg c"
proof -
  have f: "th_syn (seg_header seg') = th_syn (seg_header seg)" "th_ack (seg_header seg') = th_ack (seg_header seg)"
    "th_rst (seg_header seg') = th_rst (seg_header seg)" "th_fin (seg_header seg') = th_fin (seg_header seg)"
    "th_seqno (seg_header seg') = th_seqno (seg_header seg)" "th_ackno (seg_header seg') = th_ackno (seg_header seg)"
    "th_win (seg_header seg') = th_win (seg_header seg)" "Buffer_str (seg_payload seg') = Buffer_str (seg_payload seg)"
    using assms by (simp_all add: same_contents_def TCPHeader_eq_def)
  have r: "TCPReceiver_segment_received seg' r = TCPReceiver_segment_received seg r" for r
    unfolding TCPReceiver_segment_received_def Buffer_copy_def f ..
  have "TCPSegment_length_in_sequence_space seg' = TCPSegment_length_in_sequence_space seg"
    by (simp add: TCPSegment_length_in_sequence_space_def f)
  then have n: "needs_reply seg' r = needs_reply seg r" for r unfolding needs_reply_def f by simp
  show ?thesis unfolding TCPConnection_segment_received_def Let_def f r n ..
qed

lemma enqueue_loop_active: "enqueue_loop segs c = Some d \<Longrightarrow> tc_active d = tc_active c"
  by (induction segs c rule: enqueue_loop.induct) (auto simp: Let_def bind_eq_Some_conv split: if_splits)

lemma write_active: "TCPConnection_write data c = Some (n, d) \<Longrightarrow> tc_active d = tc_active c"
  by (auto simp: TCPConnection_write_def TCPConnection_enqueue_segments_def bind_eq_Some_conv dest: enqueue_loop_active)

lemma end_input_active: "TCPConnection_end_input_stream c = Some d \<Longrightarrow> tc_active d = tc_active c"
  by (auto simp: TCPConnection_end_input_stream_def TCPConnection_enqueue_segments_def bind_eq_Some_conv dest: enqueue_loop_active)

lemma tame_fits: "tame seg \<Longrightarrow> fits_datagram seg"
  by (simp add: tame_def fits_datagram_def MAX_PAYLOAD_SIZE_def)

text \<open>The streams of a reachable network.\<close>

lemma reachable_streams:
  assumes "net_step\<^sup>*\<^sup>* (net_init cfg random) x" and "capacities_ok cfg" and "\<And>q. length (nw_written x q) + 2 < 2 ^ 31"
  shows "bs_inv (TCPConnection_inbound_stream (nw_conn x p))" and "0 < bs_capacity (TCPConnection_inbound_stream (nw_conn x p))"
    and "TCPConnection_write data (nw_conn x p) = Some (n, c) \<Longrightarrow>
      n = min (length data) (TCPConnection_remaining_outbound_capacity (nw_conn x p))"
    and "bs_input_ended (TCPConnection_inbound_stream (nw_conn x p)) \<Longrightarrow> bs_content (TCPConnection_inbound_stream (nw_conn x p)) = [] \<Longrightarrow>
      nw_ended x (peer p) \<and> nw_delivered x p = nw_written x (peer p)"
    and "prefix (nw_delivered x p) (nw_written x (peer p))"
proof -
  let ?S = "stream_of x (\<lambda>_. [])" and ?L = "\<lambda>p. length (nw_written x p)" and ?r = "tc_receiver (nw_conn x p)"
  have inv: "net_inv ?S ?L x" using assms by (rule net_reachable_inv)
  note link = net_invD(1) [OF inv, of p]
  have sr: "sr_inv (?S (peer p)) (?L (peer p)) (rcv_reassembler ?r)"
    using link by (simp add: net_linked_def linked_def dir_inv_def dir_link_def rcv_ok_def)
  show "bs_inv (TCPConnection_inbound_stream (nw_conn x p))" "0 < bs_capacity (TCPConnection_inbound_stream (nw_conn x p))"
    using sr_inv_bounds [OF sr] by (simp_all add: out_inv_def TCPConnection_inbound_stream_def TCPReceiver_stream_out_def)
  have "bs_inv (snd_stream (tc_sender (nw_conn x p)))"
    using link by (simp add: net_linked_def linked_def dir_inv_def dir_link_def snd_inv_def snd_stream_ok_def out_inv_def)
  then have "TCPConnection_remaining_outbound_capacity (nw_conn x p) = snd_room (tc_sender (nw_conn x p))"
    by (simp add: TCPConnection_remaining_outbound_capacity_def remaining_capacity_eq)
  then show "n = min (length data) (TCPConnection_remaining_outbound_capacity (nw_conn x p))"
    if "TCPConnection_write data (nw_conn x p) = Some (n, c)"
    using write_accepts [OF link [unfolded net_linked_def] that] by simp
  note pre = inbound_prefix [OF inv stream_of_written [symmetric] refl, of p]
  show "nw_ended x (peer p) \<and> nw_delivered x p = nw_written x (peer p)"
    if "bs_input_ended (TCPConnection_inbound_stream (nw_conn x p))" "bs_content (TCPConnection_inbound_stream (nw_conn x p)) = []"
    using pre(1) pre(3) [OF that(1)] that(2) by simp
  show "prefix (nw_delivered x p) (nw_written x (peer p))"
    using pre(1) by (metis prefixI prefix_order.trans take_is_prefix)
qed

section \<open>One round\<close>

text \<open>What the system calls of a round do when they behave as documented and do not fail: the bytes that come
  from the owner are fewer than \<open>2 ^ 31 - 2\<close> in total, and a datagram that is received was sent by the
  peer, or is foreign.\<close>

definition calls_ok :: "(bytes \<Rightarrow> bool) \<Rightarrow> (bytes \<times> bytes \<Rightarrow> bool) \<Rightarrow> bytes set \<Rightarrow> system_calls \<Rightarrow> bool" where
  "calls_ok source foreign sent c \<longleftrightarrow> poll_ok (sy_poll c) \<and> (\<forall>k. takes_datagrams (sy_send c k)) \<and> writev_ok (sy_write c) \<and>
     sy_shutdown c = (0, 0) \<and> (\<forall>pos. read_ok (sy_read c pos)) \<and>
     (\<forall>pos n. pos + 2 < 2 ^ 31 \<longrightarrow> int pos + fst (fst (sy_read c pos n)) + 2 < 2 ^ 31) \<and>
     (\<exists>d. gives_datagram (sy_recv c) d \<and> (foreign d \<or> fst d \<in> sent \<and> source (snd d)))"

text \<open>Every datagram holds one of the segments.\<close>

definition accounted :: "(bytes \<times> bytes \<Rightarrow> TCPSegment \<Rightarrow> bool) \<Rightarrow> (bytes \<Rightarrow> bool) \<Rightarrow> bytes set \<Rightarrow> TCPSegment set \<Rightarrow> bool" where
  "accounted carried source datagrams segments \<longleftrightarrow>
     (\<forall>d \<in> datagrams. \<forall>address. source address \<longrightarrow> (\<exists>seg \<in> segments. carried (d, address) seg))"

lemma accounted_Un:
  "accounted carried source A S \<Longrightarrow> accounted carried source B T \<Longrightarrow> accounted carried source (A \<union> B) (S \<union> T)"
  unfolding accounted_def by blast

text \<open>The network that a socket is an endpoint of, without its connection.\<close>

definition sock_matches ::
  "('a \<Rightarrow> bool) \<Rightarrow> (bytes \<times> bytes \<Rightarrow> TCPSegment \<Rightarrow> bool) \<Rightarrow> (bytes \<Rightarrow> bool) \<Rightarrow> side \<Rightarrow> 'a TCPSpongeSocket \<Rightarrow> network \<Rightarrow> bool" where
  "sock_matches ok carried source p s x \<longleftrightarrow> ok (ss_datagram_adapter s) \<and> nw_wire x p = ss_wire s \<and>
     nw_written x p = ss_from_owner s \<and> nw_ended x p = ss_outbound_shutdown s \<and> nw_delivered x p = ss_to_owner s \<and>
     accounted carried source (set (ss_datagrams s)) (set (ss_wire s)) \<and>
     (ss_ended_cleanly s \<longrightarrow> nw_ended x (peer p) \<and> nw_delivered x p = nw_written x (peer p))"

definition good_network :: "(side \<Rightarrow> TCPConfig) \<Rightarrow> (side \<Rightarrow> u32) \<Rightarrow> network \<Rightarrow> bool" where
  "good_network cfg random x \<longleftrightarrow> net_step\<^sup>*\<^sup>* (net_init cfg random) x \<and> capacities_ok cfg \<and> (\<forall>q. length (nw_written x q) + 2 < 2 ^ 31)"

text \<open>Steps of one endpoint.\<close>

definition moves :: "side \<Rightarrow> network \<Rightarrow> network \<Rightarrow> bool" where
  "moves p x y \<longleftrightarrow> net_step\<^sup>*\<^sup>* x y \<and> nw_conn y (peer p) = nw_conn x (peer p) \<and> nw_wire y (peer p) = nw_wire x (peer p) \<and>
     nw_written y (peer p) = nw_written x (peer p) \<and> nw_ended y (peer p) = nw_ended x (peer p) \<and>
     nw_delivered y (peer p) = nw_delivered x (peer p)"

definition round_inv ::
  "('a \<Rightarrow> bool) \<Rightarrow> (bytes \<times> bytes \<Rightarrow> TCPSegment \<Rightarrow> bool) \<Rightarrow> (bytes \<Rightarrow> bool) \<Rightarrow> (bytes \<times> bytes \<Rightarrow> bool) \<Rightarrow> (side \<Rightarrow> TCPConfig) \<Rightarrow>
    (side \<Rightarrow> u32) \<Rightarrow> side \<Rightarrow> network \<Rightarrow> bytes set \<Rightarrow> 'a TCPSpongeSocket \<Rightarrow> bool" where
  "round_inv ok carried source foreign cfg random p x0 sent s \<longleftrightarrow> (\<exists>x. good_network cfg random x \<and> moves p x0 x \<and>
     ss_tcp s = Some (nw_conn x p) \<and> sock_matches ok carried source p s x \<and> calls_ok source foreign sent (ss_calls s) \<and>
     accounted carried source sent (set (nw_wire x0 (peer p))))"

lemma moves_refl [simp]: "moves p x x"
  by (simp add: moves_def)

lemma moves_trans: "moves p x y \<Longrightarrow> moves p y z \<Longrightarrow> moves p x z"
  by (auto simp: moves_def)

lemma good_step:
  assumes "good_network cfg random x" and "net_step x y" and "moves p x y" and "length (nw_written y p) + 2 < 2 ^ 31"
  shows "good_network cfg random y"
proof -
  have "length (nw_written y q) + 2 < 2 ^ 31" for q
    using assms side_eq_peer [of q p] by (auto simp: good_network_def moves_def)
  then show ?thesis using assms(1,2) by (auto simp: good_network_def)
qed

lemma good_calls:
  assumes "good_network cfg random x"
  shows "usable (nw_conn x p) \<Longrightarrow> \<exists>c. TCPConnection_connect (nw_conn x p) = Some c"
    and "usable (nw_conn x p) \<Longrightarrow> \<exists>c. TCPConnection_tick ms (nw_conn x p) = Some c"
    and "usable (nw_conn x p) \<Longrightarrow> seg \<in> set (nw_wire x (peer p)) \<Longrightarrow> \<exists>c. TCPConnection_segment_received seg (nw_conn x p) = Some c"
    and "\<not> nw_ended x p \<Longrightarrow> length (nw_written x p) + length data + 2 < 2 ^ 31 \<Longrightarrow> \<exists>r. TCPConnection_write data (nw_conn x p) = Some r"
    and "\<exists>c. TCPConnection_end_input_stream (nw_conn x p) = Some c"
proof -
  have r: "net_step\<^sup>*\<^sup>* (net_init cfg random) x" "capacities_ok cfg" "\<And>q. length (nw_written x q) + 2 < 2 ^ 31"
    using assms by (simp_all add: good_network_def)
  note c = calls_return [OF r]
  show "usable (nw_conn x p) \<Longrightarrow> \<exists>c. TCPConnection_connect (nw_conn x p) = Some c"
    "usable (nw_conn x p) \<Longrightarrow> \<exists>c. TCPConnection_tick ms (nw_conn x p) = Some c"
    "usable (nw_conn x p) \<Longrightarrow> seg \<in> set (nw_wire x (peer p)) \<Longrightarrow> \<exists>c. TCPConnection_segment_received seg (nw_conn x p) = Some c"
    "\<not> nw_ended x p \<Longrightarrow> length (nw_written x p) + length data + 2 < 2 ^ 31 \<Longrightarrow> \<exists>r. TCPConnection_write data (nw_conn x p) = Some r"
    "\<exists>c. TCPConnection_end_input_stream (nw_conn x p) = Some c"
    using c(1-5) by (simp_all only: not_None_eq)
qed

lemma good_streams:
  assumes "good_network cfg random x"
  shows "bs_inv (TCPConnection_inbound_stream (nw_conn x p))" and "0 < bs_capacity (TCPConnection_inbound_stream (nw_conn x p))"
    and "TCPConnection_write data (nw_conn x p) = Some (n, c) \<Longrightarrow>
      n = min (length data) (TCPConnection_remaining_outbound_capacity (nw_conn x p))"
    and "ByteStream_eof (TCPConnection_inbound_stream (nw_conn x p)) \<Longrightarrow>
      nw_ended x (peer p) \<and> nw_delivered x p = nw_written x (peer p)"
    and "prefix (nw_delivered x p) (nw_written x (peer p))"
proof -
  have r: "net_step\<^sup>*\<^sup>* (net_init cfg random) x" "capacities_ok cfg" "\<And>q. length (nw_written x q) + 2 < 2 ^ 31"
    using assms by (simp_all add: good_network_def)
  note s = reachable_streams [OF r]
  show "bs_inv (TCPConnection_inbound_stream (nw_conn x p))" "0 < bs_capacity (TCPConnection_inbound_stream (nw_conn x p))"
    "prefix (nw_delivered x p) (nw_written x (peer p))" by (rule s)+
  show "n = min (length data) (TCPConnection_remaining_outbound_capacity (nw_conn x p))"
    if "TCPConnection_write data (nw_conn x p) = Some (n, c)" using that by (rule s)
  show "nw_ended x (peer p) \<and> nw_delivered x p = nw_written x (peer p)"
    if "ByteStream_eof (TCPConnection_inbound_stream (nw_conn x p))"
    using that s(4) [of p] by (simp add: ByteStream_eof_def ByteStream_buffer_empty_def flip: length_bs_content)
qed

lemma good_tame:
  assumes "good_network cfg random x"
  shows "\<forall>seg \<in> set (tc_segments_out (nw_conn x p)). fits_datagram seg"
  using reachable_tame [of cfg random x p] assms tame_fits by (auto simp: good_network_def conn_tame_def)

lemma calls_okD:
  assumes "calls_ok source foreign sent c"
  shows "poll_ok (sy_poll c)" "takes_datagrams (sy_send c k)" "writev_ok (sy_write c)" "sy_shutdown c = (0, 0)"
    "read_ok (sy_read c pos)" "pos + 2 < 2 ^ 31 \<Longrightarrow> int pos + fst (fst (sy_read c pos n)) + 2 < 2 ^ 31"
    "\<exists>d. gives_datagram (sy_recv c) d \<and> (foreign d \<or> fst d \<in> sent \<and> source (snd d))"
  using assms by (auto simp: calls_ok_def)

lemma sock_matchesD:
  assumes "sock_matches ok carried source p s x"
  shows "ok (ss_datagram_adapter s)" "nw_wire x p = ss_wire s" "nw_written x p = ss_from_owner s" "nw_ended x p = ss_outbound_shutdown s"
    "nw_delivered x p = ss_to_owner s" "accounted carried source (set (ss_datagrams s)) (set (ss_wire s))"
    "ss_ended_cleanly s \<Longrightarrow> nw_ended x (peer p) \<and> nw_delivered x p = nw_written x (peer p)"
  using assms by (auto simp: sock_matches_def)

context datagram_adapter
begin

abbreviation serves :: "(side \<Rightarrow> TCPConfig) \<Rightarrow> (side \<Rightarrow> u32) \<Rightarrow> side \<Rightarrow> network \<Rightarrow> bytes set \<Rightarrow> 'a TCPSpongeSocket \<Rightarrow> bool" where
  "serves \<equiv> round_inv ok carried source foreign"

lemma servesE:
  assumes "serves cfg random p x0 sent s"
  obtains x where "good_network cfg random x" and "moves p x0 x" and "ss_tcp s = Some (nw_conn x p)"
    and "sock_matches ok carried source p s x" and "calls_ok source foreign sent (ss_calls s)"
    and "accounted carried source sent (set (nw_wire x (peer p)))"
  using assms by (auto simp: round_inv_def moves_def)

lemma serves_step:
  assumes "serves cfg random p x0 sent s" and "good_network cfg random x" and "moves p x0 x" and "net_step\<^sup>*\<^sup>* x y" and "moves p x y"
    and "nw_written y p = nw_written x p \<or> length (nw_written y p) + 2 < 2 ^ 31" and "ss_tcp t = Some (nw_conn y p)" and "sock_matches ok carried source p t y"
    and "ss_calls t = ss_calls s"
  shows "serves cfg random p x0 sent t"
proof -
  have "length (nw_written y q) + 2 < 2 ^ 31" for q
    using assms(2,5,6) side_eq_peer [of q p] by (auto simp: good_network_def moves_def)
  then have "good_network cfg random y" using assms(2,4) by (auto simp: good_network_def)
  then show ?thesis using assms moves_trans [OF assms(3,5)] unfolding round_inv_def by auto
qed

text \<open>Rule 1.\<close>

lemma segment_serves:
  assumes inv: "serves cfg random p x0 sent s" and active: "ru_interest (segment_rule rs ops) s"
  obtains t where "ru_callback (segment_rule rs ops) s = Some t" and "serves cfg random p x0 sent t"
    and "Rule_service_count (segment_rule rs ops) t = Rule_service_count (segment_rule rs ops) s + 1"
    and "ss_outbound_shutdown t = ss_outbound_shutdown s"
proof -
  obtain x where x: "good_network cfg random x" "moves p x0 x" "ss_tcp s = Some (nw_conn x p)"
    "sock_matches ok carried source p s x" "calls_ok source foreign sent (ss_calls s)"
    "accounted carried source sent (set (nw_wire x (peer p)))" by (rule servesE [OF inv])
  note m = sock_matchesD [OF x(4)]
  have act: "usable (nw_conn x p)" using active x(3) by (simp add: segment_rule_def usable_def)
  obtain d where d: "gives_datagram (sy_recv (ss_calls s)) d" "foreign d \<or> (\<exists>seg \<in> set (nw_wire x (peer p)). carried d seg)"
    using calls_okD(7) [OF x(5)] x(6) unfolding accounted_def by (metis prod.collapse)
  obtain r a where r: "ao_read ops (sy_recv (ss_calls s)) (sy_send (ss_calls s) (length (ss_wire s))) (ss_datagram_adapter s) = Some (r, a)"
    "ok a" "fd_read_count (ao_fd ops a) = fd_read_count (ao_fd ops (ss_datagram_adapter s)) + 1"
    "r = None \<or> (\<exists>seg' seg. r = Some seg' \<and> seg \<in> set (nw_wire x (peer p)) \<and> same_contents seg' seg)"
    by (rule read_one_of [OF m(1) d(1) calls_okD(2) [OF x(5)] d(2)])
  obtain c where c: "(case r of None \<Rightarrow> Some (nw_conn x p) | Some seg \<Rightarrow> TCPConnection_segment_received seg (nw_conn x p)) = Some c"
    "net_step\<^sup>*\<^sup>* x (x\<lparr>nw_conn := (nw_conn x)(p := c)\<rparr>)"
  proof (cases r)
    case None
    then show ?thesis by (intro that [of "nw_conn x p"]) simp_all
  next
    case (Some seg')
    then obtain seg where seg: "seg \<in> set (nw_wire x (peer p))" "same_contents seg' seg" using r(4) by auto
    obtain c where "TCPConnection_segment_received seg (nw_conn x p) = Some c" using good_calls(3) [OF x(1) act seg(1)] by blast
    then show ?thesis using Some segment_received_same [OF seg(2)] net_deliver [OF act seg(1)] by (intro that [of c]) auto
  qed
  let ?y = "x\<lparr>nw_conn := (nw_conn x)(p := c)\<rparr>"
  obtain name where name: "Address_to_string rs (fc_destination (ao_config ops a)) = Some name" using destination [OF r(2)] by blast
  let ?s = "s\<lparr>ss_datagram_adapter := a, ss_tcp := Some c\<rparr>"
  let ?t = "if fd_eof (ss_thread_data s) \<and> TCPConnection_bytes_in_flight c = 0 \<and> \<not> ss_fully_acked s then ?s\<lparr>ss_fully_acked := True\<rparr> else ?s"
  have "ru_callback (segment_rule rs ops) s = Some ?t"
    using r(1) c(1) x(3) name by (simp add: segment_rule_def destination_name_def Let_def)
  moreover have "serves cfg random p x0 sent ?t"
    by (rule serves_step [OF inv x(1,2) c(2)]) (use c(2) r(2) m x(1) in \<open>auto simp: moves_def good_network_def sock_matches_def\<close>)
  ultimately show ?thesis using r(3) by (intro that [of ?t]) (simp_all add: Rule_service_count_def segment_rule_def)
qed

text \<open>Rule 2. Ending the outbound stream and writing to it leave the connection active.\<close>

lemma end_outbound_serves:
  assumes inv: "serves cfg random p x0 sent s"
  obtains t where "end_outbound s = Some t" and "serves cfg random p x0 sent t" and "ss_thread_data t = ss_thread_data s"
    and "ss_datagram_adapter t = ss_datagram_adapter s" and "ru_interest (segment_rule rs ops) t = ru_interest (segment_rule rs ops) s"
proof -
  obtain x where x: "good_network cfg random x" "moves p x0 x" "ss_tcp s = Some (nw_conn x p)"
    "sock_matches ok carried source p s x" by (rule servesE [OF inv])
  note m = sock_matchesD [OF x(4)]
  obtain c where c: "TCPConnection_end_input_stream (nw_conn x p) = Some c" using good_calls(5) [OF x(1)] by blast
  let ?t = "s\<lparr>ss_tcp := Some c, ss_outbound_shutdown := True\<rparr>"
  let ?y = "x\<lparr>nw_conn := (nw_conn x)(p := c), nw_ended := (nw_ended x)(p := True)\<rparr>"
  have y: "net_step\<^sup>*\<^sup>* x ?y" using net_end_input [OF c] by blast
  have "serves cfg random p x0 sent ?t"
    by (rule serves_step [OF inv x(1,2) y]) (use y m x(1) in \<open>auto simp: moves_def good_network_def sock_matches_def\<close>)
  then show ?thesis using c x(3) end_input_active [OF c]
    by (intro that [of ?t]) (simp_all add: end_outbound_def segment_rule_def)
qed

lemma outbound_serves:
  assumes inv: "serves cfg random p x0 sent s" and open_: "\<not> ss_outbound_shutdown s"
  obtains t where "ru_callback (outbound_rule rs ops) s = Some t" and "serves cfg random p x0 sent t"
    and "Rule_service_count (outbound_rule rs ops) t = Rule_service_count (outbound_rule rs ops) s + 1"
    and "ru_interest (segment_rule rs ops) t = ru_interest (segment_rule rs ops) s"
proof -
  obtain x where x: "good_network cfg random x" "moves p x0 x" "ss_tcp s = Some (nw_conn x p)"
    "sock_matches ok carried source p s x" "calls_ok source foreign sent (ss_calls s)" by (rule servesE [OF inv])
  note m = sock_matchesD [OF x(4)]
  let ?room = "TCPConnection_remaining_outbound_capacity (nw_conn x p)" and ?read = "sy_read (ss_calls s) (length (ss_from_owner s))"
  obtain data fd where d: "FileDescriptor_read ?read ?room (ss_thread_data s) = Some (data, fd)" "length data \<le> ?room"
    "\<exists>n. int (length data) = fst (fst (?read n))" "fd_read_count fd = fd_read_count (ss_thread_data s) + 1"
    by (rule FileDescriptor_read_returns [OF calls_okD(5) [OF x(5)], of "length (ss_from_owner s)" ?room "ss_thread_data s"])
      (auto simp: register_read_def)
  have written: "length (nw_written x p) + 2 < 2 ^ 31" using x(1) by (simp add: good_network_def)
  obtain j where "int (length data) = fst (fst (?read j))" using d(3) by blast
  then have short: "length (nw_written x p) + length data + 2 < 2 ^ 31"
    using calls_okD(6) [OF x(5), of "length (ss_from_owner s)" j] m(3) written by simp
  obtain n c where w: "TCPConnection_write data (nw_conn x p) = Some (n, c)"
    using good_calls(4) [OF x(1) _ short] open_ m(4) by auto
  have n: "n = length data" using good_streams(3) [OF x(1) w] d(2) by simp
  let ?t = "s\<lparr>ss_thread_data := fd, ss_tcp := Some c, ss_from_owner := ss_from_owner s @ data\<rparr>"
  let ?y = "x\<lparr>nw_conn := (nw_conn x)(p := c), nw_written := (nw_written x)(p := nw_written x p @ take n data)\<rparr>"
  have y: "net_step\<^sup>*\<^sup>* x ?y" using net_write [OF _ w] open_ m(4) by blast
  have t: "serves cfg random p x0 sent ?t"
    by (rule serves_step [OF inv x(1,2) y]) (use y m n short in \<open>auto simp: moves_def sock_matches_def\<close>)
  have act: "ru_interest (segment_rule rs ops) ?t = ru_interest (segment_rule rs ops) s"
    using x(3) write_active [OF w] by (simp add: segment_rule_def)
  obtain u where u: "end_outbound ?t = Some u" "serves cfg random p x0 sent u" "ss_thread_data u = fd"
    "ss_datagram_adapter u = ss_datagram_adapter s" "ru_interest (segment_rule rs ops) u = ru_interest (segment_rule rs ops) s"
    by (rule end_outbound_serves [OF t]) (use act in simp)
  obtain name where "Address_to_string rs (fc_destination (ao_config ops (ss_datagram_adapter s))) = Some name"
    using destination [OF m(1)] by blast
  then have "ru_callback (outbound_rule rs ops) s = Some (if fd_eof fd then u else ?t)"
    using x(3) d(1) w n u(1,4) by (simp add: outbound_rule_def destination_name_def Let_def)
  then show ?thesis using t u act d(4)
    by (intro that [of "if fd_eof fd then u else ?t"]) (simp_all add: Rule_service_count_def outbound_rule_def)
qed

text \<open>Rule 3.\<close>

lemma inbound_serves:
  assumes inv: "serves cfg random p x0 sent s"
  obtains t where "ru_callback (inbound_rule rs ops) s = Some t" and "serves cfg random p x0 sent t"
    and "Rule_service_count (inbound_rule rs ops) t \<noteq> Rule_service_count (inbound_rule rs ops) s"
    and "ru_interest (segment_rule rs ops) t = ru_interest (segment_rule rs ops) s" and "ss_outbound_shutdown t = ss_outbound_shutdown s"
proof -
  obtain x where x: "good_network cfg random x" "moves p x0 x" "ss_tcp s = Some (nw_conn x p)"
    "sock_matches ok carried source p s x" "calls_ok source foreign sent (ss_calls s)" by (rule servesE [OF inv])
  note m = sock_matchesD [OF x(4)]
  let ?in = "TCPConnection_inbound_stream (nw_conn x p)"
  obtain n data out where r: "stream_to_device (sy_write (ss_calls s)) ?in (ss_thread_data s) = Some (data, out, register_write (ss_thread_data s))"
    "ByteStream_read n ?in = Some (data, out)"
    by (rule stream_to_device_reads [OF calls_okD(3) [OF x(5)] good_streams(1,2) [OF x(1), of p]])
  let ?c = "with_inbound out (nw_conn x p)"
  let ?y = "x\<lparr>nw_conn := (nw_conn x)(p := ?c), nw_delivered := (nw_delivered x)(p := nw_delivered x p @ data)\<rparr>"
  have y: "net_step\<^sup>*\<^sup>* x ?y" using net_read [OF r(2)] unfolding with_inbound_def by blast
  have mv: "moves p x ?y" using y by (simp add: moves_def)
  have good: "good_network cfg random ?y" using x(1) y by (auto simp: good_network_def)
  have ended: "nw_ended ?y (peer p) \<and> nw_delivered ?y p = nw_written ?y (peer p)" if "ByteStream_eof out"
    using good_streams(4) [OF good, of p] that
    by (simp add: with_inbound_def TCPConnection_inbound_stream_def TCPReceiver_stream_out_def)
  have still: "nw_ended ?y (peer p) \<and> nw_delivered ?y p = nw_written ?y (peer p)" if "ss_ended_cleanly s"
    using m(7) [OF that] good_streams(5) [OF good, of p] by (simp add: prefix_def)
  obtain name where name: "Address_to_string rs (fc_destination (ao_config ops (ss_datagram_adapter s))) = Some name"
    using destination [OF m(1)] by blast
  let ?s = "s\<lparr>ss_thread_data := register_write (ss_thread_data s), ss_tcp := Some ?c, ss_to_owner := ss_to_owner s @ data\<rparr>"
  let ?t = "if ByteStream_eof out \<or> bs_error out then ?s\<lparr>ss_thread_data := register_write (register_write (ss_thread_data s)),
    ss_inbound_shutdown := True, ss_ended_cleanly := ss_ended_cleanly s \<or> \<not> bs_error out\<rparr> else ?s"
  have "ru_callback (inbound_rule rs ops) s = Some ?t"
    using x(3) r(1) name calls_okD(4) [OF x(5)]
    by (simp add: inbound_rule_def destination_name_def Socket_shutdown_def SystemCall_def Let_def)
  moreover have "serves cfg random p x0 sent ?t"
    by (rule serves_step [OF inv x(1,2) y mv]) (use m x(1) ended still in \<open>auto simp: good_network_def sock_matches_def\<close>)
  moreover have "w + 1 \<noteq> w" "w + 1 + 1 \<noteq> w" for w :: u32 by (simp_all add: add.assoc)
  ultimately show ?thesis using x(3)
    by (intro that [of ?t]) (simp_all add: Rule_service_count_def inbound_rule_def segment_rule_def register_write_def with_inbound_def)
qed

text \<open>Rule 4.\<close>

lemma send_segments_returns:
  assumes "ok (ss_datagram_adapter s)" and "\<And>k. takes_datagrams (sy_send (ss_calls s) k)" and "\<forall>seg \<in> set segs. fits_datagram seg"
    and "ss_tcp s = Some c" and "tc_segments_out c = segs"
  shows "\<exists>a ds. send_segments ops segs s = Some (s\<lparr>ss_datagram_adapter := a, ss_tcp := Some (c\<lparr>tc_segments_out := []\<rparr>),
      ss_wire := ss_wire s @ segs, ss_datagrams := ss_datagrams s @ ds\<rparr>) \<and> ok a \<and> accounted carried source (set ds) (set segs)"
  using assms
proof (induction segs arbitrary: s c)
  case Nil
  then show ?case by (intro exI [of _ "ss_datagram_adapter s"] exI [of _ "[]"]) (simp add: accounted_def)
next
  case (Cons seg segs)
  obtain ds a where w: "ao_write ops (sy_send (ss_calls s) (length (ss_wire s))) seg (ss_datagram_adapter s) = Some (ds, a)" "ok a"
    "\<forall>d \<in> set ds. \<forall>address. source address \<longrightarrow> carried (d, address) seg"
    using writes [OF Cons.prems(1,2)] Cons.prems(3) by (metis list.set_intros(1))
  let ?s = "s\<lparr>ss_datagram_adapter := a, ss_tcp := Some (c\<lparr>tc_segments_out := segs\<rparr>), ss_wire := ss_wire s @ [seg],
    ss_datagrams := ss_datagrams s @ ds\<rparr>"
  obtain b es where "send_segments ops segs ?s = Some (?s\<lparr>ss_datagram_adapter := b,
      ss_tcp := Some (c\<lparr>tc_segments_out := segs, tc_segments_out := []\<rparr>), ss_wire := ss_wire ?s @ segs,
      ss_datagrams := ss_datagrams ?s @ es\<rparr>)" "ok b" "accounted carried source (set es) (set segs)"
    using Cons.IH [of ?s "c\<lparr>tc_segments_out := segs\<rparr>"] w(2) Cons.prems by auto
  then show ?case using w Cons.prems(4)
    by (intro exI [of _ b] exI [of _ "ds @ es"]) (auto simp: accounted_def)
qed

lemma send_serves:
  assumes inv: "serves cfg random p x0 sent s"
  obtains t where "ru_callback (send_rule ops) s = Some t" and "serves cfg random p x0 sent t" and "\<not> ru_interest (send_rule ops) t"
    and "ru_interest (segment_rule rs ops) t = ru_interest (segment_rule rs ops) s" and "ss_outbound_shutdown t = ss_outbound_shutdown s"
proof -
  obtain x where x: "good_network cfg random x" "moves p x0 x" "ss_tcp s = Some (nw_conn x p)"
    "sock_matches ok carried source p s x" "calls_ok source foreign sent (ss_calls s)" by (rule servesE [OF inv])
  note m = sock_matchesD [OF x(4)]
  let ?out = "tc_segments_out (nw_conn x p)"
  obtain a ds where t: "send_segments ops ?out s = Some (s\<lparr>ss_datagram_adapter := a,
      ss_tcp := Some ((nw_conn x p)\<lparr>tc_segments_out := []\<rparr>), ss_wire := ss_wire s @ ?out, ss_datagrams := ss_datagrams s @ ds\<rparr>)"
    "ok a" "accounted carried source (set ds) (set ?out)"
    using send_segments_returns [OF m(1) calls_okD(2) [OF x(5)] good_tame [OF x(1)] x(3) refl] by blast
  let ?t = "s\<lparr>ss_datagram_adapter := a, ss_tcp := Some ((nw_conn x p)\<lparr>tc_segments_out := []\<rparr>), ss_wire := ss_wire s @ ?out,
    ss_datagrams := ss_datagrams s @ ds\<rparr>"
  let ?y = "x\<lparr>nw_conn := (nw_conn x)(p := (nw_conn x p)\<lparr>tc_segments_out := []\<rparr>), nw_wire := (nw_wire x)(p := nw_wire x p @ ?out)\<rparr>"
  have y: "net_step\<^sup>*\<^sup>* x ?y" using net_transmit by blast
  have "accounted carried source (set (ss_datagrams ?t)) (set (ss_wire ?t))" using accounted_Un [OF m(6) t(3)] by simp
  then have "serves cfg random p x0 sent ?t"
    by (intro serves_step [OF inv x(1,2) y]) (use y m x(1) t(2) in \<open>auto simp: moves_def good_network_def sock_matches_def\<close>)
  then show ?thesis using t(1) x(3) by (intro that [of ?t]) (simp_all add: send_rule_def segment_rule_def)
qed

end

section \<open>The event loop of a socket\<close>

text \<open>Rule 1 is called on an active connection, rule 2 before the outbound stream has ended.\<close>

definition sponge_guard :: "resolver \<Rightarrow> 'a adapter_ops \<Rightarrow> 'a TCPSpongeSocket Rule \<Rightarrow> 'a TCPSpongeSocket \<Rightarrow> bool" where
  "sponge_guard rs ops r s \<longleftrightarrow> (r = segment_rule rs ops \<longrightarrow> ru_interest (segment_rule rs ops) s) \<and>
     (r = outbound_rule rs ops \<longrightarrow> \<not> ss_outbound_shutdown s)"

lemma set_tcp_rules: "set (add_tcp_rules rs ops []) = {segment_rule rs ops, outbound_rule rs ops, inbound_rule rs ops, send_rule ops}"
  by (auto simp: add_tcp_rules_def EventLoop_add_rule_def)

lemma distinct_tcp_rules: "distinct (add_tcp_rules rs (ops :: 'a adapter_ops) [])"
proof -
  let ?fd = "\<lparr>fd_fd = 0, fd_eof = False, fd_closed = False, fd_read_count = 0, fd_write_count = 0\<rparr>"
  let ?c = "(TCPConnection_init TCPConfig_default 0)\<lparr>tc_segments_out := [TCPSegment_default]\<rparr>"
  let ?s = "\<lambda>tcp. \<lparr>ss_owner = ?fd, ss_thread_data = ?fd, ss_datagram_adapter = (undefined :: 'a), ss_tcp = tcp,
    ss_inbound_shutdown = False, ss_outbound_shutdown = False, ss_fully_acked = False, ss_base_time = 0, ss_calls = undefined,
    ss_wire = [], ss_datagrams = [], ss_from_owner = [], ss_to_owner = [], ss_ended_cleanly = False\<rparr>"
  have "ru_cancel (segment_rule rs ops) (?s None) \<noteq> ru_cancel (outbound_rule rs ops) (?s None)"
    by (simp add: segment_rule_def outbound_rule_def end_outbound_def)
  moreover have "ru_interest (inbound_rule rs ops) (?s (Some ?c)) \<noteq> ru_interest (send_rule ops) (?s (Some ?c))"
    by (simp add: inbound_rule_def send_rule_def TCPConnection_inbound_stream_def TCPReceiver_stream_out_def TCPConnection_init_def
      TCPReceiver_init_def StreamReassembler_init_def ByteStream_init_def ByteStream_buffer_empty_def ByteStream_eof_def)
  ultimately have "segment_rule rs ops \<noteq> outbound_rule rs ops" "inbound_rule rs ops \<noteq> send_rule ops" by auto
  then show ?thesis
    by (auto simp: add_tcp_rules_def EventLoop_add_rule_def)
      (auto simp: segment_rule_def outbound_rule_def inbound_rule_def send_rule_def)
qed

context datagram_adapter
begin

lemma callback_serves_rule:
  assumes "r \<in> set (add_tcp_rules rs ops [])" and "serves cfg random p x0 sent s" and "sponge_guard rs ops r s"
  shows "\<exists>t. ru_callback r s = Some t \<and> serves cfg random p x0 sent t \<and>
    (Rule_service_count r t \<noteq> Rule_service_count r s \<or> \<not> ru_interest r t) \<and>
    (\<forall>q. q \<noteq> r \<longrightarrow> sponge_guard rs ops q s \<longrightarrow> sponge_guard rs ops q t)"
proof -
  consider "r = segment_rule rs ops" | "r = outbound_rule rs ops" | "r = inbound_rule rs ops" | "r = send_rule ops"
    using assms(1) unfolding set_tcp_rules by blast
  then show ?thesis
  proof cases
    case 1
    then have "ru_interest (segment_rule rs ops) s" using assms(3) by (simp add: sponge_guard_def)
    then obtain t where "ru_callback r s = Some t" "serves cfg random p x0 sent t" "Rule_service_count r t = Rule_service_count r s + 1"
      "ss_outbound_shutdown t = ss_outbound_shutdown s" unfolding 1 by (rule segment_serves [OF assms(2)])
    then show ?thesis using 1 by (simp add: sponge_guard_def)
  next
    case 2
    then have "\<not> ss_outbound_shutdown s" using assms(3) by (simp add: sponge_guard_def)
    then obtain t where "ru_callback r s = Some t" "serves cfg random p x0 sent t" "Rule_service_count r t = Rule_service_count r s + 1"
      "ru_interest (segment_rule rs ops) t = ru_interest (segment_rule rs ops) s" unfolding 2 by (rule outbound_serves [OF assms(2)])
    then show ?thesis using 2 by (simp add: sponge_guard_def)
  next
    case 3
    obtain t where "ru_callback r s = Some t" "serves cfg random p x0 sent t" "Rule_service_count r t \<noteq> Rule_service_count r s"
      "ru_interest (segment_rule rs ops) t = ru_interest (segment_rule rs ops) s" "ss_outbound_shutdown t = ss_outbound_shutdown s"
      unfolding 3 by (rule inbound_serves [OF assms(2)])
    then show ?thesis by (simp add: sponge_guard_def)
  next
    case 4
    obtain t where "ru_callback r s = Some t" "serves cfg random p x0 sent t" "\<not> ru_interest r t"
      "ru_interest (segment_rule rs ops) t = ru_interest (segment_rule rs ops) s" "ss_outbound_shutdown t = ss_outbound_shutdown s"
      unfolding 4 by (rule send_serves [OF assms(2)])
    then show ?thesis by (simp add: sponge_guard_def)
  qed
qed

lemma cancel_serves_rule:
  assumes "r \<in> set (add_tcp_rules rs ops [])" and "serves cfg random p x0 sent s"
  shows "\<exists>t. ru_cancel r s = Some t \<and> serves cfg random p x0 sent t \<and>
    (\<forall>q. q \<noteq> r \<longrightarrow> sponge_guard rs ops q s \<longrightarrow> sponge_guard rs ops q t)"
proof (cases "r = outbound_rule rs ops")
  case True
  obtain t where "end_outbound s = Some t" "serves cfg random p x0 sent t"
    "ru_interest (segment_rule rs ops) t = ru_interest (segment_rule rs ops) s" by (rule end_outbound_serves [OF assms(2)])
  moreover have "ru_cancel r = end_outbound" using True by (simp add: outbound_rule_def)
  ultimately show ?thesis using True by (simp add: sponge_guard_def)
next
  case False
  then have "ru_cancel r s = Some s"
    using assms(1) unfolding set_tcp_rules by (auto simp: segment_rule_def inbound_rule_def send_rule_def)
  then show ?thesis using assms(2) by blast
qed

text \<open>The rules meet the contract of the event loop.\<close>

lemma rules_served: "served_rules (add_tcp_rules rs ops []) (serves cfg random p x0 sent) (sponge_guard rs ops)"
proof
  show "distinct (add_tcp_rules rs ops [])" by (rule distinct_tcp_rules)
  show "sponge_guard rs ops r s" if "r \<in> set (add_tcp_rules rs ops [])" "serves cfg random p x0 sent s" "ru_interest r s" for r s
    using that by (auto simp: sponge_guard_def outbound_rule_def split: option.splits)
  show "\<exists>t. ru_callback r s = Some t \<and> serves cfg random p x0 sent t \<and> (Rule_service_count r t \<noteq> Rule_service_count r s \<or> \<not> ru_interest r t)"
    if "r \<in> set (add_tcp_rules rs ops [])" "serves cfg random p x0 sent s" "sponge_guard rs ops r s" for r s
    using callback_serves_rule [OF that] by blast
  show "sponge_guard rs ops q t"
    if "r \<in> set (add_tcp_rules rs ops [])" "q \<noteq> r" "serves cfg random p x0 sent s" "sponge_guard rs ops r s" "sponge_guard rs ops q s"
      "ru_callback r s = Some t" for r q s t
    using callback_serves_rule [OF that(1,3,4)] that by auto
  show "\<exists>t. ru_cancel r s = Some t \<and> serves cfg random p x0 sent t"
    if "r \<in> set (add_tcp_rules rs ops [])" "serves cfg random p x0 sent s" for r s
    using cancel_serves_rule [OF that] by blast
  show "sponge_guard rs ops q t"
    if "r \<in> set (add_tcp_rules rs ops [])" "q \<noteq> r" "serves cfg random p x0 sent s" "sponge_guard rs ops q s"
      "ru_cancel r s = Some t" for r q s t
    using cancel_serves_rule [OF that(1,3)] that by auto
qed

end

sublocale datagram_adapter \<subseteq> thread: served_rules "add_tcp_rules rs ops []"
  "round_inv ok carried source foreign cfg random p x0 sent" "sponge_guard rs ops" for cfg random p x0 sent
  by (rule rules_served)

context datagram_adapter
begin

lemma round_serves:
  assumes "serves cfg random p x0 sent s" and "subseq rules (add_tcp_rules rs ops [])"
  obtains ended kept t where "tcp_round ops rules s = Some (ended, kept, t)" and "subseq kept (add_tcp_rules rs ops [])"
    and "serves cfg random p x0 sent t"
proof -
  have poll: "poll_ok (sy_poll (ss_calls s))" by (rule servesE [OF assms(1)]) (rule calls_okD(1))
  obtain res kept t where r: "EventLoop_wait_next_event (sy_poll (ss_calls s)) TCP_TICK_MS rules s = Some (res, kept, t)"
    "subseq kept (add_tcp_rules rs ops [])" "serves cfg random p x0 sent t"
    using thread.round_returns [OF assms(2,1) poll] by blast
  obtain x where x: "good_network cfg random x" "moves p x0 x" "ss_tcp t = Some (nw_conn x p)"
    "sock_matches ok carried source p t x" "calls_ok source foreign sent (ss_calls t)" by (rule servesE [OF r(3)])
  note m = sock_matchesD [OF x(4)]
  show ?thesis
  proof (cases "(res = Exit \<or> sy_abort (ss_calls t)) \<or> \<not> tc_active (nw_conn x p)")
    case True
    then show ?thesis using r x(3)
      by (intro that [of "res = Exit \<or> sy_abort (ss_calls t)" kept t]) (auto simp: tcp_round_def)
  next
    case False
    let ?ms = "sub64 (sy_time (ss_calls t)) (ss_base_time t)"
    obtain c where c: "TCPConnection_tick ?ms (nw_conn x p) = Some c" using good_calls(2) [OF x(1) active_usable] False by blast
    obtain a where a: "ao_tick ops (sy_send (ss_calls t) (length (ss_wire t))) ?ms (ss_datagram_adapter t) = Some ([], a)" "ok a"
      using ticks [OF m(1) calls_okD(2) [OF x(5)]] by blast
    let ?t = "t\<lparr>ss_tcp := Some c, ss_datagram_adapter := a, ss_datagrams := ss_datagrams t @ [], ss_base_time := sy_time (ss_calls t)\<rparr>"
    let ?y = "x\<lparr>nw_conn := (nw_conn x)(p := c)\<rparr>"
    have y: "net_step\<^sup>*\<^sup>* x ?y" using net_tick [OF active_usable c] False by blast
    have "serves cfg random p x0 sent ?t"
      by (rule serves_step [OF r(3) x(1,2) y]) (use y m a(2) in \<open>auto simp: moves_def sock_matches_def\<close>)
    then show ?thesis using r(1,2) x(3) c a(1) False
      by (intro that [of False kept ?t]) (auto simp: tcp_round_def Let_def)
  qed
qed

end

end
