(* ===== verification/Sponge_System.thy ===== *)
theory Sponge_System
  imports Sponge_Network
begin

text \<open>
  Two programs, each with a TCPSpongeSocket, over a network of datagrams. A thread is at one of the points
  between the rounds of the loops of TCPSpongeSocket::connect, TCPSpongeSocket::listen\_and\_accept and
  TCPSpongeSocket::\_tcp\_main; the rounds of the two programs interleave. In each round the operating
  system may answer differently; the datagrams a socket is given are datagrams that its peer has
  sent, any of them and any number of times, or foreign ones.

  Every state of the two programs matches a state of the network of two connections of theory
  TCP\_Network, so that what was shown there holds for the bytes that the owners write and read.
\<close>

section \<open>Threads\<close>

datatype 's thread = Created 's | Opening "State list" "'s Rule list" 's | Serving "'s Rule list" 's | Finished 's

fun thread_state :: "'s thread \<Rightarrow> 's" where
  "thread_state (Created s) = s"
| "thread_state (Opening states rules s) = s"
| "thread_state (Serving rules s) = s"
| "thread_state (Finished s) = s"

text \<open>From the test of the condition of a loop to the next. When the loop of \<open>connect\<close> or \<open>listen_and_accept\<close> ends,
  the thread with the main function is started; when that ends the connection is destroyed.\<close>

definition open_done :: "resolver \<Rightarrow> 'a adapter_ops \<Rightarrow> system_calls \<Rightarrow> 'a TCPSpongeSocket Rule list \<Rightarrow> 'a TCPSpongeSocket \<Rightarrow>
    'a TCPSpongeSocket thread option" where
  "open_done rs ops calls rules s = do {
     _ \<leftarrow> destination_name rs ops s;
     Some (Serving rules (s\<lparr>ss_base_time := sy_time calls\<rparr>))
   }"

fun thread_step :: "resolver \<Rightarrow> 'a adapter_ops \<Rightarrow> system_calls \<Rightarrow> 'a TCPSpongeSocket thread \<Rightarrow> 'a TCPSpongeSocket thread option" where
  "thread_step rs ops calls (Created s) = Some (Created s)"
| "thread_step rs ops calls (Opening states rules s) = do {
     go \<leftarrow> in_state states s;
     if \<not> go then open_done rs ops calls rules s
     else do {
       (ended, rules, s) \<leftarrow> tcp_round ops rules (s\<lparr>ss_calls := calls\<rparr>);
       if ended then open_done rs ops calls rules s else Some (Opening states rules s)
     }
   }"
| "thread_step rs ops calls (Serving rules s) = do {
     (ended, rules, s) \<leftarrow> tcp_round ops rules (s\<lparr>ss_calls := calls\<rparr>);
     if ended then do { s \<leftarrow> tcp_finish s; Some (Finished s) } else Some (Serving rules s)
   }"
| "thread_step rs ops calls (Finished s) = Some (Finished s)"

definition start :: "resolver \<Rightarrow> 'a adapter_ops \<Rightarrow> bool \<Rightarrow> TCPConfig \<Rightarrow> FdAdapterConfig \<Rightarrow> u32 \<Rightarrow> u64 \<Rightarrow> 'a TCPSpongeSocket \<Rightarrow>
    'a TCPSpongeSocket thread option" where
  "start rs ops listening c_tcp c_ad random time s =
     (if listening then do {
        (rules, s) \<leftarrow> listen_start rs ops c_tcp c_ad random [] s;
        Some (Opening accepting rules (s\<lparr>ss_base_time := time\<rparr>))
      }
      else do {
        (rules, s) \<leftarrow> connect_start rs ops c_tcp c_ad random [] s;
        Some (Opening connecting rules (s\<lparr>ss_base_time := time\<rparr>))
      })"

text \<open>Several rounds.\<close>

fun run_thread :: "resolver \<Rightarrow> 'a adapter_ops \<Rightarrow> system_calls list \<Rightarrow> 'a TCPSpongeSocket thread \<Rightarrow> 'a TCPSpongeSocket thread option" where
  "run_thread rs ops [] t = Some t"
| "run_thread rs ops (calls # rounds) t = do { t \<leftarrow> thread_step rs ops calls t; run_thread rs ops rounds t }"

text \<open>The datagrams that the socket of a thread has handed to its device.\<close>

abbreviation sent_by :: "'a TCPSpongeSocket thread \<Rightarrow> bytes set" where
  "sent_by t \<equiv> set (ss_datagrams (thread_state t))"

inductive sponge_step :: "resolver \<Rightarrow> 'a adapter_ops \<Rightarrow> (bytes \<Rightarrow> bool) \<Rightarrow> (bytes \<times> bytes \<Rightarrow> bool) \<Rightarrow> (side \<Rightarrow> TCPConfig) \<Rightarrow> (side \<Rightarrow> u32) \<Rightarrow>
    (side \<Rightarrow> 'a TCPSpongeSocket thread) \<Rightarrow> (side \<Rightarrow> 'a TCPSpongeSocket thread) \<Rightarrow> bool"
  for rs ops source foreign cfg random where
  sponge_start: "sponge_step rs ops source foreign cfg random X (X(p := t))"
    if "X p = Created s" and "ipv4_config c_ad" and "start rs ops listening (cfg p) c_ad (random p) time s = Some t"
| sponge_run: "sponge_step rs ops source foreign cfg random X (X(p := t))"
    if "calls_ok source foreign (sent_by (X (peer p))) calls" and "thread_step rs ops calls (X p) = Some t"

text \<open>Both sockets as their constructors leave them.\<close>

definition sponge_init :: "('a \<Rightarrow> bool) \<Rightarrow> (side \<Rightarrow> 'a TCPSpongeSocket thread) \<Rightarrow> bool" where
  "sponge_init ok X \<longleftrightarrow> (\<forall>p. \<exists>getfl setfl fds adapter calls s. ok adapter \<and>
     TCPSpongeSocket_init getfl setfl fds adapter calls = Some s \<and> X p = Created s)"

section \<open>The invariant\<close>

definition thread_matches ::
  "resolver \<Rightarrow> 'a adapter_ops \<Rightarrow> ('a \<Rightarrow> bool) \<Rightarrow> (bytes \<times> bytes \<Rightarrow> TCPSegment \<Rightarrow> bool) \<Rightarrow> (bytes \<Rightarrow> bool) \<Rightarrow> (side \<Rightarrow> TCPConfig) \<Rightarrow>
    (side \<Rightarrow> u32) \<Rightarrow> side \<Rightarrow> 'a TCPSpongeSocket thread \<Rightarrow> network \<Rightarrow> bool" where
  "thread_matches rs ops ok carried source cfg random p t x \<longleftrightarrow> sock_matches ok carried source p (thread_state t) x \<and>
     (case t of Created s \<Rightarrow> ss_tcp s = None \<and> nw_conn x p = TCPConnection_init (cfg p) (random p)
      | Opening states rules s \<Rightarrow> ss_tcp s = Some (nw_conn x p) \<and> subseq rules (add_tcp_rules rs ops [])
      | Serving rules s \<Rightarrow> ss_tcp s = Some (nw_conn x p) \<and> subseq rules (add_tcp_rules rs ops [])
      | Finished s \<Rightarrow> True)"

definition sponge_inv ::
  "resolver \<Rightarrow> 'a adapter_ops \<Rightarrow> ('a \<Rightarrow> bool) \<Rightarrow> (bytes \<times> bytes \<Rightarrow> TCPSegment \<Rightarrow> bool) \<Rightarrow> (bytes \<Rightarrow> bool) \<Rightarrow> (side \<Rightarrow> TCPConfig) \<Rightarrow>
    (side \<Rightarrow> u32) \<Rightarrow> (side \<Rightarrow> 'a TCPSpongeSocket thread) \<Rightarrow> network \<Rightarrow> bool" where
  "sponge_inv rs ops ok carried source cfg random X x \<longleftrightarrow> good_network cfg random x \<and>
     (\<forall>p. thread_matches rs ops ok carried source cfg random p (X p) x)"

text \<open>What the owner of an endpoint has ended stays ended.\<close>

lemma net_step_ended: "net_step x y \<Longrightarrow> nw_ended x p \<Longrightarrow> nw_ended y p \<and> nw_written y p = nw_written x p"
  by (induction rule: net_step.induct) auto

lemma net_steps_ended: "net_step\<^sup>*\<^sup>* x y \<Longrightarrow> nw_ended x p \<Longrightarrow> nw_ended y p \<and> nw_written y p = nw_written x p"
  by (induction rule: rtranclp_induct) (auto dest: net_step_ended)

lemma moves_peer:
  assumes "moves p x y" and "thread_matches rs ops ok carried source cfg random (peer p) t x"
  shows "thread_matches rs ops ok carried source cfg random (peer p) t y"
  using assms net_steps_ended [of x y p]
  by (auto simp: thread_matches_def moves_def sock_matches_def split: thread.splits)

lemma sponge_inv_update:
  assumes "sponge_inv rs ops ok carried source cfg random X x" and "good_network cfg random y" and "moves p x y"
    and "thread_matches rs ops ok carried source cfg random p t y"
  shows "sponge_inv rs ops ok carried source cfg random (X(p := t)) y"
proof -
  have "thread_matches rs ops ok carried source cfg random (peer p) (X (peer p)) y"
    by (rule moves_peer [OF assms(3)]) (use assms(1) in \<open>simp add: sponge_inv_def\<close>)
  then have "thread_matches rs ops ok carried source cfg random q ((X(p := t)) q) y" for q
    using assms(4) side_eq_peer [of q p] by auto
  then show ?thesis using assms(2) by (simp add: sponge_inv_def)
qed

context datagram_adapter
begin

abbreviation matches :: "(side \<Rightarrow> TCPConfig) \<Rightarrow> (side \<Rightarrow> u32) \<Rightarrow> (side \<Rightarrow> 'a TCPSpongeSocket thread) \<Rightarrow> network \<Rightarrow> bool" where
  "matches \<equiv> sponge_inv rs ops ok carried source"

lemma init_matches:
  assumes "sponge_init ok X" and "capacities_ok cfg"
  shows "matches cfg random X (net_init cfg random)"
proof -
  have "thread_matches rs ops ok carried source cfg random p (X p) (net_init cfg random)" for p
  proof -
    obtain getfl setfl fds adapter calls s where "ok adapter" "TCPSpongeSocket_init getfl setfl fds adapter calls = Some s" "X p = Created s"
      using assms(1) unfolding sponge_init_def by blast
    then show ?thesis
      by (auto simp: thread_matches_def sock_matches_def accounted_def net_init_def TCPSpongeSocket_init_def split: bind_splits)
  qed
  then show ?thesis using assms(2) by (simp add: sponge_inv_def good_network_def) (simp add: net_init_def)
qed

text \<open>A thread that is running is about to serve a round.\<close>

lemma serves_start:
  assumes inv: "matches cfg random X x" and t: "X p = Opening states rules s \<or> X p = Serving rules s"
    and calls: "calls_ok source foreign (sent_by (X (peer p))) calls"
  shows "serves cfg random p x (sent_by (X (peer p))) (s\<lparr>ss_calls := calls\<rparr>)" and "subseq rules (add_tcp_rules rs ops [])"
proof -
  have m: "thread_matches rs ops ok carried source cfg random q (X q) x" for q using inv by (simp add: sponge_inv_def)
  have "accounted carried source (sent_by (X (peer p))) (set (nw_wire x (peer p)))"
    using m [of "peer p"] by (simp add: thread_matches_def sock_matches_def)
  moreover have "sock_matches ok carried source p (s\<lparr>ss_calls := calls\<rparr>) x" "ss_tcp s = Some (nw_conn x p)"
    using m [of p] t by (auto simp: thread_matches_def sock_matches_def)
  ultimately show "serves cfg random p x (sent_by (X (peer p))) (s\<lparr>ss_calls := calls\<rparr>)"
    using inv calls by (auto simp: round_inv_def sponge_inv_def intro!: exI [of _ x])
  show "subseq rules (add_tcp_rules rs ops [])" using m [of p] t by (auto simp: thread_matches_def)
qed

lemma serves_matches:
  assumes "serves cfg random p x sent s" and "subseq rules (add_tcp_rules rs ops [])"
  obtains y where "good_network cfg random y" and "moves p x y" and "sock_matches ok carried source p s y"
    and "thread_matches rs ops ok carried source cfg random p (Opening states rules s) y"
    and "thread_matches rs ops ok carried source cfg random p (Serving rules (s\<lparr>ss_base_time := time\<rparr>)) y"
  using assms by (elim servesE) (auto simp: thread_matches_def sock_matches_def)

text \<open>A round of a running thread returns.\<close>

lemma open_done_returns:
  assumes "serves cfg random p x sent s"
  shows "open_done rs ops calls rules s = Some (Serving rules (s\<lparr>ss_base_time := sy_time calls\<rparr>))"
proof -
  have "ok (ss_datagram_adapter s)" by (rule servesE [OF assms]) (rule sock_matchesD(1))
  from destination [OF this] show ?thesis by (auto simp: open_done_def destination_name_def)
qed

lemma finish_returns:
  assumes "serves cfg random p x sent s"
  obtains y t where "tcp_finish s = Some t" and "good_network cfg random y" and "moves p x y"
    and "thread_matches rs ops ok carried source cfg random p (Finished t) y"
proof -
  obtain y where y: "good_network cfg random y" "moves p x y" "ss_tcp s = Some (nw_conn y p)"
    "sock_matches ok carried source p s y" "calls_ok source foreign sent (ss_calls s)" by (rule servesE [OF assms])
  let ?t = "s\<lparr>ss_owner := register_write (register_read (ss_owner s)), ss_tcp := None\<rparr>"
  have "tcp_finish s = Some ?t"
    using y(3) calls_okD(4) [OF y(5)] by (simp add: tcp_finish_def Socket_shutdown_def SystemCall_def)
  then show ?thesis using y by (intro that [of ?t y]) (auto simp: thread_matches_def sock_matches_def)
qed

lemma serving_returns:
  assumes "serves cfg random p x sent (s\<lparr>ss_calls := calls\<rparr>)" and "subseq rules (add_tcp_rules rs ops [])"
  obtains t y where "thread_step rs ops calls (Serving rules s) = Some t" and "good_network cfg random y" and "moves p x y"
    and "thread_matches rs ops ok carried source cfg random p t y"
proof -
  obtain ended kept t where r: "tcp_round ops rules (s\<lparr>ss_calls := calls\<rparr>) = Some (ended, kept, t)"
    "subseq kept (add_tcp_rules rs ops [])" "serves cfg random p x sent t"
    by (rule round_serves [OF assms])
  show ?thesis
  proof (cases ended)
    case True
    obtain y u where "tcp_finish t = Some u" "good_network cfg random y" "moves p x y"
      "thread_matches rs ops ok carried source cfg random p (Finished u) y" by (rule finish_returns [OF r(3)])
    then show ?thesis using r(1) True by (intro that [of "Finished u" y]) simp_all
  next
    case False
    obtain y where "good_network cfg random y" "moves p x y" "thread_matches rs ops ok carried source cfg random p
        (Serving kept (t\<lparr>ss_base_time := ss_base_time t\<rparr>)) y" by (rule serves_matches [OF r(3,2)])
    then show ?thesis using r(1) False by (intro that [of "Serving kept t" y]) simp_all
  qed
qed

lemma opening_returns:
  assumes "serves cfg random p x sent (s\<lparr>ss_calls := calls\<rparr>)" and "subseq rules (add_tcp_rules rs ops [])"
  obtains t y where "thread_step rs ops calls (Opening states rules s) = Some t" and "good_network cfg random y" and "moves p x y"
    and "thread_matches rs ops ok carried source cfg random p t y"
proof -
  obtain go where go: "in_state states s = Some go"
    by (rule servesE [OF assms(1)]) (simp add: in_state_def)
  obtain ended kept t where r: "tcp_round ops rules (s\<lparr>ss_calls := calls\<rparr>) = Some (ended, kept, t)"
    "subseq kept (add_tcp_rules rs ops [])" "serves cfg random p x sent t"
    by (rule round_serves [OF assms])
  have idle: "open_done rs ops calls rules s = Some (Serving rules (s\<lparr>ss_base_time := sy_time calls\<rparr>))"
    using open_done_returns [OF assms(1), of calls rules] by (auto simp: open_done_def destination_name_def split: bind_splits)
  obtain z where z: "good_network cfg random z" "moves p x z" "thread_matches rs ops ok carried source cfg random p
      (Serving rules ((s\<lparr>ss_calls := calls\<rparr>)\<lparr>ss_base_time := sy_time calls\<rparr>)) z" by (rule serves_matches [OF assms])
  obtain y where y: "good_network cfg random y" "moves p x y"
    "thread_matches rs ops ok carried source cfg random p (Opening states kept t) y"
    "thread_matches rs ops ok carried source cfg random p (Serving kept (t\<lparr>ss_base_time := sy_time calls\<rparr>)) y"
    by (rule serves_matches [OF r(3,2)]) blast
  consider "\<not> go" | "go" "ended" | "go" "\<not> ended" by blast
  then show ?thesis
  proof cases
    case 1
    then show ?thesis using go idle z
      by (intro that [of "Serving rules (s\<lparr>ss_base_time := sy_time calls\<rparr>)" z]) (auto simp: thread_matches_def sock_matches_def)
  next
    case 2
    then show ?thesis using go r(1) open_done_returns [OF r(3)] y
      by (intro that [of "Serving kept (t\<lparr>ss_base_time := sy_time calls\<rparr>)" y]) simp_all
  next
    case 3
    then show ?thesis using go r(1) y by (intro that [of "Opening states kept t" y]) simp_all
  qed
qed

lemma run_returns:
  assumes inv: "matches cfg random X x" and calls: "calls_ok source foreign (sent_by (X (peer p))) calls"
  obtains t y where "thread_step rs ops calls (X p) = Some t" and "matches cfg random (X(p := t)) y" and "moves p x y"
proof (cases "X p")
  case (Opening states rules s)
  note s = serves_start [OF inv disjI1 [OF Opening] calls]
  show ?thesis unfolding Opening
    by (rule opening_returns [OF s]) (rule that [unfolded Opening], assumption, rule sponge_inv_update [OF inv])
next
  case (Serving rules s)
  note s = serves_start [OF inv disjI2 [OF Serving] calls]
  show ?thesis unfolding Serving
    by (rule serving_returns [OF s]) (rule that [unfolded Serving], assumption, rule sponge_inv_update [OF inv])
next
  case (Created s)
  have "thread_step rs ops calls (X p) = Some (X p)" unfolding Created by simp
  then show ?thesis by (rule that [OF _ _ moves_refl]) (use inv in simp)
next
  case (Finished s)
  have "thread_step rs ops calls (X p) = Some (X p)" unfolding Finished by simp
  then show ?thesis by (rule that [OF _ _ moves_refl]) (use inv in simp)
qed

text \<open>Starting a connection returns.\<close>

lemma start_returns:
  assumes inv: "matches cfg random X x" and s: "X p = Created s" and c: "ipv4_config c_ad"
  obtains t y where "start rs ops listening (cfg p) c_ad (random p) time s = Some t" and "matches cfg random (X(p := t)) y" and "moves p x y"
proof -
  have m: "sock_matches ok carried source p s x" "ss_tcp s = None" "nw_conn x p = TCPConnection_init (cfg p) (random p)"
    and good: "good_network cfg random x"
    using inv s by (auto simp: sponge_inv_def thread_matches_def dest: spec [of _ p])
  note ok = configure [OF sock_matchesD(1) [OF m(1)] c]
  note d = sock_matchesD [OF m(1)]
  obtain name where name: "Address_to_string rs (fc_destination c_ad) = Some name" using destination [OF ok] config by auto
  show ?thesis
  proof (cases listening)
    case True
    let ?t = "s\<lparr>ss_tcp := Some (TCPConnection_init (cfg p) (random p)),
      ss_datagram_adapter := ao_set_listening ops True (ao_configure ops c_ad (ss_datagram_adapter s)), ss_base_time := time\<rparr>"
    have t: "thread_matches rs ops ok carried source cfg random p (Opening accepting (add_tcp_rules rs ops []) ?t) x"
      using m set_listening [OF ok] by (auto simp: thread_matches_def sock_matches_def)
    show ?thesis using True m(2) sponge_inv_update [OF inv good moves_refl t]
      by (intro that [of "Opening accepting (add_tcp_rules rs ops []) ?t" x])
        (simp_all add: start_def listen_start_def TCPSpongeSocket_initialize_TCP_def)
  next
    case False
    obtain tcp where tcp: "TCPConnection_connect (nw_conn x p) = Some tcp" "TCPConnection_state tcp = TCPState_of_State SYN_SENT"
      unfolding m(3) handshake_connect using handshake_conn_state [where x = SYN_SENT]
      by (auto simp: listen_answers simp del: TCPState_of_State.simps)
    let ?t = "s\<lparr>ss_tcp := Some tcp, ss_datagram_adapter := ao_configure ops c_ad (ss_datagram_adapter s), ss_base_time := time\<rparr>"
    let ?y = "x\<lparr>nw_conn := (nw_conn x)(p := tcp)\<rparr>"
    have y: "net_step\<^sup>*\<^sup>* x ?y" using net_connect [OF active_usable tcp(1)] m(3) by (simp add: r_into_rtranclp)
    have mv: "moves p x ?y" using y by (simp add: moves_def)
    have gy: "good_network cfg random ?y" using good y by (auto simp: good_network_def)
    have t: "thread_matches rs ops ok carried source cfg random p (Opening connecting (add_tcp_rules rs ops []) ?t) ?y"
      using m ok by (auto simp: thread_matches_def sock_matches_def)
    show ?thesis using False m(2) tcp name sponge_inv_update [OF inv gy mv t] mv
      by (intro that [of "Opening connecting (add_tcp_rules rs ops []) ?t" ?y])
        (simp_all add: start_def connect_start_def TCPSpongeSocket_initialize_TCP_def TCPState_ne_def TCPState_eq_def flip: m(3))
  qed
qed

lemma reachable_matches:
  assumes "(sponge_step rs ops source foreign cfg random)\<^sup>*\<^sup>* X0 X" and "sponge_init ok X0" and "capacities_ok cfg"
  obtains x where "matches cfg random X x"
proof -
  have "\<exists>x. matches cfg random X x" using assms(1)
  proof (induction rule: rtranclp_induct)
    case base
    then show ?case using init_matches [OF assms(2,3)] by blast
  next
    case (step Y Z)
    then obtain x where x: "matches cfg random Y x" by blast
    from step.hyps(2) show ?case
    proof cases
      case (sponge_start p s c_ad listening time t)
      then show ?thesis using start_returns [OF x sponge_start(2,3), of listening time] by (metis option.inject)
    next
      case (sponge_run p calls t)
      then show ?thesis using run_returns [OF x sponge_run(2)] by (metis option.inject)
    qed
  qed
  then show ?thesis using that by blast
qed

text \<open>What a program gets was written by the other, and no round fails.\<close>

lemma reachable_delivers:
  assumes "(sponge_step rs ops source foreign cfg random)\<^sup>*\<^sup>* X0 X" and "sponge_init ok X0" and "capacities_ok cfg"
  shows "prefix (ss_to_owner (thread_state (X p))) (ss_from_owner (thread_state (X (peer p)))) \<and>
    (ss_ended_cleanly (thread_state (X p)) \<longrightarrow> ss_to_owner (thread_state (X p)) = ss_from_owner (thread_state (X (peer p))) \<and>
      ss_outbound_shutdown (thread_state (X (peer p))))"
proof -
  obtain x where x: "matches cfg random X x" by (rule reachable_matches [OF assms])
  then have m: "sock_matches ok carried source q (thread_state (X q)) x" for q by (simp add: sponge_inv_def thread_matches_def)
  have "good_network cfg random x" using x by (simp add: sponge_inv_def)
  from good_streams(5) [OF this, of p] show ?thesis using m [of p] m [of "peer p"] by (auto simp: sock_matches_def)
qed

lemma reachable_returns:
  assumes "(sponge_step rs ops source foreign cfg random)\<^sup>*\<^sup>* X0 X" and "sponge_init ok X0" and "capacities_ok cfg"
  shows "calls_ok source foreign (sent_by (X (peer p))) calls \<Longrightarrow> thread_step rs ops calls (X p) \<noteq> None"
    and "X p = Created s \<Longrightarrow> ipv4_config c_ad \<Longrightarrow> start rs ops listening (cfg p) c_ad (random p) time s \<noteq> None"
proof -
  obtain x where x: "matches cfg random X x" by (rule reachable_matches [OF assms])
  show "thread_step rs ops calls (X p) \<noteq> None" if "calls_ok source foreign (sent_by (X (peer p))) calls"
    by (rule run_returns [OF x that]) simp
  show "start rs ops listening (cfg p) c_ad (random p) time s \<noteq> None" if "X p = Created s" "ipv4_config c_ad"
    by (rule start_returns [OF x that, of listening time]) simp
qed

end

section \<open>The functions of the socket in steps\<close>

lemma main_loop_steps:
  assumes "TCPSpongeSocket_tcp_loop ops (\<lambda>_. Some True) rounds rules s = Some (ended, rest, kept, t)"
  shows "\<exists>used. rounds = used @ rest \<and> (if ended then
      \<exists>before last r u. used = before @ [last] \<and> run_thread rs ops before (Serving rules s) = Some (Serving r u) \<and>
        tcp_round ops r (u\<lparr>ss_calls := last\<rparr>) = Some (True, kept, t)
    else rest = [] \<and> run_thread rs ops used (Serving rules s) = Some (Serving kept t))"
  using assms
proof (induction rounds arbitrary: rules s)
  case Nil
  then show ?case by auto
next
  case (Cons calls rounds)
  obtain e r u where step: "tcp_round ops rules (s\<lparr>ss_calls := calls\<rparr>) = Some (e, r, u)"
    using Cons.prems by (auto split: bind_splits)
  show ?case
  proof (cases e)
    case True
    then show ?thesis using Cons.prems step by (intro exI [of _ "[calls]"]) auto
  next
    case False
    then have "TCPSpongeSocket_tcp_loop ops (\<lambda>_. Some True) rounds r u = Some (ended, rest, kept, t)" using Cons.prems step by simp
    from Cons.IH [OF this] obtain used where used: "rounds = used @ rest" "if ended then
        \<exists>before last r' u'. used = before @ [last] \<and> run_thread rs ops before (Serving r u) = Some (Serving r' u') \<and>
          tcp_round ops r' (u'\<lparr>ss_calls := last\<rparr>) = Some (True, kept, t)
      else rest = [] \<and> run_thread rs ops used (Serving r u) = Some (Serving kept t)" by blast
    show ?thesis
    proof (cases ended)
      case True
      then obtain before last r' u' where "used = before @ [last]" "run_thread rs ops before (Serving r u) = Some (Serving r' u')"
        "tcp_round ops r' (u'\<lparr>ss_calls := last\<rparr>) = Some (True, kept, t)" using used(2) by auto
      then show ?thesis using True False step used(1)
        by (intro exI [of _ "calls # used"]) (auto intro!: exI [of _ "calls # before"])
    next
      case no: False
      then show ?thesis using False step used by (intro exI [of _ "calls # used"]) auto
    qed
  qed
qed

lemma run_thread_append: "run_thread rs ops (a @ b) t = do { u \<leftarrow> run_thread rs ops a t; run_thread rs ops b u }"
  by (induction a arbitrary: t) (auto split: bind_splits)

text \<open>The main function of the thread of a socket is the sequence of its rounds: with the answers \<open>rounds\<close> of the
  operating system it uses the first of them, one for each step of the thread, and when it returns the
  thread has finished.\<close>

theorem TCPSpongeSocket_tcp_main_steps:
  assumes "TCPSpongeSocket_tcp_main ops time rounds rules s = Some (ended, rest, kept, t)"
  shows "\<exists>used. rounds = used @ rest \<and>
    run_thread rs ops used (Serving rules (s\<lparr>ss_base_time := time\<rparr>)) = Some (if ended then Finished t else Serving kept t)"
proof -
  let ?s = "s\<lparr>ss_base_time := time\<rparr>"
  obtain u where loop: "TCPSpongeSocket_tcp_loop ops (\<lambda>_. Some True) rounds rules ?s = Some (ended, rest, kept, u)"
    and u: "if ended then tcp_finish u = Some t else u = t"
    using assms by (auto simp: TCPSpongeSocket_tcp_main_def split: if_splits bind_splits)
  obtain used where used: "rounds = used @ rest" "if ended then
      \<exists>before last r v. used = before @ [last] \<and> run_thread rs ops before (Serving rules ?s) = Some (Serving r v) \<and>
        tcp_round ops r (v\<lparr>ss_calls := last\<rparr>) = Some (True, kept, u)
    else rest = [] \<and> run_thread rs ops used (Serving rules ?s) = Some (Serving kept u)"
    using main_loop_steps [OF loop] by blast
  show ?thesis
  proof (cases ended)
    case True
    then obtain before last r v where "used = before @ [last]" "run_thread rs ops before (Serving rules ?s) = Some (Serving r v)"
      "tcp_round ops r (v\<lparr>ss_calls := last\<rparr>) = Some (True, kept, u)" using used(2) by auto
    then show ?thesis using True u used(1) by (intro exI [of _ used]) (simp add: run_thread_append)
  qed (use used u in auto)
qed

text \<open>A round in which nothing happens: nothing is ready, and what could be read is one foreign byte.\<close>

definition idle_calls :: system_calls where
  "idle_calls = \<lparr>sy_poll = (\<lambda>t pollfds. ((0, 0), map (\<lambda>_. 0) pollfds)), sy_recv = (\<lambda>n. ((1, 0), ([0], []))),
     sy_send = (\<lambda>k j iov. (int (sum_list (map snd iov)), 0)), sy_read = (\<lambda>pos n. ((0, 0), [])),
     sy_write = (\<lambda>j iov. (int (sum_list (map snd iov)), 0)), sy_shutdown = (0, 0), sy_time = 0, sy_abort = False\<rparr>"

definition example_fd :: "int \<Rightarrow> FDWrapper" where
  "example_fd n = \<lparr>fd_fd = n, fd_eof = False, fd_closed = False, fd_read_count = 0, fd_write_count = 0\<rparr>"

definition example_socket :: "FdAdapterBase device_adapter TCPSpongeSocket" where
  "example_socket = \<lparr>ss_owner = example_fd 3, ss_thread_data = example_fd 4,
     ss_datagram_adapter = \<lparr>da_fd = example_fd 5, da_adapter = example_adapter False\<rparr>,
     ss_tcp = None, ss_inbound_shutdown = False, ss_outbound_shutdown = False, ss_fully_acked = False, ss_base_time = 0,
     ss_calls = idle_calls, ss_wire = [], ss_datagrams = [], ss_from_owner = [], ss_to_owner = [], ss_ended_cleanly = False\<rparr>"

lemma example_init: "sponge_init (wired example_resolver) (\<lambda>_. Created example_socket)"
proof -
  have "wired example_resolver \<lparr>da_fd = example_fd 5, da_adapter = example_adapter False\<rparr>"
    using example_resolver_numeric by (auto simp: wired_def example_adapter_def ipv4_config_def)
  moreover have "TCPSpongeSocket_init (0, 0) (\<lambda>_. (0, 0)) (example_fd 3, example_fd 4)
      \<lparr>da_fd = example_fd 5, da_adapter = example_adapter False\<rparr> idle_calls = Some example_socket"
    by (simp add: TCPSpongeSocket_init_def FileDescriptor_set_blocking_def SystemCall_def example_socket_def)
  ultimately show ?thesis unfolding sponge_init_def by blast
qed

lemma idle_foreign: "not_tcp ([0], [])"
proof -
  have "map_option fst (IPv4Datagram_parse (Buffer_init [0]) IPv4Datagram_default) = Some PacketTooShort"
    by (simp add: sponge_eval cong: eval_cong)
  then show ?thesis by (auto simp: not_tcp_def)
qed

lemma idle_calls_ok: "calls_ok source not_tcp sent idle_calls"
proof -
  have "gives_datagram (sy_recv idle_calls) ([0], [])" by (simp add: gives_datagram_def idle_calls_def)
  moreover have "poll_ok (sy_poll idle_calls)" by (simp add: poll_ok_def idle_calls_def EINTR_def)
  moreover have "writev_ok (sy_write idle_calls)" by (auto simp: writev_ok_def idle_calls_def)
  moreover have "read_ok (sy_read idle_calls pos)" for pos by (auto simp: read_ok_def idle_calls_def intro!: exI [of _ "0 :: nat"])
  moreover have "takes_datagrams (sy_send idle_calls k)" for k by (simp add: takes_datagrams_def idle_calls_def)
  moreover have "sy_shutdown idle_calls = (0, 0)" "\<And>pos n. sy_read idle_calls pos n = ((0, 0), [])" by (simp_all add: idle_calls_def)
  ultimately show ?thesis using idle_foreign unfolding calls_ok_def by auto
qed

theorem TCPSpongeSocket_tcp_main_steps_witness:
  "\<exists>s used. run_thread example_resolver (tun_adapter example_resolver) used
      (Serving [] (example_socket\<lparr>ss_tcp := Some (TCPConnection_init TCPConfig_default 0)\<rparr>)) = Some (Finished s) \<and> used = [idle_calls]"
proof -
  let ?s = "example_socket\<lparr>ss_tcp := Some (TCPConnection_init TCPConfig_default 0)\<rparr>"
  have "\<exists>t. TCPSpongeSocket_tcp_main (tun_adapter example_resolver) 0 [idle_calls] [] ?s = Some (True, [], [], t)"
    by (simp add: TCPSpongeSocket_tcp_main_def tcp_round_def EventLoop_wait_next_event_def tcp_finish_def Socket_shutdown_def SystemCall_def)
      (simp add: idle_calls_def)
  then obtain t where t: "TCPSpongeSocket_tcp_main (tun_adapter example_resolver) 0 [idle_calls] [] ?s = Some (True, [], [], t)" by blast
  have "?s\<lparr>ss_base_time := 0\<rparr> = ?s" by (simp add: example_socket_def)
  then show ?thesis using TCPSpongeSocket_tcp_main_steps [OF t, of example_resolver] by auto
qed

section \<open>Two sockets over TUN devices\<close>

text \<open>C3. Two programs with TCPSpongeSockets over TUN devices, whatever the networks and the operating systems do
  between them, refine the network of two connections: every state they reach matches a state that the
  network reaches, with the same connections, segments sent and bytes written and delivered.\<close>

theorem sponge_sockets_refine:
  assumes "(sponge_step rs (tun_adapter rs) (\<lambda>_. True) not_tcp cfg random)\<^sup>*\<^sup>* X0 X" and "sponge_init (wired rs) X0" and "capacities_ok cfg"
  shows "\<exists>x. net_step\<^sup>*\<^sup>* (net_init cfg random) x \<and> (\<forall>p. let s = thread_state (X p) in
    nw_wire x p = ss_wire s \<and> nw_written x p = ss_from_owner s \<and> nw_ended x p = ss_outbound_shutdown s \<and> nw_delivered x p = ss_to_owner s \<and>
    (case X p of Created _ \<Rightarrow> nw_conn x p = TCPConnection_init (cfg p) (random p) | Finished _ \<Rightarrow> True | _ \<Rightarrow> ss_tcp s = Some (nw_conn x p)))"
proof -
  obtain x where x: "sponge_inv rs (tun_adapter rs) (wired rs) (tun_carried rs) (\<lambda>_. True) cfg random X x"
    by (rule tun.reachable_matches [OF assms])
  then have m: "thread_matches rs (tun_adapter rs) (wired rs) (tun_carried rs) (\<lambda>_. True) cfg random p (X p) x" for p
    by (simp add: sponge_inv_def)
  show ?thesis using x m
    by (intro exI [of _ x]) (auto simp: sponge_inv_def good_network_def thread_matches_def sock_matches_def Let_def split: thread.splits)
qed

lemma started_example:
  obtains X where "(sponge_step example_resolver (tun_adapter example_resolver) (\<lambda>_. True) not_tcp example_configs (\<lambda>_. 0))\<^sup>*\<^sup>*
      (\<lambda>_. Created example_socket) X" and "\<exists>rules s. X Client = Opening connecting rules s"
proof -
  let ?step = "sponge_step example_resolver (tun_adapter example_resolver) (\<lambda>_. True) not_tcp example_configs (\<lambda>_. 0)"
  have inv: "sponge_inv example_resolver (tun_adapter example_resolver) (wired example_resolver) (tun_carried example_resolver) (\<lambda>_. True)
      example_configs (\<lambda>_. 0) (\<lambda>_. Created example_socket) (net_init example_configs (\<lambda>_. 0))"
    by (rule tun.init_matches [OF example_init example_capacities])
  have c: "ipv4_config (fa_cfg (example_adapter False))" by (auto simp: ipv4_config_def example_adapter_def)
  obtain t where t: "start example_resolver (tun_adapter example_resolver) False (example_configs Client) (fa_cfg (example_adapter False)) 0 0
      example_socket = Some t"
    by (rule tun.start_returns [OF inv refl c, of False Client 0])
  then have "?step (\<lambda>_. Created example_socket) ((\<lambda>_. Created example_socket)(Client := t))"
    by (intro sponge_start [OF _ c]) simp_all
  moreover have "\<exists>rules s. t = Opening connecting rules s" using t by (auto simp: start_def split: bind_splits)
  ultimately show ?thesis by (intro that [of "(\<lambda>_. Created example_socket)(Client := t)"]) auto
qed

theorem sponge_sockets_refine_witness:
  "\<exists>(X :: side \<Rightarrow> FdAdapterBase device_adapter TCPSpongeSocket thread) x. (\<exists>rules s. X Client = Opening connecting rules s) \<and> net_step\<^sup>*\<^sup>* (net_init example_configs (\<lambda>_. 0)) x \<and>
     ss_tcp (thread_state (X Client)) = Some (nw_conn x Client)"
proof -
  obtain X where X: "(sponge_step example_resolver (tun_adapter example_resolver) (\<lambda>_. True) not_tcp example_configs (\<lambda>_. 0))\<^sup>*\<^sup>*
      (\<lambda>_. Created example_socket) X" "\<exists>rules s. X Client = Opening connecting rules s" by (rule started_example)
  then obtain rules s where c: "X Client = Opening connecting rules s" by blast
  note r = sponge_sockets_refine [OF X(1) example_init example_capacities]
  show ?thesis
    by (intro exI [of _ X], rule ex_forward [OF r], elim conjE, drule spec [of _ Client]) (use X(2) c in \<open>simp add: Let_def\<close>)
qed

text \<open>C1. The bytes that a program gets from its socket are a prefix of the bytes that the program at the other
  end has written to its own, in every state that the two programs reach; and when the stream to the program
  was shut down after a clean end it has got all of them, and the other program had shut down its side.\<close>

theorem sponge_sockets_deliver:
  assumes "(sponge_step rs (tun_adapter rs) (\<lambda>_. True) not_tcp cfg random)\<^sup>*\<^sup>* X0 X" and "sponge_init (wired rs) X0" and "capacities_ok cfg"
  shows "prefix (ss_to_owner (thread_state (X p))) (ss_from_owner (thread_state (X (peer p)))) \<and>
    (ss_ended_cleanly (thread_state (X p)) \<longrightarrow> ss_to_owner (thread_state (X p)) = ss_from_owner (thread_state (X (peer p))) \<and>
      ss_outbound_shutdown (thread_state (X (peer p))))"
  using tun.reachable_delivers [OF assms] .


text \<open>The same for the other adapters that deliver segments.\<close>

lemma udp_sockets_deliver:
  assumes "(sponge_step rs (udp_adapter rs) ipv4_source no_segment cfg random)\<^sup>*\<^sup>* X0 X" and "sponge_init (wired rs) X0" and "capacities_ok cfg"
  shows "prefix (ss_to_owner (thread_state (X p))) (ss_from_owner (thread_state (X (peer p))))"
  using udp.reachable_delivers [OF assms] by blast

lemma lossy_tun_sockets_deliver:
  assumes "(sponge_step rs (lossy_adapter (tun_adapter rs)) (\<lambda>_. True) not_tcp cfg random)\<^sup>*\<^sup>* X0 X"
    and "sponge_init (\<lambda>ly. wired rs (ly_adapter ly)) X0" and "capacities_ok cfg"
  shows "prefix (ss_to_owner (thread_state (X p))) (ss_from_owner (thread_state (X (peer p))))"
  using lossy_tun.reachable_delivers [OF assms] by blast

lemma lossy_udp_sockets_deliver:
  assumes "(sponge_step rs (lossy_adapter (udp_adapter rs)) ipv4_source no_segment cfg random)\<^sup>*\<^sup>* X0 X"
    and "sponge_init (\<lambda>ly. wired rs (ly_adapter ly)) X0" and "capacities_ok cfg"
  shows "prefix (ss_to_owner (thread_state (X p))) (ss_from_owner (thread_state (X (peer p))))"
  using lossy_udp.reachable_delivers [OF assms] by blast

theorem sponge_sockets_deliver_witness:
  "\<exists>X. (\<exists>rules s. X Client = Opening connecting rules s) \<and>
     prefix (ss_to_owner (thread_state (X Client)) :: bytes) (ss_from_owner (thread_state (X Server) :: FdAdapterBase device_adapter TCPSpongeSocket))"
proof -
  obtain X where X: "(sponge_step example_resolver (tun_adapter example_resolver) (\<lambda>_. True) not_tcp example_configs (\<lambda>_. 0))\<^sup>*\<^sup>*
      (\<lambda>_. Created example_socket) X" "\<exists>rules s. X Client = Opening connecting rules s" by (rule started_example)
  then show ?thesis using sponge_sockets_deliver [OF X(1) example_init example_capacities, of Client] by auto
qed


section \<open>Destroying a socket\<close>

text \<open>C35. A socket that is destroyed while its connection is active sends nothing: when the owner has set the flag \<open>_abort\<close> and
  nothing is ready, the thread finishes without a datagram, although the destructor of the
  connection puts a segment with RST into its queue.\<close>

theorem sponge_abort_silent:
  assumes "ss_tcp s = Some c" and "tc_active c" and "sy_abort calls" and "sy_shutdown calls = (0, 0)"
    and "\<And>t pollfds. fst (sy_poll calls t pollfds) = (0, 0)"
    and "\<not> fd_eof (ss_thread_data s) \<and> \<not> fd_closed (ss_thread_data s)"
    and "\<not> fd_eof (ao_fd ops (ss_datagram_adapter s)) \<and> \<not> fd_closed (ao_fd ops (ss_datagram_adapter s))"
  shows "\<exists>t seg. thread_step rs ops calls (Serving (add_tcp_rules rs ops []) s) = Some (Finished t) \<and>
    ss_tcp t = None \<and> ss_wire t = ss_wire s \<and> ss_datagrams t = ss_datagrams s \<and>
    tc_segments_out (TCPConnection_destroy c) = tc_segments_out c @ [seg] \<and> th_rst (seg_header seg)"
proof -
  let ?s = "s\<lparr>ss_calls := calls\<rparr>" and ?rules = "add_tcp_rules rs ops []"
  have open_: "\<not> fd_closed (ru_fd r ?s) \<and> \<not> fd_eof (ru_fd r ?s)" if "r \<in> set ?rules" for r
    using that assms(6,7) unfolding set_tcp_rules by (auto simp: segment_rule_def outbound_rule_def inbound_rule_def send_rule_def)
  have "\<exists>r \<in> set ?rules. ru_interest r ?s"
    by (rule bexI [of _ "segment_rule rs ops"]) (use assms(1,2) in \<open>simp_all add: set_tcp_rules segment_rule_def\<close>)
  then obtain pollfds where polled: "poll_setup ?rules ?s = Some ((?rules, pollfds, True), ?s)"
    using poll_setup_open [of ?rules ?s] open_ by auto
  obtain revents where "sy_poll calls TCP_TICK_MS pollfds = ((0, 0), revents)" using assms(5) by (metis prod.collapse)
  then have wait: "EventLoop_wait_next_event (sy_poll calls) TCP_TICK_MS ?rules ?s = Some (Timeout, ?rules, ?s)"
    using polled by (simp add: EventLoop_wait_next_event_def SystemCall_def)
  have round: "tcp_round ops ?rules ?s = Some (True, ?rules, ?s)" using wait assms(3) by (simp add: tcp_round_def)
  have "\<exists>seg. tc_segments_out (TCPConnection_destroy c) = tc_segments_out c @ [seg] \<and> th_rst (seg_header seg)"
    using assms(2)
    by (cases "snd_segments_out (tc_sender c)") (auto simp: TCPConnection_destroy_def TCPConnection_enqueue_segments_def
      TCPSender_send_empty_segment_def Let_def)
  then show ?thesis using round assms(1,4) by (auto simp: tcp_finish_def Socket_shutdown_def SystemCall_def)
qed

theorem sponge_abort_silent_witness:
  "\<exists>t. thread_step example_resolver (tun_adapter example_resolver) (idle_calls\<lparr>sy_abort := True\<rparr>)
      (Serving (add_tcp_rules example_resolver (tun_adapter example_resolver) [])
        (example_socket\<lparr>ss_tcp := Some (TCPConnection_init TCPConfig_default 0)\<rparr>)) = Some (Finished t) \<and> ss_datagrams t = []"
proof -
  let ?s = "example_socket\<lparr>ss_tcp := Some (TCPConnection_init TCPConfig_default 0)\<rparr>" and ?calls = "idle_calls\<lparr>sy_abort := True\<rparr>"
  have "ss_tcp ?s = Some (TCPConnection_init TCPConfig_default 0)" "tc_active (TCPConnection_init TCPConfig_default 0)"
    "sy_abort ?calls" "sy_shutdown ?calls = (0, 0)" "\<And>t pollfds. fst (sy_poll ?calls t pollfds) = (0, 0)"
    "\<not> fd_eof (ss_thread_data ?s) \<and> \<not> fd_closed (ss_thread_data ?s)"
    "\<not> fd_eof (ao_fd (tun_adapter example_resolver) (ss_datagram_adapter ?s)) \<and>
      \<not> fd_closed (ao_fd (tun_adapter example_resolver) (ss_datagram_adapter ?s))"
    by (simp_all add: idle_calls_def) (simp_all add: example_socket_def example_fd_def tun_adapter_def)
  from sponge_abort_silent [OF this, of example_resolver] show ?thesis by (auto simp: example_socket_def)
qed

end
