(* ===== verification/Sockets.thy ===== *)
theory Sockets
  imports Socket_Address File_Descriptor
begin

unbundle bit_operations_syntax

text \<open>
  Socket, UDPSocket, TCPSocket and LocalStreamSocket (libsponge/util/socket.hh, socket.cc), except for
  sending and receiving datagrams, which is in theory Datagram\_Adapters, and TunTapFD
  (libsponge/util/tun.cc). The kernel is an argument: a record of the system calls over a state of
  its own. A system call returns a number and the \<open>errno\<close> it leaves. Exceptions are \<open>None\<close>.

  What is relied on is \<open>kernel_ok\<close>: a socket that is created has the domain and type that were asked for,
  an accepted connection has those of the listening socket, \<open>getsockopt\<close> tells them, and only closing a
  descriptor takes them away.
\<close>

section \<open>The kernel\<close>

type_synonym 'k call = "'k \<Rightarrow> (int \<times> int) \<times> 'k"

record 'k kernel =
  sk_socket :: "int \<Rightarrow> int \<Rightarrow> 'k call"
  sk_getsockopt :: "int \<Rightarrow> int \<Rightarrow> int \<Rightarrow> 'k \<Rightarrow> (int \<times> int) \<times> (int \<times> nat)"
  sk_setsockopt :: "int \<Rightarrow> int \<Rightarrow> int \<Rightarrow> int \<Rightarrow> 'k call"
  sk_getsockname :: "int \<Rightarrow> nat \<Rightarrow> 'k \<Rightarrow> (int \<times> int) \<times> (bytes \<times> nat)"
  sk_getpeername :: "int \<Rightarrow> nat \<Rightarrow> 'k \<Rightarrow> (int \<times> int) \<times> (bytes \<times> nat)"
  sk_bind :: "int \<Rightarrow> bytes \<Rightarrow> 'k call"
  sk_connect :: "int \<Rightarrow> bytes \<Rightarrow> 'k call"
  sk_listen :: "int \<Rightarrow> int \<Rightarrow> 'k call"
  sk_accept :: "int \<Rightarrow> 'k call"
  sk_shutdown :: "int \<Rightarrow> How \<Rightarrow> 'k call"
  sk_close :: "int \<Rightarrow> 'k call"
  sk_open :: "string \<Rightarrow> 'k call"
  sk_tunsetiff :: "int \<Rightarrow> string \<Rightarrow> u16 \<Rightarrow> 'k call"

text \<open>A call that throws when it fails.\<close>

definition checked :: "(int \<times> int) \<times> 'k \<Rightarrow> (int \<times> 'k) option" where
  "checked result = (let ((return_value, errno), k) = result in map_option (\<lambda>n. (n, k)) (SystemCall return_value errno 0))"

definition AF_UNIX :: nat where "AF_UNIX = 1"
definition SOCK_STREAM :: int where "SOCK_STREAM = 1"
definition SOCK_DGRAM :: int where "SOCK_DGRAM = 2"
definition SOL_SOCKET :: int where "SOL_SOCKET = 1"
definition SO_REUSEADDR :: int where "SO_REUSEADDR = 2"
definition SO_TYPE :: int where "SO_TYPE = 3"
definition SO_DOMAIN :: int where "SO_DOMAIN = 39"
definition sizeof_int :: nat where "sizeof_int = 4"

section \<open>Socket\<close>

definition Socket_init :: "'k kernel \<Rightarrow> int \<Rightarrow> int \<Rightarrow> 'k \<Rightarrow> (FDWrapper \<times> 'k) option" where
  "Socket_init os domain type k = do {
     (fd, k) \<leftarrow> checked (sk_socket os domain type k);
     s \<leftarrow> FDWrapper_init fd;
     Some (s, k)
   }"

text \<open>The constructor from a file descriptor verifies the domain and the type.\<close>

definition Socket_of_fd :: "'k kernel \<Rightarrow> FDWrapper \<Rightarrow> int \<Rightarrow> int \<Rightarrow> 'k \<Rightarrow> FDWrapper option" where
  "Socket_of_fd os fd domain type k = do {
     (_, (actual_value, len)) \<leftarrow> checked (sk_getsockopt os (fd_fd fd) SOL_SOCKET SO_DOMAIN k);
     if len \<noteq> sizeof_int \<or> actual_value \<noteq> domain then None
     else do {
       (_, (actual_value, len)) \<leftarrow> checked (sk_getsockopt os (fd_fd fd) SOL_SOCKET SO_TYPE k);
       if len \<noteq> sizeof_int \<or> actual_value \<noteq> type then None else Some fd
     }
   }"

definition Socket_get_address ::
  "(int \<Rightarrow> nat \<Rightarrow> 'k \<Rightarrow> (int \<times> int) \<times> (bytes \<times> nat)) \<Rightarrow> FDWrapper \<Rightarrow> 'k \<Rightarrow> Address option" where
  "Socket_get_address function s k = do {
     (_, (address, size)) \<leftarrow> checked (function (fd_fd s) sizeof_sockaddr_storage k);
     Address_of_sockaddr address size
   }"

definition Socket_local_address :: "'k kernel \<Rightarrow> FDWrapper \<Rightarrow> 'k \<Rightarrow> Address option" where
  "Socket_local_address os s k = Socket_get_address (sk_getsockname os) s k"

definition Socket_peer_address :: "'k kernel \<Rightarrow> FDWrapper \<Rightarrow> 'k \<Rightarrow> Address option" where
  "Socket_peer_address os s k = Socket_get_address (sk_getpeername os) s k"

text \<open>The bytes of an address that are passed to the kernel.\<close>

definition sockaddr_of :: "Address \<Rightarrow> bytes" where
  "sockaddr_of address = take (ad_size address) (ad_storage address)"

definition Socket_bind :: "'k kernel \<Rightarrow> Address \<Rightarrow> FDWrapper \<Rightarrow> 'k \<Rightarrow> 'k option" where
  "Socket_bind os address s k = map_option snd (checked (sk_bind os (fd_fd s) (sockaddr_of address) k))"

definition Socket_connect :: "'k kernel \<Rightarrow> Address \<Rightarrow> FDWrapper \<Rightarrow> 'k \<Rightarrow> 'k option" where
  "Socket_connect os address s k = map_option snd (checked (sk_connect os (fd_fd s) (sockaddr_of address) k))"

definition Socket_shutdown_call :: "'k kernel \<Rightarrow> How \<Rightarrow> FDWrapper \<Rightarrow> 'k \<Rightarrow> (FDWrapper \<times> 'k) option" where
  "Socket_shutdown_call os how s k =
     (let (result, k) = sk_shutdown os (fd_fd s) how k in map_option (\<lambda>s. (s, k)) (Socket_shutdown result how s))"

definition Socket_setsockopt :: "'k kernel \<Rightarrow> int \<Rightarrow> int \<Rightarrow> int \<Rightarrow> FDWrapper \<Rightarrow> 'k \<Rightarrow> 'k option" where
  "Socket_setsockopt os level option option_value s k =
     map_option snd (checked (sk_setsockopt os (fd_fd s) level option option_value k))"

definition Socket_set_reuseaddr :: "'k kernel \<Rightarrow> FDWrapper \<Rightarrow> 'k \<Rightarrow> 'k option" where
  "Socket_set_reuseaddr os s k = Socket_setsockopt os SOL_SOCKET SO_REUSEADDR 1 s k"

section \<open>UDPSocket, TCPSocket and LocalStreamSocket\<close>

datatype socket_class = UDP_socket | TCP_socket | Local_stream_socket

fun domain_of :: "socket_class \<Rightarrow> int" where
  "domain_of UDP_socket = int AF_INET"
| "domain_of TCP_socket = int AF_INET"
| "domain_of Local_stream_socket = int AF_UNIX"

fun type_of :: "socket_class \<Rightarrow> int" where
  "type_of UDP_socket = SOCK_DGRAM"
| "type_of TCP_socket = SOCK_STREAM"
| "type_of Local_stream_socket = SOCK_STREAM"

definition UDPSocket_init :: "'k kernel \<Rightarrow> 'k \<Rightarrow> (FDWrapper \<times> 'k) option" where
  "UDPSocket_init os k = Socket_init os (domain_of UDP_socket) (type_of UDP_socket) k"

definition UDPSocket_of_fd :: "'k kernel \<Rightarrow> FDWrapper \<Rightarrow> 'k \<Rightarrow> FDWrapper option" where
  "UDPSocket_of_fd os fd k = Socket_of_fd os fd (domain_of UDP_socket) (type_of UDP_socket) k"

definition TCPSocket_init :: "'k kernel \<Rightarrow> 'k \<Rightarrow> (FDWrapper \<times> 'k) option" where
  "TCPSocket_init os k = Socket_init os (domain_of TCP_socket) (type_of TCP_socket) k"

definition TCPSocket_of_fd :: "'k kernel \<Rightarrow> FDWrapper \<Rightarrow> 'k \<Rightarrow> FDWrapper option" where
  "TCPSocket_of_fd os fd k = Socket_of_fd os fd (domain_of TCP_socket) (type_of TCP_socket) k"

definition LocalStreamSocket_of_fd :: "'k kernel \<Rightarrow> FDWrapper \<Rightarrow> 'k \<Rightarrow> FDWrapper option" where
  "LocalStreamSocket_of_fd os fd k = Socket_of_fd os fd (domain_of Local_stream_socket) (type_of Local_stream_socket) k"

definition TCPSocket_listen :: "'k kernel \<Rightarrow> int \<Rightarrow> FDWrapper \<Rightarrow> 'k \<Rightarrow> 'k option" where
  "TCPSocket_listen os backlog s k = map_option snd (checked (sk_listen os (fd_fd s) backlog k))"

text \<open>The new socket, and the listening socket with the read registered.\<close>

definition TCPSocket_accept :: "'k kernel \<Rightarrow> FDWrapper \<Rightarrow> 'k \<Rightarrow> (FDWrapper \<times> FDWrapper \<times> 'k) option" where
  "TCPSocket_accept os s k = do {
     let s = register_read s;
     (fd, k) \<leftarrow> checked (sk_accept os (fd_fd s) k);
     w \<leftarrow> FDWrapper_init fd;
     accepted \<leftarrow> TCPSocket_of_fd os w k;
     Some (accepted, s, k)
   }"

section \<open>TunTapFD\<close>

definition CLONEDEV :: string where "CLONEDEV = ''/dev/net/tun''"
definition IFF_TUN :: u16 where "IFF_TUN = 1"
definition IFF_TAP :: u16 where "IFF_TAP = 2"
definition IFF_NO_PI :: u16 where "IFF_NO_PI = 0x1000"
definition IFNAMSIZ :: nat where "IFNAMSIZ = 16"

text \<open>\<open>strncpy\<close> stops at the end of the string and fills the rest with zeros.\<close>

definition strncpy :: "string \<Rightarrow> nat \<Rightarrow> string" where
  "strncpy s n = (let t = take n (takeWhile (\<lambda>c. c \<noteq> CHR 0x00) s) in t @ replicate (n - length t) (CHR 0x00))"

definition TunTapFD_init :: "'k kernel \<Rightarrow> string \<Rightarrow> bool \<Rightarrow> 'k \<Rightarrow> (FDWrapper \<times> 'k) option" where
  "TunTapFD_init os devname is_tun k = do {
     (n, k) \<leftarrow> checked (sk_open os CLONEDEV k);
     fd \<leftarrow> FDWrapper_init n;
     let ifr_flags = (if is_tun then IFF_TUN else IFF_TAP) OR IFF_NO_PI;
     let ifr_name = strncpy devname (IFNAMSIZ - 1) @ [CHR 0x00];
     (_, k) \<leftarrow> checked (sk_tunsetiff os (fd_fd fd) ifr_name ifr_flags k);
     Some (fd, k)
   }"

section \<open>What the kernel promises\<close>

text \<open>\<open>kind k n\<close> is the domain and type of the socket that the descriptor \<open>n\<close> stands for, if it is one. A call
  that \<open>keeps\<close> the sockets may create others.\<close>

definition keeps :: "('k \<Rightarrow> int \<Rightarrow> (int \<times> int) option) \<Rightarrow> 'k call \<Rightarrow> bool" where
  "keeps kind call \<longleftrightarrow> (\<forall>k. \<forall>n. kind k n \<noteq> None \<longrightarrow> kind (snd (call k)) n = kind k n)"

definition kernel_ok :: "'k kernel \<Rightarrow> ('k \<Rightarrow> int \<Rightarrow> (int \<times> int) option) \<Rightarrow> bool" where
  "kernel_ok os kind \<longleftrightarrow>
     (\<forall>d t k n e k'. sk_socket os d t k = ((n, e), k') \<longrightarrow> 0 \<le> n \<longrightarrow> kind k n = None \<and> kind k' n = Some (d, t)) \<and>
     (\<forall>fd k n e k'. sk_accept os fd k = ((n, e), k') \<longrightarrow> 0 \<le> n \<longrightarrow> kind k n = None \<and> kind k' n = kind k fd) \<and>
     (\<forall>fd d t k. kind k fd = Some (d, t) \<longrightarrow> sk_getsockopt os fd SOL_SOCKET SO_DOMAIN k = ((0, 0), (d, sizeof_int)) \<and>
        sk_getsockopt os fd SOL_SOCKET SO_TYPE k = ((0, 0), (t, sizeof_int))) \<and>
     (\<forall>fd option k. kind k fd = None \<longrightarrow> fst (fst (sk_getsockopt os fd SOL_SOCKET option k)) < 0 \<and>
        snd (fst (sk_getsockopt os fd SOL_SOCKET option k)) \<noteq> 0) \<and>
     (\<forall>d t. keeps kind (sk_socket os d t)) \<and> (\<forall>fd. keeps kind (sk_accept os fd)) \<and>
     (\<forall>fd l p v. keeps kind (sk_setsockopt os fd l p v)) \<and> (\<forall>fd a. keeps kind (sk_bind os fd a)) \<and>
     (\<forall>fd a. keeps kind (sk_connect os fd a)) \<and> (\<forall>fd b. keeps kind (sk_listen os fd b)) \<and>
     (\<forall>fd h. keeps kind (sk_shutdown os fd h)) \<and>
     (\<forall>fd n k. n \<noteq> fd \<longrightarrow> kind (snd (sk_close os fd k)) n = kind k n)"

lemma kernel_okD:
  assumes "kernel_ok os kind"
  shows "sk_socket os d t k = ((n, e), k') \<Longrightarrow> 0 \<le> n \<Longrightarrow> kind k n = None \<and> kind k' n = Some (d, t)"
    and "sk_accept os fd k = ((n, e), k') \<Longrightarrow> 0 \<le> n \<Longrightarrow> kind k n = None \<and> kind k' n = kind k fd"
    and "kind k fd = Some (d, t) \<Longrightarrow> sk_getsockopt os fd SOL_SOCKET SO_DOMAIN k = ((0, 0), (d, sizeof_int))"
    and "kind k fd = Some (d, t) \<Longrightarrow> sk_getsockopt os fd SOL_SOCKET SO_TYPE k = ((0, 0), (t, sizeof_int))"
    and "kind k fd = None \<Longrightarrow> fst (fst (sk_getsockopt os fd SOL_SOCKET opt k)) < 0 \<and> snd (fst (sk_getsockopt os fd SOL_SOCKET opt k)) \<noteq> 0"
    and "n \<noteq> fd \<Longrightarrow> kind (snd (sk_close os fd k)) n = kind k n"
  using assms unfolding kernel_ok_def by (elim conjE, simp)+

lemma kernel_ok_keeps:
  assumes "kernel_ok os kind"
  shows "keeps kind (sk_socket os d t)" "keeps kind (sk_accept os fd)" "keeps kind (sk_setsockopt os fd l p v)"
    "keeps kind (sk_bind os fd a)" "keeps kind (sk_connect os fd a)" "keeps kind (sk_listen os fd b)" "keeps kind (sk_shutdown os fd h)"
  using assms by (simp_all add: kernel_ok_def)

section \<open>Programs with sockets\<close>

text \<open>The sockets a program has, each with its class, and what it may do with them: construct one, also from
  a file descriptor that no other object owns, accept a connection, call a method of one, and destroy one, which closes its descriptor.\<close>

type_synonym sockets = "(socket_class \<times> FDWrapper) list"

definition owned :: "sockets \<Rightarrow> int set" where
  "owned objs = (\<lambda>(_, s). fd_fd s) ` set objs"

inductive socket_step :: "'k kernel \<Rightarrow> 'k \<times> sockets \<Rightarrow> 'k \<times> sockets \<Rightarrow> bool" for os where
  construct: "socket_step os (k, objs) (k', (c, s) # objs)"
    if "Socket_init os (domain_of c) (type_of c) k = Some (s, k')"
| adopt: "socket_step os (k, objs) (k, (c, s) # objs)"
    if "FDWrapper_init n = Some fd" and "n \<notin> owned objs" and "Socket_of_fd os fd (domain_of c) (type_of c) k = Some s"
| accept: "socket_step os (k, front @ (TCP_socket, s) # rest) (k', (TCP_socket, t) # front @ (TCP_socket, s') # rest)"
    if "TCPSocket_accept os s k = Some (t, s', k')"
| bind: "socket_step os (k, objs) (k', objs)" if "(c, s) \<in> set objs" and "Socket_bind os address s k = Some k'"
| connect: "socket_step os (k, objs) (k', objs)" if "(c, s) \<in> set objs" and "Socket_connect os address s k = Some k'"
| listen: "socket_step os (k, objs) (k', objs)" if "(TCP_socket, s) \<in> set objs" and "TCPSocket_listen os backlog s k = Some k'"
| set_reuseaddr: "socket_step os (k, objs) (k', objs)" if "(c, s) \<in> set objs" and "Socket_set_reuseaddr os s k = Some k'"
| shutdown: "socket_step os (k, front @ (c, s) # rest) (k', front @ (c, s') # rest)"
    if "Socket_shutdown_call os how s k = Some (s', k')"
| close: "socket_step os (k, front @ (c, s) # rest) (k', front @ rest)"
    if "sk_close os (fd_fd s) k = (result, k')"

definition well_typed :: "('k \<Rightarrow> int \<Rightarrow> (int \<times> int) option) \<Rightarrow> 'k \<times> sockets \<Rightarrow> bool" where
  "well_typed kind x \<longleftrightarrow> distinct (map (\<lambda>(_, s). fd_fd s) (snd x)) \<and>
     (\<forall>(c, s) \<in> set (snd x). kind (fst x) (fd_fd s) = Some (domain_of c, type_of c))"

lemma checked_Some: "checked r = Some (n, k) \<longleftrightarrow> (\<exists>e. r = ((n, e), k) \<and> (0 \<le> n \<or> e = 0))"
  by (cases r) (auto simp: checked_def SystemCall_def split: if_splits)

lemma FDWrapper_init_Some: "FDWrapper_init n = Some fd \<Longrightarrow> fd_fd fd = n \<and> 0 \<le> n"
  by (auto simp: FDWrapper_init_def split: if_splits)

lemma owned_kind: "well_typed kind (k, objs) \<Longrightarrow> n \<in> owned objs \<Longrightarrow> kind k n \<noteq> None"
  by (fastforce simp: well_typed_def owned_def)

lemma keepsD: "keeps kind call \<Longrightarrow> call k = (r, k') \<Longrightarrow> kind k n \<noteq> None \<Longrightarrow> kind k' n = kind k n"
  unfolding keeps_def by (metis snd_conv)

lemma well_typed_kept:
  assumes "well_typed kind (k, objs)" and "keeps kind call" and "call k = (r, k')"
  shows "well_typed kind (k', objs)"
  using assms(1) keepsD [OF assms(2,3)] by (fastforce simp: well_typed_def)

lemma well_typed_called:
  assumes "well_typed kind (k, objs)" and "keeps kind call" and "map_option snd (checked (call k)) = Some k'"
  shows "well_typed kind (k', objs)"
  using assms(3) by (auto simp: checked_Some intro: well_typed_kept [OF assms(1,2)])

lemma well_typed_add:
  assumes "well_typed kind (k, objs)" and "fd_fd s \<notin> owned objs" and "kind k (fd_fd s) = Some (domain_of c, type_of c)"
  shows "well_typed kind (k, (c, s) # objs)"
  using assms by (auto simp: well_typed_def owned_def)

lemma well_typed_replace:
  assumes "well_typed kind (k, front @ (c, s) # rest)" and "fd_fd s' = fd_fd s"
  shows "well_typed kind (k, front @ (c, s') # rest)"
  using assms by (auto simp: well_typed_def)

text \<open>The constructors return a socket of the right domain and type.\<close>

lemma Socket_init_typed:
  assumes "kernel_ok os kind" and "Socket_init os d t k = Some (s, k')"
  shows "kind k (fd_fd s) = None" and "kind k' (fd_fd s) = Some (d, t)" and "\<exists>r. sk_socket os d t k = (r, k')"
proof -
  obtain n e where n: "sk_socket os d t k = ((n, e), k')" "FDWrapper_init n = Some s"
    using assms(2) by (auto simp: Socket_init_def checked_Some bind_eq_Some_conv)
  have "kind k n = None \<and> kind k' n = Some (d, t)"
    using kernel_okD(1) [OF assms(1) n(1)] FDWrapper_init_Some [OF n(2)] by simp
  then show "kind k (fd_fd s) = None" "kind k' (fd_fd s) = Some (d, t)" using FDWrapper_init_Some [OF n(2)] by simp_all
  show "\<exists>r. sk_socket os d t k = (r, k')" using n(1) by blast
qed

lemma Socket_of_fd_typed:
  assumes "kernel_ok os kind"
  shows "Socket_of_fd os fd d t k = (if kind k (fd_fd fd) = Some (d, t) then Some fd else None)"
proof (cases "kind k (fd_fd fd)")
  case None
  then obtain n e r where "sk_getsockopt os (fd_fd fd) SOL_SOCKET SO_DOMAIN k = ((n, e), r)" "n < 0" "e \<noteq> 0"
    using kernel_okD(5) [OF assms, of k "fd_fd fd" SO_DOMAIN] by (metis prod.collapse)
  then show ?thesis using None by (simp add: Socket_of_fd_def checked_def SystemCall_def)
next
  case (Some x)
  obtain d' t' where x: "x = (d', t')" by (cases x)
  have "sk_getsockopt os (fd_fd fd) SOL_SOCKET SO_DOMAIN k = ((0, 0), (d', sizeof_int))"
    "sk_getsockopt os (fd_fd fd) SOL_SOCKET SO_TYPE k = ((0, 0), (t', sizeof_int))"
    using kernel_okD(3,4) [OF assms] Some x by blast+
  then show ?thesis using Some x by (simp add: Socket_of_fd_def checked_def SystemCall_def)
qed

lemma TCPSocket_accept_typed:
  assumes ok: "kernel_ok os kind" and s: "kind k (fd_fd s) = Some (domain_of TCP_socket, type_of TCP_socket)"
    and n: "sk_accept os (fd_fd s) k = ((n, e), k')" "0 \<le> n"
  obtains t where "TCPSocket_accept os s k = Some (t, register_read s, k')" and "fd_fd t = n" and "kind k n = None"
    and "kind k' n = Some (domain_of TCP_socket, type_of TCP_socket)"
proof -
  have kinds: "kind k n = None" "kind k' n = Some (domain_of TCP_socket, type_of TCP_socket)" using kernel_okD(2) [OF ok n] s by simp_all
  obtain w where w: "FDWrapper_init n = Some w" "fd_fd w = n" using n(2) by (auto simp: FDWrapper_init_def)
  have r: "fd_fd (register_read s) = fd_fd s" by (simp add: register_read_def)
  have "checked (sk_accept os (fd_fd s) k) = Some (n, k')" using n by (simp add: checked_Some)
  then have "TCPSocket_accept os s k = Some (w, register_read s, k')"
    using kinds(2) by (simp add: TCPSocket_accept_def r w TCPSocket_of_fd_def Socket_of_fd_typed [OF ok])
  then show ?thesis using kinds w(2) by (intro that) simp_all
qed

lemma socket_step_typed:
  assumes "socket_step os x y" and ok: "kernel_ok os kind" and "well_typed kind x"
  shows "well_typed kind y"
  using assms(1,3)
proof (induction rule: socket_step.induct)
  case (construct c k s k' objs)
  note t = Socket_init_typed [OF ok construct.hyps]
  have "fd_fd s \<notin> owned objs" using owned_kind [OF construct.prems] t(1) by blast
  then show ?case using t(2,3) well_typed_kept [OF construct.prems kernel_ok_keeps(1) [OF ok]] by (blast intro: well_typed_add)
next
  case (adopt n fd objs c k s)
  then have "kind k (fd_fd s) = Some (domain_of c, type_of c)" "fd_fd s \<notin> owned objs"
    using FDWrapper_init_Some [of n fd] by (auto simp: Socket_of_fd_typed [OF ok] split: if_splits)
  then show ?case using adopt.prems by (intro well_typed_add)
next
  case (accept s k t s' k' front rest)
  have s: "kind k (fd_fd s) = Some (domain_of TCP_socket, type_of TCP_socket)" using accept.prems by (simp add: well_typed_def)
  obtain n e where n: "sk_accept os (fd_fd s) k = ((n, e), k')" "0 \<le> n"
    using accept.hyps FDWrapper_init_Some by (fastforce simp: TCPSocket_accept_def checked_Some register_read_def bind_eq_Some_conv)
  obtain u where u: "TCPSocket_accept os s k = Some (u, register_read s, k')" "fd_fd u = n" "kind k n = None"
    "kind k' n = Some (domain_of TCP_socket, type_of TCP_socket)" by (rule TCPSocket_accept_typed [OF ok s n])
  have eq: "t = u" "s' = register_read s" using u(1) accept.hyps by simp_all
  have "well_typed kind (k', front @ (TCP_socket, s) # rest)"
    by (rule well_typed_kept [OF accept.prems kernel_ok_keeps(2) [OF ok] n(1)])
  then have "well_typed kind (k', front @ (TCP_socket, s') # rest)" by (rule well_typed_replace) (simp add: eq register_read_def)
  moreover have "owned (front @ (TCP_socket, s') # rest) = owned (front @ (TCP_socket, s) # rest)"
    by (simp add: eq owned_def register_read_def)
  then have "fd_fd t \<notin> owned (front @ (TCP_socket, s') # rest)" using owned_kind [OF accept.prems, of n] u(2,3) eq(1) by auto
  ultimately show ?case using u(2,4) eq(1) by (intro well_typed_add) simp_all
next
  case (shutdown how s k s' k' front c rest)
  then obtain r where r: "sk_shutdown os (fd_fd s) how k = (r, k')" "Socket_shutdown r how s = Some s'"
    by (auto simp: Socket_shutdown_call_def split: prod.splits)
  then have fd: "fd_fd s' = fd_fd s"
    by (cases how) (auto simp: Socket_shutdown_def register_read_def register_write_def bind_eq_Some_conv)
  have "well_typed kind (k', front @ (c, s) # rest)" by (rule well_typed_kept [OF shutdown.prems kernel_ok_keeps(7) [OF ok] r(1)])
  then show ?case by (rule well_typed_replace) (rule fd)
next
  case (close s k result k' front c rest)
  have kept: "kind k' n = kind k n" if "n \<noteq> fd_fd s" for n using kernel_okD(6) [OF ok that, of k] close.hyps by simp
  have other: "fd_fd s \<notin> (\<lambda>(_, s). fd_fd s) ` set (front @ rest)"
    using close.prems unfolding well_typed_def by simp blast
  have "kind k' (fd_fd t) = Some (domain_of d, type_of d)" if t: "(d, t) \<in> set (front @ rest)" for d t
  proof -
    have "fd_fd t \<noteq> fd_fd s" using other t by (metis case_prod_conv imageI)
    moreover have "kind k (fd_fd t) = Some (domain_of d, type_of d)" using close.prems t by (auto simp: well_typed_def)
    ultimately show ?thesis by (simp add: kept)
  qed
  then show ?case using close.prems by (auto simp: well_typed_def)
next
  case (bind c s objs address k k')
  show ?case by (rule well_typed_called [OF bind.prems kernel_ok_keeps(4) [OF ok] bind.hyps(2) [unfolded Socket_bind_def]])
next
  case (connect c s objs address k k')
  show ?case by (rule well_typed_called [OF connect.prems kernel_ok_keeps(5) [OF ok] connect.hyps(2) [unfolded Socket_connect_def]])
next
  case (listen s objs backlog k k')
  show ?case by (rule well_typed_called [OF listen.prems kernel_ok_keeps(6) [OF ok] listen.hyps(2) [unfolded TCPSocket_listen_def]])
next
  case (set_reuseaddr c s objs k k')
  show ?case
    by (rule well_typed_called [OF set_reuseaddr.prems kernel_ok_keeps(3) [OF ok]
      set_reuseaddr.hyps(2) [unfolded Socket_set_reuseaddr_def Socket_setsockopt_def]])
qed

section \<open>The property\<close>


text \<open>A kernel whose descriptors are numbers of a list of sockets that never shrinks.\<close>

definition example_kind :: "(int \<times> int) list \<Rightarrow> int \<Rightarrow> (int \<times> int) option" where
  "example_kind k n = (if 0 \<le> n \<and> nat n < length k then Some (k ! nat n) else None)"

definition example_new :: "(int \<times> int) option \<Rightarrow> (int \<times> int) list call" where
  "example_new x k = (case x of None \<Rightarrow> ((-1, 9), k) | Some x \<Rightarrow> ((int (length k), 0), k @ [x]))"

definition example_kernel :: "(int \<times> int) list kernel" where
  "example_kernel = \<lparr>sk_socket = (\<lambda>d t. example_new (Some (d, t))),
     sk_getsockopt = (\<lambda>fd l p k. case example_kind k fd of None \<Rightarrow> ((-1, 9), (0, 0))
       | Some (d, t) \<Rightarrow> ((0, 0), (if p = SO_DOMAIN then d else t, sizeof_int))),
     sk_setsockopt = (\<lambda>fd l p v k. ((0, 0), k)), sk_getsockname = (\<lambda>fd n k. ((0, 0), ([], 0))),
     sk_getpeername = (\<lambda>fd n k. ((0, 0), ([], 0))), sk_bind = (\<lambda>fd a k. ((0, 0), k)), sk_connect = (\<lambda>fd a k. ((0, 0), k)),
     sk_listen = (\<lambda>fd b k. ((0, 0), k)), sk_accept = (\<lambda>fd k. example_new (example_kind k fd) k), sk_shutdown = (\<lambda>fd h k. ((0, 0), k)),
     sk_close = (\<lambda>fd k. ((-1, 9), k)), sk_open = (\<lambda>path k. ((-1, 2), k)), sk_tunsetiff = (\<lambda>fd name flags k. ((-1, 1), k))\<rparr>"

lemma example_kernel_ok: "kernel_ok example_kernel example_kind"
  by (auto simp: kernel_ok_def keeps_def example_kernel_def example_new_def example_kind_def nth_append SO_DOMAIN_def SO_TYPE_def
    split: option.splits if_splits)


end
