(* ===== verification/Hex_Dump.thy ===== *)
theory Hex_Dump
  imports Text_Output
begin

unbundle bit_operations_syntax

text \<open>
  \<open>hexdump\<close> (libsponge/util/util.cc): what it prints of a string of bytes, as a list of characters. The
  loop is compared with a reference form, rows of sixteen bytes with aligned columns.
\<close>

section \<open>String streams\<close>

text \<open>A \<open>stringstream\<close> is its characters and the position where the next character goes. It starts at the
  front, also when the stream is given characters, and what is there is written over.\<close>

type_synonym stringstream = "string \<times> nat"

definition stringstream_of :: "string \<Rightarrow> stringstream" where
  "stringstream_of s = (s, 0)"

definition stringstream_put :: "stringstream \<Rightarrow> char \<Rightarrow> stringstream" where
  "stringstream_put ss c = (let (s, p) = ss in (take p s @ [c] @ drop (Suc p) s, Suc p))"

definition stringstream_str :: "stringstream \<Rightarrow> string" where
  "stringstream_str ss = fst ss"

section \<open>hexdump\<close>

definition isprint :: "u8 \<Rightarrow> bool" where
  "isprint b \<longleftrightarrow> 0x20 \<le> b \<and> b \<le> 0x7e"

definition spaces :: "nat \<Rightarrow> string" where
  "spaces n = replicate n (CHR '' '')"

fun hexdump_loop :: "string \<Rightarrow> bytes \<Rightarrow> nat \<Rightarrow> stringstream \<Rightarrow> string \<Rightarrow> nat \<times> stringstream \<times> string" where
  "hexdump_loop indent_string [] printed pchars out = (printed, pchars, out)"
| "hexdump_loop indent_string (b # data) printed pchars out =
     (let (pchars, out) =
        (if printed AND 0xf = 0
         then (let (pchars, out) =
                 (if printed \<noteq> 0
                  then (stringstream_of '' '', out @ spaces 4 @ stringstream_str pchars @ newline)
                  else (pchars, out)) in
               (pchars, out @ indent_string @ zero_filled 8 (hex_string printed) @ '':    ''))
         else if printed AND 1 = 0 then (pchars, out @ '' '')
         else (pchars, out)) in
      hexdump_loop indent_string data (printed + 1)
        (stringstream_put pchars (if isprint b then char_of (unat b) else CHR ''.''))
        (out @ zero_filled 2 (hex_string (unat b))))"

definition hexdump :: "bytes \<Rightarrow> nat \<Rightarrow> string" where
  "hexdump data indent =
     (let (printed, pchars, out) = hexdump_loop (spaces indent) data 0 (stringstream_of '' '') '''';
          print_rem = (16 - (printed AND 0xf)) mod 16 in
      out @ spaces (2 * print_rem + print_rem div 2 + 4) @ stringstream_str pchars @ newline @ newline)"

section \<open>The reference form\<close>

text \<open>The bytes of a row in pairs, and its characters.\<close>

fun byte_pairs :: "bytes \<Rightarrow> string" where
  "byte_pairs (a # b # c # bs) = zero_filled 2 (hex_string (unat a)) @ zero_filled 2 (hex_string (unat b)) @ '' '' @ byte_pairs (c # bs)"
| "byte_pairs [a, b] = zero_filled 2 (hex_string (unat a)) @ zero_filled 2 (hex_string (unat b))"
| "byte_pairs [a] = zero_filled 2 (hex_string (unat a))"
| "byte_pairs [] = ''''"

definition row_text :: "bytes \<Rightarrow> string" where
  "row_text bs = map (\<lambda>b. if isprint b then char_of (unat b) else CHR ''.'') bs"

text \<open>The column of bytes is 39 characters wide.\<close>

definition dump_row :: "nat \<Rightarrow> nat \<Rightarrow> bytes \<Rightarrow> string" where
  "dump_row indent start bs = spaces indent @ zero_filled 8 (hex_string start) @ '':    '' @
     byte_pairs bs @ spaces (39 - length (byte_pairs bs)) @ spaces 4 @ row_text bs @ newline"

function dump_rows :: "nat \<Rightarrow> nat \<Rightarrow> bytes \<Rightarrow> string" where
  "dump_rows indent start bs = (if bs = [] then ''''
     else dump_row indent start (take 16 bs) @ dump_rows indent (start + 16) (drop 16 bs))"
  by pat_completeness auto
termination by (relation "measure (\<lambda>(_, _, bs). length bs)") auto

declare dump_rows.simps [simp del]

section \<open>The loop prints the reference form\<close>

lemma low_bits: "n AND 15 = n mod 16" "n AND 1 = n mod 2" for n :: nat
  using take_bit_eq_mask [of 4 n] by (simp_all add: take_bit_eq_mod mask_eq_exp_minus_1 and_one_eq)

lemma length_hex_byte: "length (zero_filled 2 (hex_string (unat b))) = 2" for b :: u8
  using hex_byte [of b] by auto

lemma length_byte_pairs: "length (byte_pairs bs) = 2 * length bs + (length bs - 1) div 2"
  by (induction bs rule: byte_pairs.induct) (auto simp: length_hex_byte)

lemma byte_pairs_snoc:
  "byte_pairs (bs @ [b]) = byte_pairs bs @ (if bs \<noteq> [] \<and> even (length bs) then '' '' else '''') @ zero_filled 2 (hex_string (unat b))"
  by (induction bs rule: byte_pairs.induct) auto

lemma hexdump_loop_append:
  "hexdump_loop ind (xs @ ys) n p out = (case hexdump_loop ind xs n p out of (n, p, out) \<Rightarrow> hexdump_loop ind ys n p out)"
  by (induction xs arbitrary: n p out) (simp_all add: case_prod_beta Let_def)

text \<open>The output before a row: the characters of the row before it.\<close>

definition row_ended :: "nat \<Rightarrow> stringstream \<Rightarrow> string \<Rightarrow> string" where
  "row_ended n p out = (if n \<noteq> 0 then out @ spaces 4 @ stringstream_str p @ newline else out)"

lemma hexdump_row:
  assumes "bs \<noteq> []" and "length bs \<le> 16" and "n mod 16 = 0" and "n = 0 \<Longrightarrow> p = stringstream_of '' ''"
  shows "hexdump_loop ind bs n p out = (n + length bs, (row_text bs, length bs),
    row_ended n p out @ ind @ zero_filled 8 (hex_string n) @ '':    '' @ byte_pairs bs)"
  using assms(1,2)
proof (induction bs rule: rev_induct)
  case (snoc b bs)
  show ?case
  proof (cases "bs = []")
    case True
    then show ?thesis using assms(3,4)
      by (auto simp: low_bits row_ended_def row_text_def stringstream_of_def stringstream_put_def)
  next
    case False
    have l: "length bs \<le> 16" "length bs < 16" "0 < length bs" using snoc.prems(2) False by simp_all
    obtain k where k: "n = 16 * k" using assms(3) by (auto simp: mod_eq_0_iff_dvd)
    have m: "(n + length bs) mod 16 = length bs" using l(2) by (simp add: k)
    have e: "(n + length bs) mod 2 = 0 \<longleftrightarrow> even (length bs)" by (simp add: k even_iff_mod_2_eq_zero [symmetric])
    show ?thesis
      unfolding hexdump_loop_append snoc.IH [OF False l(1)]
      using False by (simp add: low_bits m byte_pairs_snoc row_text_def stringstream_put_def e)
  qed
qed simp

lemma missing_bytes:
  fixes n m :: nat
  assumes "0 < m" and "m \<le> 16" and "n mod 16 = 0"
  shows "(16 - (n + m) mod 16) mod 16 = 16 - m"
proof -
  have "(n + m) mod 16 = m mod 16" using assms(3) by (simp add: mod_add_eq [symmetric, of n])
  then show ?thesis using assms(1,2) by (cases "m = 16") simp_all
qed

lemma missing_width:
  fixes m :: nat
  assumes "0 < m" and "m \<le> 16"
  shows "2 * (16 - m) + (16 - m) div 2 = 39 - (2 * m + (m - 1) div 2)"
proof -
  have "\<forall>m \<in> set [1..<17]. 2 * (16 - m) + (16 - m) div 2 = 39 - (2 * m + (m - 1) div 2)" by code_simp
  with assms show ?thesis by simp
qed

lemma hexdump_rows:
  assumes "bs \<noteq> []" and "n mod 16 = 0" and "n = 0 \<Longrightarrow> p = stringstream_of '' ''"
    and "hexdump_loop (spaces indent) bs n p out = (n', p', out')"
  shows "out' @ spaces (2 * ((16 - (n' AND 0xf)) mod 16) + (16 - (n' AND 0xf)) mod 16 div 2 + 4) @ stringstream_str p' @ newline =
    row_ended n p out @ dump_rows indent n bs"
  using assms
proof (induction indent n bs arbitrary: p out rule: dump_rows.induct)
  case (1 indent n bs)
  show ?case
  proof (cases "length bs \<le> 16")
    case True
    then have r: "n' = n + length bs" "p' = (row_text bs, length bs)"
      "out' = row_ended n p out @ spaces indent @ zero_filled 8 (hex_string n) @ '':    '' @ byte_pairs bs"
      using hexdump_row [OF "1.prems"(1) True "1.prems"(2,3)] "1.prems"(4) by auto
    have pos: "0 < length bs" using "1.prems"(1) by simp
    have pad: "2 * ((16 - (n' AND 0xf)) mod 16) + (16 - (n' AND 0xf)) mod 16 div 2 = 39 - length (byte_pairs bs)"
      unfolding r low_bits length_byte_pairs missing_bytes [OF pos True "1.prems"(2)] by (rule missing_width [OF pos True])
    show ?thesis
      using "1.prems"(1) True unfolding pad
      by (simp add: r dump_rows.simps [of indent n bs] dump_rows.simps [of indent "n + 16" "[]"] dump_row_def stringstream_str_def
        spaces_def replicate_add)
  next
    case False
    let ?row = "take 16 bs" and ?rest = "drop 16 bs"
    have l: "length ?row = 16" using False by simp
    have row: "hexdump_loop (spaces indent) ?row n p out = (n + 16, (row_text ?row, 16),
        row_ended n p out @ spaces indent @ zero_filled 8 (hex_string n) @ '':    '' @ byte_pairs ?row)"
      using hexdump_row [of ?row n p "spaces indent" out] l "1.prems"(1-3) by simp
    have rest: "hexdump_loop (spaces indent) ?rest (n + 16) (row_text ?row, 16)
        (row_ended n p out @ spaces indent @ zero_filled 8 (hex_string n) @ '':    '' @ byte_pairs ?row) = (n', p', out')"
      using "1.prems"(4) hexdump_loop_append [of "spaces indent" ?row ?rest n p out] unfolding row by simp
    show ?thesis
      using "1.IH" [OF "1.prems"(1) _ _ _ rest] False "1.prems"(1,2)
      by (simp add: dump_rows.simps [of indent n bs] dump_row_def row_ended_def stringstream_str_def length_byte_pairs l spaces_def)
  qed
qed

text \<open>The dump of a non-empty string is one row for every sixteen bytes, each with its offset, the bytes
  in pairs, and the characters of the row in the same column, and an empty line.\<close>

theorem hexdump_prints_rows:
  assumes "data \<noteq> []"
  shows "hexdump data indent = dump_rows indent 0 data @ newline"
proof -
  obtain n p out where r: "hexdump_loop (spaces indent) data 0 (stringstream_of '' '') '''' = (n, p, out)" by (metis prod_cases3)
  have "out @ spaces (2 * ((16 - (n AND 0xf)) mod 16) + (16 - (n AND 0xf)) mod 16 div 2 + 4) @ stringstream_str p @ newline =
      dump_rows indent 0 data" using hexdump_rows [OF assms _ _ r] by (simp add: row_ended_def)
  then show ?thesis unfolding hexdump_def r Let_def prod.case by (simp only: append.assoc [symmetric])
qed

theorem hexdump_prints_rows_witness:
  "hexdump [0x47, 0x45, 0x54, 0x0d] 2 = dump_rows 2 0 [0x47, 0x45, 0x54, 0x0d] @ newline"
  using hexdump_prints_rows [of "[0x47, 0x45, 0x54, 0x0d]" 2] by simp

end
