(* ===== verification/Parser_Safety.thy ===== *)
theory Parser_Safety
  imports Ethernet
begin

text \<open>
  The parsers on arbitrary input. Whatever the bytes of a packet are, the parsers of TCP segments, IPv4
  datagrams, Ethernet frames and ARP messages return: no read is out of range, no exception is thrown
  and no prefix longer than the buffer is removed.
\<close>

section \<open>Rules for parsers that return\<close>

definition returns :: "('v \<times> NetParser) option \<Rightarrow> bool" where
  "returns r \<longleftrightarrow> (\<exists>v q. r = Some (v, q) \<and> Buffer_ok (np_buffer q))"

named_theorems returns_intros \<open>rules that follow the reads of a parser\<close>

lemma returns_Some [returns_intros]: "Buffer_ok (np_buffer p) \<Longrightarrow> returns (Some (v, p))"
  by (simp add: returns_def)

lemma returns_bind [returns_intros]:
  assumes "returns r" and "\<And>v q. Buffer_ok (np_buffer q) \<Longrightarrow> returns (f (v, q))"
  shows "returns (Option.bind r f)"
  using assms by (auto simp: returns_def)

text \<open>The end of a parser, which gives up the state of the reads.\<close>

definition yields :: "'v option \<Rightarrow> bool" where
  "yields r \<longleftrightarrow> r \<noteq> None"

lemma yields_intros [returns_intros]:
  "yields (Some v)" "(b \<Longrightarrow> yields r) \<Longrightarrow> (\<not> b \<Longrightarrow> yields s) \<Longrightarrow> yields (if b then r else s)"
  "returns t \<Longrightarrow> (\<And>v q. Buffer_ok (np_buffer q) \<Longrightarrow> yields (f (v, q))) \<Longrightarrow> yields (Option.bind t f)"
  by (auto simp: yields_def returns_def)

lemma returns_int [returns_intros]:
  assumes "Buffer_ok (np_buffer p)"
  shows "returns (NetParser_u8 p)" and "returns (NetParser_u16 p)" and "returns (NetParser_u32 p)"
  using parse_int_total [OF assms]
  by (auto simp: returns_def NetParser_u8_def NetParser_u16_def NetParser_u32_def)

lemma remove_prefix_returns:
  assumes "Buffer_ok (np_buffer p)"
  obtains q where "NetParser_remove_prefix n p = Some q" and "Buffer_ok (np_buffer q)"
proof (cases "np_error p = NoError \<and> n \<le> length (Buffer_str (np_buffer p))")
  case True
  then have "np_has p (Buffer_str (np_buffer p))" using assms by (simp add: np_has_def)
  then show ?thesis by (rule np_has_remove [of p _ n]) (use True that in \<open>auto simp: np_has_def\<close>)
next
  case False
  then show ?thesis using assms
    by (intro that [of "NetParser_check_size n p"]) (auto simp: NetParser_remove_prefix_def NetParser_check_size_def NetParser_error_def NetParser_set_error_def)
qed

lemma returns_remove_prefix [returns_intros]:
  assumes "Buffer_ok (np_buffer p)" and "\<And>q. Buffer_ok (np_buffer q) \<Longrightarrow> returns (f q)"
  shows "returns (Option.bind (NetParser_remove_prefix n p) f)"
  by (rule remove_prefix_returns [OF assms(1), of n]) (simp add: assms(2))

lemma returns_if [returns_intros]: "(b \<Longrightarrow> returns r) \<Longrightarrow> (\<not> b \<Longrightarrow> returns s) \<Longrightarrow> returns (if b then r else s)"
  by simp

lemma returns_array [returns_intros]: "Buffer_ok (np_buffer p) \<Longrightarrow> returns (parse_array a p)"
proof (induction a arbitrary: p)
  case (Cons x a)
  then show ?case by (auto intro!: returns_intros)
qed (auto intro!: returns_intros)

section \<open>The headers\<close>

lemma TCPHeader_parse_returns: "Buffer_ok (np_buffer p) \<Longrightarrow> returns (TCPHeader_parse p)"
  unfolding TCPHeader_parse_def Let_def by (auto intro!: returns_intros)

lemma IPv4Header_parse_returns: "Buffer_ok (np_buffer p) \<Longrightarrow> returns (IPv4Header_parse h p)"
  unfolding IPv4Header_parse_def Let_def by (auto intro!: returns_intros)

lemma EthernetHeader_parse_returns: "Buffer_ok (np_buffer p) \<Longrightarrow> returns (EthernetHeader_parse h p)"
  unfolding EthernetHeader_parse_def by (auto intro!: returns_intros)

section \<open>The packets\<close>

lemma TCPSegment_parse_returns: "Buffer_ok b \<Longrightarrow> TCPSegment_parse b ck seg \<noteq> None"
  unfolding yields_def [symmetric] TCPSegment_parse_def Let_def
  by (auto simp: NetParser_init_def intro!: returns_intros TCPHeader_parse_returns)

lemma IPv4Datagram_parse_returns: "Buffer_ok b \<Longrightarrow> IPv4Datagram_parse b dgram \<noteq> None"
  unfolding yields_def [symmetric] IPv4Datagram_parse_def Let_def
  by (auto simp: NetParser_init_def intro!: returns_intros IPv4Header_parse_returns)

lemma EthernetFrame_parse_returns: "Buffer_ok b \<Longrightarrow> EthernetFrame_parse b frame \<noteq> None"
  unfolding yields_def [symmetric] EthernetFrame_parse_def
  by (auto simp: NetParser_init_def intro!: returns_intros EthernetHeader_parse_returns)

lemma ARPMessage_parse_returns: "Buffer_ok b \<Longrightarrow> ARPMessage_parse b arp \<noteq> None"
  unfolding yields_def [symmetric] ARPMessage_parse_def Let_def by (auto simp: NetParser_init_def intro!: returns_intros)



end
