(* ===== verification/Packet_Dump.thy ===== *)
theory Packet_Dump
  imports Hex_Dump Parser_Safety
begin

unbundle bit_operations_syntax

text \<open>
  The two programs that print packets: apps/udp\_tcpdump.cc, which shows the TCP segments inside the UDP
  datagrams that libpcap captures, and apps/tun.cc, which shows the datagrams that arrive at a TUN
  device. What a program prints is a list of pieces of text for its two streams. A read outside the captured
  bytes is \<open>None\<close>. The functions of libpcap and the conversion of IPv6 addresses to text by \<open>inet_ntop\<close>
  are arguments.
\<close>

section \<open>Addresses\<close>

datatype printed = Cout string | Cerr string

definition byte_at :: "bytes \<Rightarrow> nat \<Rightarrow> u8 option" where
  "byte_at data i = (if i < length data then Some (data ! i) else None)"

text \<open>\<open>data\<close> is what follows the pointer that is passed.\<close>

definition inet4_addr :: "bytes \<Rightarrow> string option" where
  "inet4_addr data =
     (if length data < 4 then None
      else Some (dec_string (unat (data ! 0)) @ ''.'' @ dec_string (unat (data ! 1)) @ ''.'' @
        dec_string (unat (data ! 2)) @ ''.'' @ dec_string (unat (data ! 3))))"

definition inet6_addr :: "(bytes \<Rightarrow> string option) \<Rightarrow> bytes \<Rightarrow> string option" where
  "inet6_addr inet_ntop data =
     (if length data < 16 then None
      else Some (case inet_ntop (take 16 data) of None \<Rightarrow> ''unknown'' | Some addrbuf \<Rightarrow> addrbuf))"

section \<open>IPv4 and IPv6 headers\<close>

text \<open>The loop over the extension headers of IPv6. \<open>Inl\<close> is an early return of -1, with what was printed
  before it.\<close>

function extension_headers :: "bytes \<Rightarrow> u8 \<Rightarrow> nat \<Rightarrow> (printed list + nat) option" where
  "extension_headers data nxt data_offset =
     (if nxt = 0x11 then Some (Inr data_offset)
      else if nxt \<noteq> 0 \<and> nxt \<noteq> 43 \<and> nxt \<noteq> 60 then Some (Inl [Cerr ''Not UDP or fragmented; ''])
      else do {
        nxt \<leftarrow> byte_at data data_offset;
        words \<leftarrow> byte_at data (data_offset + 1);
        let data_offset = data_offset + 8 * (1 + unat words);
        if length data < data_offset + 2 then Some (Inl []) else extension_headers data nxt data_offset
      })"
  by pat_completeness auto
termination by (relation "measure (\<lambda>(data, _, data_offset). length data - data_offset)") auto

declare extension_headers.simps [simp del]

text \<open>The result is what was printed and, unless the function returns -1, the offset of the payload and the
  addresses.\<close>

definition process_ipv4_ipv6 :: "(bytes \<Rightarrow> string option) \<Rightarrow> bytes \<Rightarrow> (printed list + nat \<times> string \<times> string) option" where
  "process_ipv4_ipv6 inet_ntop data =
     (if length data < 1 then Some (Inl [])
      else (let pt = data ! 0 AND 0xf0 in
        if pt = 0x40 then
          (let data_offset = unat (data ! 0 AND 0x0f) * 4 in
           if length data < data_offset then Some (Inl [])
           else do {
             proto \<leftarrow> byte_at data 9;
             if proto \<noteq> 0x11 then Some (Inl [Cerr ''Not UDP; ''])
             else do {
               src_addr \<leftarrow> inet4_addr (drop 12 data);
               dst_addr \<leftarrow> inet4_addr (drop 16 data);
               Some (Inr (data_offset + 8, src_addr, dst_addr))
             }
           })
        else if pt = 0x60 then
          (if length data < 42 then Some (Inl [])
           else do {
             nxt \<leftarrow> byte_at data 6;
             r \<leftarrow> extension_headers data nxt 40;
             (case r of
                Inl printed \<Rightarrow> Some (Inl printed)
              | Inr data_offset \<Rightarrow> do {
                  src_addr \<leftarrow> inet6_addr inet_ntop (drop 8 data);
                  dst_addr \<leftarrow> inet6_addr inet_ntop (drop 24 data);
                  Some (Inr (data_offset + 8, src_addr, dst_addr))
                })
           })
        else Some (Inl [])))"

section \<open>Link layers\<close>

text \<open>The link types of libpcap that the program handles.\<close>

definition DLT_NULL :: int where "DLT_NULL = 0"
definition DLT_EN10MB :: int where "DLT_EN10MB = 1"
definition DLT_RAW :: int where "DLT_RAW = 12"
definition DLT_LINUX_SLL :: int where "DLT_LINUX_SLL = 113"
definition DLT_LINUX_SLL2 :: int where "DLT_LINUX_SLL2 = 276"

lemmas DLT_defs = DLT_NULL_def DLT_EN10MB_def DLT_RAW_def DLT_LINUX_SLL_def DLT_LINUX_SLL2_def

definition supported_link :: "int \<Rightarrow> bool" where
  "supported_link dlt \<longleftrightarrow> \<not> (dlt \<noteq> DLT_RAW \<and> dlt \<noteq> DLT_NULL \<and> dlt \<noteq> DLT_EN10MB \<and> dlt \<noteq> DLT_LINUX_SLL \<and> dlt \<noteq> DLT_LINUX_SLL2)"

text \<open>Where the IP header starts; or the packet is skipped; or the program gives up.\<close>

datatype link_result = At nat | Skip string | Give_up string

definition ether_type :: "u8 \<Rightarrow> u8 \<Rightarrow> u16" where
  "ether_type hi lo = push_bit 8 (ucast hi) OR ucast lo"

abbreviation malformed :: link_result where
  "malformed \<equiv> Skip (''[INFO] Skipping malformed packet.'' @ newline)"

abbreviation non_IP :: link_result where
  "non_IP \<equiv> Skip (''[INFO] Skipping non-IP packet.'' @ newline)"

definition link_header :: "int \<Rightarrow> bytes \<Rightarrow> link_result option" where
  "link_header dl_type pkt_data =
     (if dl_type = DLT_NULL then
        (if length pkt_data < 4 then Some malformed
         else do {
           pt \<leftarrow> byte_at pkt_data 3;
           Some (if pt \<noteq> 2 \<and> pt \<noteq> 24 \<and> pt \<noteq> 28 \<and> pt \<noteq> 30 then non_IP else At 4)
         })
      else if dl_type = DLT_EN10MB then
        (if length pkt_data < 14 then Some malformed
         else do {
           hi \<leftarrow> byte_at pkt_data 12;
           lo \<leftarrow> byte_at pkt_data 13;
           Some (if ether_type hi lo \<noteq> 0x0800 \<and> ether_type hi lo \<noteq> 0x86dd then non_IP else At 14)
         })
      else if dl_type = DLT_LINUX_SLL then
        (if length pkt_data < 16 then Some malformed
         else do {
           hi \<leftarrow> byte_at pkt_data 14;
           lo \<leftarrow> byte_at pkt_data 15;
           Some (if ether_type hi lo \<noteq> 0x0800 \<and> ether_type hi lo \<noteq> 0x86dd then non_IP else At 16)
         })
      else if dl_type = DLT_LINUX_SLL2 then
        (if length pkt_data < 20 then Some malformed
         else do {
           hi \<leftarrow> byte_at pkt_data 0;
           lo \<leftarrow> byte_at pkt_data 1;
           Some (if ether_type hi lo \<noteq> 0x0800 \<and> ether_type hi lo \<noteq> 0x86dd then non_IP else At 20)
         })
      else if dl_type \<noteq> DLT_RAW then Some (Give_up ''Mysterious datalink type. Giving up.'')
      else Some (At 0))"

section \<open>Packets\<close>

text \<open>The lines on a segment.\<close>

definition segment_line :: "ParseResult \<Rightarrow> string \<Rightarrow> string \<Rightarrow> nat \<Rightarrow> TCPSegment \<Rightarrow> string" where
  "segment_line res src dst payload_len seg =
     (let tcp_hdr = seg_header seg; seqlen = of_nat (TCPSegment_length_in_sequence_space seg) :: u32 in
      src @ '':'' @ dec_string (unat (th_sport tcp_hdr)) @ '' > '' @ dst @ '':'' @ dec_string (unat (th_dport tcp_hdr)) @
      newline @ ''    Flags ['' @
      (if th_urg tcp_hdr then ''U'' else '''') @ (if th_psh tcp_hdr then ''P'' else '''') @ (if th_rst tcp_hdr then ''R'' else '''') @
      (if th_syn tcp_hdr then ''S'' else '''') @ (if th_fin tcp_hdr then ''F'' else '''') @ (if th_ack tcp_hdr then ''.'' else '''') @
      ''] cksum 0x'' @ zero_filled 4 (hex_string (unat (th_cksum tcp_hdr))) @
      (if res = NoError then '' (correct)'' else '' (incorrect!)'') @
      '' seq '' @ dec_string (unat (raw_value (th_seqno tcp_hdr))) @
      (if seqlen > 0 then '':'' @ dec_string (unat (raw_value (th_seqno tcp_hdr) + seqlen)) else '''') @
      '' ack '' @ dec_string (unat (raw_value (th_ackno tcp_hdr))) @ '' win '' @ dec_string (unat (th_win tcp_hdr)) @
      '' length '' @ dec_string payload_len @ newline)"

text \<open>A payload that would start behind the end has a length that wraps around; its bytes are outside the packet.\<close>

definition print_payload :: "bytes \<Rightarrow> nat \<Rightarrow> string \<Rightarrow> string \<Rightarrow> printed list option" where
  "print_payload pkt_data payload_off src dst =
     (let payload_len = sub64 (length pkt_data) payload_off in
      if payload_off + payload_len > length pkt_data then None
      else do {
        let payload = take payload_len (drop payload_off pkt_data);
        (res, seg) \<leftarrow> TCPSegment_parse (Buffer_init payload) 0 TCPSegment_default;
        Some [Cout (if ParseResult_index res > ParseResult_index BadChecksum
            then ''(did not recognize TCP header) src: '' @ src @ '' dst: '' @ dst @ newline
            else segment_line res src dst payload_len seg),
          Cout (hexdump payload 8)]
      })"

text \<open>One packet: what is printed and whether the program goes on.\<close>

definition dump_packet :: "(bytes \<Rightarrow> string option) \<Rightarrow> int \<Rightarrow> bytes \<Rightarrow> (printed list \<times> bool) option" where
  "dump_packet inet_ntop dl_type pkt_data = do {
     link \<leftarrow> link_header dl_type pkt_data;
     (case link of
        Skip info \<Rightarrow> Some ([Cerr info], True)
      | Give_up info \<Rightarrow> Some ([Cerr info], False)
      | At hdr_off \<Rightarrow> do {
          r \<leftarrow> process_ipv4_ipv6 inet_ntop (drop hdr_off pkt_data);
          (case r of
             Inl printed \<Rightarrow> Some (printed @ [Cerr (''Error parsing IPv4/IPv6 packet. Skipping.'' @ newline)], True)
           | Inr (start_off, src, dst) \<Rightarrow> map_option (\<lambda>out. (out, True)) (print_payload pkt_data (hdr_off + start_off) src dst))
        })
   }"

text \<open>The loop over the packets, for a list of results of \<open>pcap_next_ex\<close>. The second component is the exit
  code, if the program ends.\<close>

fun capture_loop :: "(bytes \<Rightarrow> string option) \<Rightarrow> int \<Rightarrow> string \<Rightarrow> (int \<times> bytes) list \<Rightarrow> (printed list \<times> int option) option" where
  "capture_loop inet_ntop dl_type geterr [] = Some ([], None)"
| "capture_loop inet_ntop dl_type geterr ((next_ret, pkt_data) # packets) =
     (if next_ret < 0 then
        (if next_ret = -1 then Some ([Cout (''Error listening for packet: '' @ geterr @ newline)], Some 1) else Some ([], Some 0))
      else if next_ret = 0 then capture_loop inet_ntop dl_type geterr packets
      else do {
        (printed, go) \<leftarrow> dump_packet inet_ntop dl_type pkt_data;
        if \<not> go then Some (printed, Some 1)
        else do {
          (rest, code) \<leftarrow> capture_loop inet_ntop dl_type geterr packets;
          Some (printed @ rest, code)
        }
      })"

section \<open>apps/tun.cc\<close>

text \<open>One datagram of the device.\<close>

definition tun_datagram :: "bytes \<Rightarrow> printed list option" where
  "tun_datagram buffer = do {
     let out = [Cout (newline @ newline @ ''***'' @ newline @ ''*** Got packet:'' @ newline @ ''***'' @ newline), Cout (hexdump buffer 0),
       Cout ''attempting to parse as ipv4 datagram... ''];
     (res, ip_dgram) \<leftarrow> IPv4Datagram_parse (Buffer_init buffer) IPv4Datagram_default;
     if res \<noteq> NoError then Some (out @ [Cout (''failed.'' @ newline)])
     else do {
       let out = out @ [Cout (''success! totlen='' @ dec_string (unat (ih_len (dg_header ip_dgram))) @ '', IPv4 header contents:'' @ newline),
         Cout (IPv4Header_to_string (dg_header ip_dgram))];
       if ih_proto (dg_header ip_dgram) \<noteq> IPv4Header_PROTO_TCP then Some (out @ [Cout (newline @ ''Not TCP, skipping.'' @ newline)])
       else do {
         let out = out @ [Cout (newline @ ''Attempting to parse as a TCP segment... '')];
         payload \<leftarrow> BufferList_to_Buffer (dg_payload ip_dgram);
         (res, tcp_seg) \<leftarrow> TCPSegment_parse payload (IPv4Header_pseudo_cksum (dg_header ip_dgram)) TCPSegment_default;
         if res \<noteq> NoError then Some (out @ [Cout (''failed.'' @ newline)])
         else Some (out @ [Cout (''success! payload len='' @ dec_string (Buffer_size (seg_payload tcp_seg)) @
           '', TCP header contents:'' @ newline), Cout (TCPHeader_to_string (seg_header tcp_seg) @ newline)])
       }
     }
   }"

text \<open>The loop, for the datagrams that are read until the device or the user ends it.\<close>

fun tun_loop :: "bytes list \<Rightarrow> printed list option" where
  "tun_loop [] = Some []"
| "tun_loop (buffer # datagrams) = do {
     out \<leftarrow> tun_datagram buffer;
     rest \<leftarrow> tun_loop datagrams;
     Some (out @ rest)
   }"

section \<open>No read outside the packet\<close>

lemma byte_at_Some [simp]: "i < length data \<Longrightarrow> byte_at data i = Some (data ! i)"
  by (simp add: byte_at_def)

lemma link_header_returns:
  assumes "supported_link dl_type"
  shows "link_header dl_type pkt_data \<noteq> None" and "link_header dl_type pkt_data \<noteq> Some (Give_up info)"
    and "link_header dl_type pkt_data = Some (At off) \<Longrightarrow> off \<le> length pkt_data"
proof -
  have d: "dl_type = DLT_NULL \<or> dl_type = DLT_EN10MB \<or> dl_type = DLT_RAW \<or> dl_type = DLT_LINUX_SLL \<or> dl_type = DLT_LINUX_SLL2"
    using assms by (auto simp: supported_link_def)
  show "link_header dl_type pkt_data \<noteq> None" using d by (elim disjE) (auto simp: link_header_def DLT_defs byte_at_def)
  show "link_header dl_type pkt_data \<noteq> Some (Give_up info)" using d by (elim disjE) (auto simp: link_header_def DLT_defs byte_at_def)
  show "off \<le> length pkt_data" if "link_header dl_type pkt_data = Some (At off)"
    using d that by (elim disjE) (auto simp: link_header_def DLT_defs byte_at_def split: if_splits)
qed

text \<open>The walk over the extension headers stays inside the packet.\<close>

lemma extension_headers_inside:
  "data_offset + 2 \<le> length data \<Longrightarrow> \<exists>r. extension_headers data nxt data_offset = Some r \<and>
     (\<forall>off. r = Inr off \<longrightarrow> data_offset \<le> off \<and> off + 2 \<le> length data)"
proof (induction data nxt data_offset rule: extension_headers.induct)
  case (1 data nxt data_offset)
  let ?off = "data_offset + 8 * (1 + unat (data ! (data_offset + 1)))"
  note e = extension_headers.simps [of data nxt data_offset]
  show ?case
  proof (cases "nxt = 0x11 \<or> (nxt \<noteq> 0 \<and> nxt \<noteq> 43 \<and> nxt \<noteq> 60) \<or> length data < ?off + 2")
    case True
    then show ?thesis using "1.prems" by (auto simp: e)
  next
    case False
    then have step: "extension_headers data nxt data_offset = extension_headers data (data ! data_offset) ?off"
      using "1.prems" by (auto simp: e)
    have "\<exists>r. extension_headers data (data ! data_offset) ?off = Some r \<and> (\<forall>off. r = Inr off \<longrightarrow> ?off \<le> off \<and> off + 2 \<le> length data)"
      by (rule "1.IH") (use False "1.prems" in auto)
    then show ?thesis unfolding step by fastforce
  qed
qed

text \<open>An IPv4 header that is longer than its length field says, but too short for the fields that are
  read.\<close>

definition short_ipv4 :: "bytes \<Rightarrow> bool" where
  "short_ipv4 data \<longleftrightarrow> data \<noteq> [] \<and> data ! 0 AND 0xf0 = 0x40 \<and> unat (data ! 0 AND 0x0f) * 4 \<le> length data \<and>
     (length data < 10 \<or> data ! 9 = 0x11 \<and> length data < 20)"

lemma process_ipv4_ipv6_None: "process_ipv4_ipv6 inet_ntop data = None \<longleftrightarrow> short_ipv4 data"
proof (cases "length data \<ge> 42 \<and> data ! 0 AND 0xf0 = 0x60")
  case True
  then have "40 + 2 \<le> length data" by simp
  from extension_headers_inside [OF this, of "data ! 6"] show ?thesis using True
    by (auto simp: process_ipv4_ipv6_def short_ipv4_def inet6_addr_def split: sum.splits)
next
  case False
  then show ?thesis
    by (auto simp: process_ipv4_ipv6_def short_ipv4_def inet4_addr_def byte_at_def Let_def split: if_splits)
qed

lemma print_payload_None:
  assumes "length pkt_data < 2 ^ 63" and "payload_off < 2 ^ 63"
  shows "print_payload pkt_data payload_off src dst = None \<longleftrightarrow> length pkt_data < payload_off"
proof (cases "length pkt_data < payload_off")
  case True
  have "sub64 (length pkt_data) payload_off = 2 ^ 64 + length pkt_data - payload_off"
    using sub64_wraps [of "length pkt_data" payload_off] True assms by simp
  then show ?thesis using True assms by (simp add: print_payload_def)
next
  case False
  then have e: "sub64 (length pkt_data) payload_off = length pkt_data - payload_off" using assms by (intro sub64_exact) auto
  have "Buffer_ok (Buffer_init (drop payload_off pkt_data))" using assms(1) by simp
  from TCPSegment_parse_returns [OF this, of 0 TCPSegment_default] show ?thesis using False by (auto simp: print_payload_def e)
qed

lemma process_ipv4_ipv6_offset:
  assumes "process_ipv4_ipv6 inet_ntop data = Some (Inr (start_off, src, dst))"
  shows "start_off \<le> length data + 8"
proof (cases "data ! 0 AND 0xf0 = 0x60")
  case True
  then have "40 + 2 \<le> length data" using assms by (auto simp: process_ipv4_ipv6_def split: if_splits)
  from extension_headers_inside [OF this, of "data ! 6"] show ?thesis using assms True \<open>40 + 2 \<le> length data\<close>
    by (auto simp: process_ipv4_ipv6_def inet6_addr_def Let_def split: sum.splits if_splits)
next
  case False
  then show ?thesis using assms
    by (auto simp: process_ipv4_ipv6_def Let_def bind_eq_Some_conv split: if_splits)
qed

text \<open>The payload that a datagram is parsed into is one buffer.\<close>

lemma IPv4Datagram_payload:
  assumes "IPv4Datagram_parse b dgram = Some (res, d)" and "Buffer_ok b"
  obtains p where "BufferList_to_Buffer (dg_payload d) = Some p" and "Buffer_ok p"
proof -
  have "Buffer_ok (np_buffer (NetParser_init b))" using assms(2) by (simp add: NetParser_init_def)
  from IPv4Header_parse_returns [OF this, of "dg_header dgram"]
  obtain r h q where q: "IPv4Header_parse (dg_header dgram) (NetParser_init b) = Some ((r, h), q)" "Buffer_ok (np_buffer q)"
    by (auto simp: returns_def)
  then have "dg_payload d = BufferList_of_Buffer (np_buffer q)"
    using assms(1) by (auto simp: IPv4Datagram_parse_def Let_def split: if_splits)
  then show ?thesis using q(2) that by (auto simp: BufferList_to_Buffer_def BufferList_of_Buffer_def)
qed

text \<open>The loop of apps/tun.cc goes on whatever arrives.\<close>

lemma tun_datagram_returns:
  assumes "length buffer < 2 ^ 63"
  shows "tun_datagram buffer \<noteq> None"
proof -
  have ok: "Buffer_ok (Buffer_init buffer)" using assms by simp
  obtain res d where d: "IPv4Datagram_parse (Buffer_init buffer) IPv4Datagram_default = Some (res, d)"
    using IPv4Datagram_parse_returns [OF ok, of IPv4Datagram_default] by auto
  obtain p where p: "BufferList_to_Buffer (dg_payload d) = Some p" "Buffer_ok p" by (rule IPv4Datagram_payload [OF d ok])
  show ?thesis
    using TCPSegment_parse_returns [OF p(2), of "IPv4Header_pseudo_cksum (dg_header d)" TCPSegment_default]
    by (auto simp: tun_datagram_def d p(1) Let_def)
qed

lemma tun_loop_returns: "\<forall>buffer \<in> set datagrams. length buffer < 2 ^ 63 \<Longrightarrow> tun_loop datagrams \<noteq> None"
proof (induction datagrams)
  case (Cons buffer datagrams)
  then show ?case using tun_datagram_returns [of buffer] by auto
qed simp

section \<open>The properties\<close>

text \<open>C37. A packet of any content is handled without a read outside the captured bytes, except in two
  cases: an IPv4 packet that is shorter than the fields that are read but not shorter than its length
  field says, and a packet that ends before the UDP header does, so that the length of the payload
  wraps around. The program goes on after every packet, whatever its link type among the supported ones;
  so the walk over extension headers of IPv6 always ends.\<close>

theorem udp_tcpdump_reads_inside:
  assumes "supported_link dl_type" and "length pkt_data < 2 ^ 32"
  shows "(dump_packet inet_ntop dl_type pkt_data = None \<longleftrightarrow>
      (\<exists>off. link_header dl_type pkt_data = Some (At off) \<and> (short_ipv4 (drop off pkt_data) \<or>
        (\<exists>start src dst. process_ipv4_ipv6 inet_ntop (drop off pkt_data) = Some (Inr (start, src, dst)) \<and>
          length (drop off pkt_data) < start)))) \<and>
    (\<forall>out go. dump_packet inet_ntop dl_type pkt_data = Some (out, go) \<longrightarrow> go)"
proof -
  obtain link where link: "link_header dl_type pkt_data = Some link" using link_header_returns(1) [OF assms(1)] by blast
  show ?thesis
  proof (cases link)
    case (At off)
    note off = link_header_returns(3) [OF assms(1) link [unfolded At]]
    show ?thesis
    proof (cases "process_ipv4_ipv6 inet_ntop (drop off pkt_data)")
      case None
      then show ?thesis using process_ipv4_ipv6_None [of inet_ntop "drop off pkt_data"] by (auto simp: dump_packet_def link At)
    next
      case (Some r)
      then have s: "\<not> short_ipv4 (drop off pkt_data)" using process_ipv4_ipv6_None [of inet_ntop "drop off pkt_data"] by simp
      show ?thesis
      proof (cases r)
        case (Inl printed)
        then show ?thesis using Some s by (auto simp: dump_packet_def link At)
      next
        case (Inr x)
        obtain start src dst where x: "x = (start, src, dst)" by (metis prod_cases3)
        have "start \<le> length (drop off pkt_data) + 8" using process_ipv4_ipv6_offset Some Inr x by blast
        then have "print_payload pkt_data (off + start) src dst = None \<longleftrightarrow> length pkt_data < off + start"
          using assms(2) off by (intro print_payload_None) auto
        then show ?thesis using Some Inr x s off by (auto simp: dump_packet_def link At)
      qed
    qed
  next
    case (Skip info)
    then show ?thesis by (auto simp: dump_packet_def link)
  next
    case (Give_up info)
    then show ?thesis using link link_header_returns(2) [OF assms(1)] by simp
  qed
qed

theorem udp_tcpdump_reads_inside_witness:
  "dump_packet (\<lambda>_. None) DLT_RAW [0x40] = None \<and> dump_packet (\<lambda>_. None) DLT_RAW [0x45, 0] \<noteq> None"
proof -
  have l: "supported_link DLT_RAW" "link_header DLT_RAW d = Some (At 0)" for d
    by (simp_all add: supported_link_def link_header_def DLT_defs)
  have "dump_packet (\<lambda>_. None) DLT_RAW [0x40] = None"
    using udp_tcpdump_reads_inside [OF l(1), of "[0x40]" "\<lambda>_. None"] by (simp add: l(2) short_ipv4_def)
  moreover have "dump_packet (\<lambda>_. None) DLT_RAW [0x45, 0] \<noteq> None"
    using udp_tcpdump_reads_inside [OF l(1), of "[0x45, 0]" "\<lambda>_. None"]
    by (simp add: l(2) short_ipv4_def process_ipv4_ipv6_def)
  ultimately show ?thesis by blast
qed


definition example_ip :: bytes where
  "example_ip = [0x45, 0, 0, 48, 0, 0, 0x40, 0, 64, 0x11, 0, 0, 10, 0, 0, 1, 10, 0, 0, 2]"


end
