(* ===== verification/Command_Line.thy ===== *)
theory Command_Line
  imports TCP_Sender Adapters Packet_Dump
begin

text \<open>
  The command lines of the programs apps/tcp\_udp.cc, apps/tcp\_ipv4.cc and apps/tcp\_ip\_ethernet.cc
  (\<open>show_usage\<close>, \<open>check_argc\<close>, \<open>get_config\<close>) and of apps/udp\_tcpdump.cc (\<open>parse_arguments\<close>). The arguments
  are a list of strings, the name of the program first; reading an argument that is not there is
  \<open>None\<close>. A program that calls \<open>exit\<close> gives its exit code and what it printed. The conversion of a loss
  rate, \<open>strtof\<close> and the arithmetic on floating-point numbers, is an argument; it is \<open>None\<close> where the
  product does not fit 16 bits, which is undefined. So are the resolver of addresses and the random port.

  The contract \<open>command_line\<close> says that the body of the loop of \<open>get_config\<close> reads one option; it is interpreted for
  the three programs. It follows that \<open>get_config\<close> accepts exactly the command lines that are options
  followed by a host and a port, and what it returns.
\<close>

section \<open>C strings and numbers\<close>

fun c_char :: "string \<Rightarrow> int" where
  "c_char [] = 0"
| "c_char (c # _) = of_char c"

fun strncmp :: "string \<Rightarrow> string \<Rightarrow> nat \<Rightarrow> int" where
  "strncmp s t 0 = 0"
| "strncmp s t (Suc n) =
     (if c_char s \<noteq> c_char t then c_char s - c_char t
      else if c_char s = 0 then 0
      else strncmp (tl s) (tl t) n)"

text \<open>\<open>strtol\<close> with base 0: the prefix of the digits tells the base; without digits the number is 0, and
  numbers that are not a \<open>long\<close> are cut to the range.\<close>

definition is_base_digit :: "nat \<Rightarrow> char \<Rightarrow> bool" where
  "is_base_digit base c \<longleftrightarrow> (let n = of_char c :: nat in
     (48 \<le> n \<and> n < 48 + min base 10) \<or> (base = 16 \<and> (97 \<le> n \<and> n \<le> 102 \<or> 65 \<le> n \<and> n \<le> 70)))"

definition base_digit :: "char \<Rightarrow> nat" where
  "base_digit c = (let n = of_char c in if n \<ge> 97 then n - 87 else if n \<ge> 65 then n - 55 else n - 48)"

definition base_prefix :: "string \<Rightarrow> nat \<times> string" where
  "base_prefix s = (case s of
       c # d # e # _ \<Rightarrow>
         if c = CHR ''0'' \<and> (d = CHR ''x'' \<or> d = CHR ''X'') \<and> is_base_digit 16 e then (16, drop 2 s)
         else if c = CHR ''0'' then (8, s) else (10, s)
     | c # _ \<Rightarrow> if c = CHR ''0'' then (8, s) else (10, s)
     | [] \<Rightarrow> (10, s))"

definition strtol :: "string \<Rightarrow> int" where
  "strtol s =
     (let s = dropWhile is_space s;
          neg = (s \<noteq> [] \<and> hd s = CHR ''-'');
          s = (if s \<noteq> [] \<and> (hd s = CHR ''-'' \<or> hd s = CHR ''+'') then tl s else s);
          (base, s) = base_prefix s;
          n = int (foldl (\<lambda>a c. a * base + base_digit c) 0 (takeWhile (is_base_digit base) s));
          n = (if neg then - n else n) in
      max (- (2 ^ 63)) (min (2 ^ 63 - 1) n))"

section \<open>The arguments\<close>

datatype 'a outcome = Exits int string | Goes 'a

definition argv_at :: "string list \<Rightarrow> nat \<Rightarrow> string option" where
  "argv_at argv i = (if i < length argv then Some (argv ! i) else None)"

text \<open>The local variables of the three versions of \<open>get_config\<close>; each uses some of them.\<close>

record config_state =
  cl_fsm :: TCPConfig
  cl_filt :: FdAdapterConfig
  cl_listen :: bool
  cl_device :: "string option"
  cl_source_address :: string
  cl_source_port :: string
  cl_next_hop_address :: string

definition FdAdapterConfig_default :: "resolver \<Rightarrow> FdAdapterConfig option" where
  "FdAdapterConfig_default rs = do {
     source \<leftarrow> Address_of_ip rs ''0'' 0;
     destination \<leftarrow> Address_of_ip rs ''0'' 0;
     Some \<lparr>fc_source = source, fc_destination = destination, fc_loss_rate_dn = 0, fc_loss_rate_up = 0\<rparr>
   }"

definition TUN_DFLT :: string where "TUN_DFLT = ''tun144''"
definition tun_LOCAL_ADDRESS_DFLT :: string where "tun_LOCAL_ADDRESS_DFLT = ''169.254.144.9''"
definition TAP_DFLT :: string where "TAP_DFLT = ''tap10''"
definition tap_LOCAL_ADDRESS_DFLT :: string where "tap_LOCAL_ADDRESS_DFLT = ''169.254.10.9''"
definition GATEWAY_DFLT :: string where "GATEWAY_DFLT = ''169.254.10.1''"

definition udp_show_usage :: "string \<Rightarrow> string option \<Rightarrow> string" where
  "udp_show_usage argv0 msg =
     ''Usage: '' @ argv0 @ '' [options] <host> <port>'' @ newline @ newline @
     ''   Option                                                          Default'' @ newline @
     ''   --                                                              --'' @ newline @ newline @
     ''   -l              Server (listen) mode.                           (client mode)'' @ newline @
     ''                   In server mode, <host>:<port> is the address to bind.'' @ newline @ newline @
     ''   -w <winsz>      Use a window of <winsz> bytes                   '' @ dec_string MAX_PAYLOAD_SIZE @ newline @ newline @
     ''   -t <tmout>      Set rt_timeout to tmout                         '' @ dec_string (unat TIMEOUT_DFLT) @ newline @
     newline @ ''   -Lu <loss>      Set uplink loss to <rate> (float in 0..1)       (no loss)'' @ newline @
     ''   -Ld <loss>      Set downlink loss to <rate> (float in 0..1)     (no loss)'' @ newline @ newline @
     ''   -h              Show this message and quit.'' @ newline @ newline @
     (case msg of None \<Rightarrow> [] | Some msg \<Rightarrow> msg) @ newline"

definition ipv4_show_usage :: "string \<Rightarrow> string option \<Rightarrow> string" where
  "ipv4_show_usage argv0 msg =
     ''Usage: '' @ argv0 @ '' [options] <host> <port>'' @ newline @ newline @
     ''   Option                                                          Default'' @ newline @
     ''   --                                                              --'' @ newline @ newline @
     ''   -l              Server (listen) mode.                           (client mode)'' @ newline @
     ''                   In server mode, <host>:<port> is the address to bind.'' @ newline @ newline @
     ''   -a <addr>       Set source address (client mode only)           '' @ tun_LOCAL_ADDRESS_DFLT @ newline @
     ''   -s <port>       Set source port (client mode only)              (random)'' @ newline @ newline @
     ''   -w <winsz>      Use a window of <winsz> bytes                   '' @ dec_string MAX_PAYLOAD_SIZE @ newline @ newline @
     ''   -t <tmout>      Set rt_timeout to tmout                         '' @ dec_string (unat TIMEOUT_DFLT) @ newline @
     newline @ ''   -d <tundev>     Connect to tun <tundev>                         '' @ TUN_DFLT @ newline @ newline @
     ''   -Lu <loss>      Set uplink loss to <rate> (float in 0..1)       (no loss)'' @ newline @
     ''   -Ld <loss>      Set downlink loss to <rate> (float in 0..1)     (no loss)'' @ newline @ newline @
     ''   -h              Show this message.'' @ newline @ newline @
     (case msg of None \<Rightarrow> [] | Some msg \<Rightarrow> msg) @ newline"

definition ethernet_show_usage :: "string \<Rightarrow> string option \<Rightarrow> string" where
  "ethernet_show_usage argv0 msg =
     ''Usage: '' @ argv0 @ '' [options] <host> <port>'' @ newline @ newline @
     ''   Option                                                          Default'' @ newline @
     ''   --                                                              --'' @ newline @ newline @
     ''   -a <addr>       Set IP source address (client mode only)        '' @ tap_LOCAL_ADDRESS_DFLT @ newline @
     ''   -s <port>       Set TCP source port (client mode only)          (random)'' @ newline @ newline @
     ''   -n <addr>       Set IP next-hop address                         '' @ GATEWAY_DFLT @ newline @
     ''   -w <winsz>      Use a window of <winsz> bytes                   '' @ dec_string MAX_PAYLOAD_SIZE @ newline @ newline @
     ''   -t <tmout>      Set rt_timeout to tmout                         '' @ dec_string (unat TIMEOUT_DFLT) @ newline @
     newline @ ''   -d <tapdev>     Connect to tap <tapdev>                         '' @ TAP_DFLT @ newline @ newline @
     ''   -h              Show this message.'' @ newline @ newline @
     (case msg of None \<Rightarrow> [] | Some msg \<Rightarrow> msg) @ newline"

text \<open>The call of \<open>exit\<close> after the usage was shown, and \<open>check_argc\<close> followed by the rest of a branch.\<close>

definition exit_with :: "(string \<Rightarrow> string option \<Rightarrow> string) \<Rightarrow> string list \<Rightarrow> int \<Rightarrow> string option \<Rightarrow> 'a outcome option" where
  "exit_with show_usage argv code msg = map_option (\<lambda>argv0. Exits code (show_usage argv0 msg)) (argv_at argv 0)"

definition check_argc ::
  "(string \<Rightarrow> string option \<Rightarrow> string) \<Rightarrow> string list \<Rightarrow> nat \<Rightarrow> string \<Rightarrow> 'a outcome option \<Rightarrow> 'a outcome option" where
  "check_argc show_usage argv cur err rest =
     (if cur + 3 \<ge> length argv then exit_with show_usage argv 1 (Some err) else rest)"

definition set_recv_capacity :: "string \<Rightarrow> config_state \<Rightarrow> config_state" where
  "set_recv_capacity arg s = s\<lparr>cl_fsm := (cl_fsm s)\<lparr>cfg_recv_capacity := nat (strtol arg mod 2 ^ 64)\<rparr>\<rparr>"

definition set_rt_timeout :: "string \<Rightarrow> config_state \<Rightarrow> config_state" where
  "set_rt_timeout arg s = s\<lparr>cl_fsm := (cl_fsm s)\<lparr>cfg_rt_timeout := of_int (strtol arg)\<rparr>\<rparr>"

definition set_loss_rate_up :: "u16 \<Rightarrow> config_state \<Rightarrow> config_state" where
  "set_loss_rate_up rate s = s\<lparr>cl_filt := (cl_filt s)\<lparr>fc_loss_rate_up := rate\<rparr>\<rparr>"

definition set_loss_rate_dn :: "u16 \<Rightarrow> config_state \<Rightarrow> config_state" where
  "set_loss_rate_dn rate s = s\<lparr>cl_filt := (cl_filt s)\<lparr>fc_loss_rate_dn := rate\<rparr>\<rparr>"

definition unrecognized :: "(string \<Rightarrow> string option \<Rightarrow> string) \<Rightarrow> string list \<Rightarrow> string \<Rightarrow> 'a outcome option" where
  "unrecognized show_usage argv arg = exit_with show_usage argv 1 (Some (''ERROR: unrecognized option '' @ arg))"

section \<open>get_config\<close>

text \<open>The loop of \<open>get_config\<close>; its body reads one option.\<close>

type_synonym option_reader = "string list \<Rightarrow> nat \<Rightarrow> config_state \<Rightarrow> (nat \<times> config_state) outcome option"

partial_function (option) config_loop :: "option_reader \<Rightarrow> string list \<Rightarrow> nat \<Rightarrow> config_state \<Rightarrow> (nat \<times> config_state) outcome option" where
  "config_loop body argv cur s =
     (if length argv - cur > 2
      then Option.bind (body argv cur s) (\<lambda>r. case r of
          Exits code text \<Rightarrow> Some (Exits code text)
        | Goes next \<Rightarrow> config_loop body argv (fst next) (snd next))
      else Some (Goes (cur, s)))"

definition udp_option :: "(string \<Rightarrow> u16 option) \<Rightarrow> option_reader" where
  "udp_option loss_rate argv cur s = do {
     arg \<leftarrow> argv_at argv cur;
     if strncmp ''-l'' arg 3 = 0 then Some (Goes (cur + 1, s\<lparr>cl_listen := True\<rparr>))
     else if strncmp ''-w'' arg 3 = 0 then check_argc udp_show_usage argv cur ''ERROR: -w requires one argument.'' (do {
       value \<leftarrow> argv_at argv (cur + 1);
       Some (Goes (cur + 2, set_recv_capacity value s))
     })
     else if strncmp ''-t'' arg 3 = 0 then check_argc udp_show_usage argv cur ''ERROR: -t requires one argument.'' (do {
       value \<leftarrow> argv_at argv (cur + 1);
       Some (Goes (cur + 2, set_rt_timeout value s))
     })
     else if strncmp ''-Lu'' arg 3 = 0 then check_argc udp_show_usage argv cur ''ERROR: -Lu requires one argument.'' (do {
       value \<leftarrow> argv_at argv (cur + 1);
       rate \<leftarrow> loss_rate value;
       Some (Goes (cur + 2, set_loss_rate_up rate s))
     })
     else if strncmp ''-Ld'' arg 3 = 0 then check_argc udp_show_usage argv cur ''ERROR: -Lu requires one argument.'' (do {
       value \<leftarrow> argv_at argv (cur + 1);
       rate \<leftarrow> loss_rate value;
       Some (Goes (cur + 2, set_loss_rate_dn rate s))
     })
     else if strncmp ''-h'' arg 3 = 0 then exit_with udp_show_usage argv 0 None
     else unrecognized udp_show_usage argv arg
   }"

definition ipv4_option :: "(string \<Rightarrow> u16 option) \<Rightarrow> option_reader" where
  "ipv4_option loss_rate argv cur s = do {
     arg \<leftarrow> argv_at argv cur;
     if strncmp ''-l'' arg 3 = 0 then Some (Goes (cur + 1, s\<lparr>cl_listen := True\<rparr>))
     else if strncmp ''-a'' arg 3 = 0 then check_argc ipv4_show_usage argv cur ''ERROR: -a requires one argument.'' (do {
       value \<leftarrow> argv_at argv (cur + 1);
       Some (Goes (cur + 2, s\<lparr>cl_source_address := value\<rparr>))
     })
     else if strncmp ''-s'' arg 3 = 0 then check_argc ipv4_show_usage argv cur ''ERROR: -s requires one argument.'' (do {
       value \<leftarrow> argv_at argv (cur + 1);
       Some (Goes (cur + 2, s\<lparr>cl_source_port := value\<rparr>))
     })
     else if strncmp ''-w'' arg 3 = 0 then check_argc ipv4_show_usage argv cur ''ERROR: -w requires one argument.'' (do {
       value \<leftarrow> argv_at argv (cur + 1);
       Some (Goes (cur + 2, set_recv_capacity value s))
     })
     else if strncmp ''-t'' arg 3 = 0 then check_argc ipv4_show_usage argv cur ''ERROR: -t requires one argument.'' (do {
       value \<leftarrow> argv_at argv (cur + 1);
       Some (Goes (cur + 2, set_rt_timeout value s))
     })
     else if strncmp ''-d'' arg 3 = 0 then check_argc ipv4_show_usage argv cur ''ERROR: -t requires one argument.'' (do {
       value \<leftarrow> argv_at argv (cur + 1);
       Some (Goes (cur + 2, s\<lparr>cl_device := Some value\<rparr>))
     })
     else if strncmp ''-Lu'' arg 3 = 0 then check_argc ipv4_show_usage argv cur ''ERROR: -Lu requires one argument.'' (do {
       value \<leftarrow> argv_at argv (cur + 1);
       rate \<leftarrow> loss_rate value;
       Some (Goes (cur + 2, set_loss_rate_up rate s))
     })
     else if strncmp ''-Ld'' arg 3 = 0 then check_argc ipv4_show_usage argv cur ''ERROR: -Lu requires one argument.'' (do {
       value \<leftarrow> argv_at argv (cur + 1);
       rate \<leftarrow> loss_rate value;
       Some (Goes (cur + 2, set_loss_rate_dn rate s))
     })
     else if strncmp ''-h'' arg 3 = 0 then exit_with ipv4_show_usage argv 0 None
     else unrecognized ipv4_show_usage argv arg
   }"

definition ethernet_option :: option_reader where
  "ethernet_option argv cur s = do {
     arg \<leftarrow> argv_at argv cur;
     if strncmp ''-a'' arg 3 = 0 then check_argc ethernet_show_usage argv cur ''ERROR: -a requires one argument.'' (do {
       value \<leftarrow> argv_at argv (cur + 1);
       Some (Goes (cur + 2, s\<lparr>cl_source_address := value\<rparr>))
     })
     else if strncmp ''-s'' arg 3 = 0 then check_argc ethernet_show_usage argv cur ''ERROR: -s requires one argument.'' (do {
       value \<leftarrow> argv_at argv (cur + 1);
       Some (Goes (cur + 2, s\<lparr>cl_source_port := value\<rparr>))
     })
     else if strncmp ''-n'' arg 3 = 0 then check_argc ethernet_show_usage argv cur ''ERROR: -n requires one argument.'' (do {
       value \<leftarrow> argv_at argv (cur + 1);
       Some (Goes (cur + 2, s\<lparr>cl_next_hop_address := value\<rparr>))
     })
     else if strncmp ''-w'' arg 3 = 0 then check_argc ethernet_show_usage argv cur ''ERROR: -w requires one argument.'' (do {
       value \<leftarrow> argv_at argv (cur + 1);
       Some (Goes (cur + 2, set_recv_capacity value s))
     })
     else if strncmp ''-t'' arg 3 = 0 then check_argc ethernet_show_usage argv cur ''ERROR: -t requires one argument.'' (do {
       value \<leftarrow> argv_at argv (cur + 1);
       Some (Goes (cur + 2, set_rt_timeout value s))
     })
     else if strncmp ''-d'' arg 3 = 0 then check_argc ethernet_show_usage argv cur ''ERROR: -t requires one argument.'' (do {
       value \<leftarrow> argv_at argv (cur + 1);
       Some (Goes (cur + 2, s\<lparr>cl_device := Some value\<rparr>))
     })
     else if strncmp ''-h'' arg 3 = 0 then exit_with ethernet_show_usage argv 0 None
     else unrecognized ethernet_show_usage argv arg
   }"

text \<open>The values the local variables start with.\<close>

definition config_start :: "FdAdapterConfig \<Rightarrow> string option \<Rightarrow> string \<Rightarrow> string \<Rightarrow> string \<Rightarrow> config_state" where
  "config_start c_filt device source_address source_port next_hop_address =
     \<lparr>cl_fsm = TCPConfig_default, cl_filt = c_filt, cl_listen = False, cl_device = device, cl_source_address = source_address,
      cl_source_port = source_port, cl_next_hop_address = next_hop_address\<rparr>"

definition udp_get_config ::
  "resolver \<Rightarrow> (string \<Rightarrow> u16 option) \<Rightarrow> string list \<Rightarrow> (TCPConfig \<times> FdAdapterConfig \<times> bool) outcome option" where
  "udp_get_config rs loss_rate argv = do {
     c_filt \<leftarrow> FdAdapterConfig_default rs;
     r \<leftarrow> config_loop (udp_option loss_rate) argv 1 (config_start c_filt None [] [] []);
     (case r of
        Exits code text \<Rightarrow> Some (Exits code text)
      | Goes (cur, s) \<Rightarrow>
          if cl_listen s then do {
            port \<leftarrow> argv_at argv (length argv - 1);
            source \<leftarrow> Address_of_service rs ''0'' port;
            Some (Goes (cl_fsm s, (cl_filt s)\<lparr>fc_source := source\<rparr>, True))
          }
          else do {
            host \<leftarrow> argv_at argv (length argv - 2);
            port \<leftarrow> argv_at argv (length argv - 1);
            destination \<leftarrow> Address_of_service rs host port;
            Some (Goes (cl_fsm s, (cl_filt s)\<lparr>fc_destination := destination\<rparr>, False))
          })
   }"

definition ipv4_get_config ::
  "resolver \<Rightarrow> (string \<Rightarrow> u16 option) \<Rightarrow> u16 \<Rightarrow> string list \<Rightarrow> (TCPConfig \<times> FdAdapterConfig \<times> bool \<times> string option) outcome option" where
  "ipv4_get_config rs loss_rate random_port argv = do {
     c_filt \<leftarrow> FdAdapterConfig_default rs;
     r \<leftarrow> config_loop (ipv4_option loss_rate) argv 1
       (config_start c_filt None tun_LOCAL_ADDRESS_DFLT (dec_string (unat random_port)) []);
     (case r of
        Exits code text \<Rightarrow> Some (Exits code text)
      | Goes (cur, s) \<Rightarrow>
          if cl_listen s then do {
            service \<leftarrow> argv_at argv (cur + 1);
            source \<leftarrow> Address_of_service rs ''0'' service;
            port \<leftarrow> Address_port rs source;
            if port = 0 then exit_with ipv4_show_usage argv 1 (Some ''ERROR: listen port cannot be zero in server mode.'')
            else Some (Goes (cl_fsm s, (cl_filt s)\<lparr>fc_source := source\<rparr>, True, cl_device s))
          }
          else do {
            host \<leftarrow> argv_at argv cur;
            service \<leftarrow> argv_at argv (cur + 1);
            destination \<leftarrow> Address_of_service rs host service;
            source \<leftarrow> Address_of_service rs (cl_source_address s) (cl_source_port s);
            Some (Goes (cl_fsm s, (cl_filt s)\<lparr>fc_destination := destination, fc_source := source\<rparr>, False, cl_device s))
          })
   }"

text \<open>The name of the device has a default here.\<close>

definition ethernet_get_config ::
  "resolver \<Rightarrow> u16 \<Rightarrow> string list \<Rightarrow> (TCPConfig \<times> FdAdapterConfig \<times> Address \<times> string) outcome option" where
  "ethernet_get_config rs random_port argv = do {
     c_filt \<leftarrow> FdAdapterConfig_default rs;
     r \<leftarrow> config_loop ethernet_option argv 1
       (config_start c_filt (Some TAP_DFLT) tap_LOCAL_ADDRESS_DFLT (dec_string (unat random_port)) GATEWAY_DFLT);
     (case r of
        Exits code text \<Rightarrow> Some (Exits code text)
      | Goes (cur, s) \<Rightarrow> do {
          host \<leftarrow> argv_at argv cur;
          service \<leftarrow> argv_at argv (cur + 1);
          destination \<leftarrow> Address_of_service rs host service;
          source \<leftarrow> Address_of_service rs (cl_source_address s) (cl_source_port s);
          next_hop \<leftarrow> Address_of_service rs (cl_next_hop_address s) ''0'';
          tapdev \<leftarrow> cl_device s;
          Some (Goes (cl_fsm s, (cl_filt s)\<lparr>fc_destination := destination, fc_source := source\<rparr>, next_hop, tapdev))
        })
   }"

section \<open>Options as data\<close>

text \<open>The options of the three programs with their arguments. An argument of three characters that begins
  with -Lu or -Ld stands for the option whatever follows.\<close>

datatype cli_option = Listen | Source_address string | Source_port string | Next_hop string | Window string | Timeout string
  | Device string | Loss_up string string | Loss_down string string

fun render :: "cli_option \<Rightarrow> string list" where
  "render Listen = [''-l'']"
| "render (Source_address v) = [''-a'', v]"
| "render (Source_port v) = [''-s'', v]"
| "render (Next_hop v) = [''-n'', v]"
| "render (Window v) = [''-w'', v]"
| "render (Timeout v) = [''-t'', v]"
| "render (Device v) = [''-d'', v]"
| "render (Loss_up rest v) = [''-Lu'' @ rest, v]"
| "render (Loss_down rest v) = [''-Ld'' @ rest, v]"

fun apply_option :: "(string \<Rightarrow> u16 option) \<Rightarrow> cli_option \<Rightarrow> config_state \<Rightarrow> config_state option" where
  "apply_option loss_rate Listen s = Some (s\<lparr>cl_listen := True\<rparr>)"
| "apply_option loss_rate (Source_address v) s = Some (s\<lparr>cl_source_address := v\<rparr>)"
| "apply_option loss_rate (Source_port v) s = Some (s\<lparr>cl_source_port := v\<rparr>)"
| "apply_option loss_rate (Next_hop v) s = Some (s\<lparr>cl_next_hop_address := v\<rparr>)"
| "apply_option loss_rate (Window v) s = Some (set_recv_capacity v s)"
| "apply_option loss_rate (Timeout v) s = Some (set_rt_timeout v s)"
| "apply_option loss_rate (Device v) s = Some (s\<lparr>cl_device := Some v\<rparr>)"
| "apply_option loss_rate (Loss_up rest v) s = map_option (\<lambda>rate. set_loss_rate_up rate s) (loss_rate v)"
| "apply_option loss_rate (Loss_down rest v) s = map_option (\<lambda>rate. set_loss_rate_dn rate s) (loss_rate v)"

fun apply_options :: "(string \<Rightarrow> u16 option) \<Rightarrow> cli_option list \<Rightarrow> config_state \<Rightarrow> config_state option" where
  "apply_options loss_rate [] s = Some s"
| "apply_options loss_rate (opt # opts) s = Option.bind (apply_option loss_rate opt s) (apply_options loss_rate opts)"

text \<open>Which program knows which option.\<close>

fun udp_knows :: "cli_option \<Rightarrow> bool" where
  "udp_knows (Source_address v) = False"
| "udp_knows (Source_port v) = False"
| "udp_knows (Next_hop v) = False"
| "udp_knows (Device v) = False"
| "udp_knows opt = True"

fun ipv4_knows :: "cli_option \<Rightarrow> bool" where
  "ipv4_knows (Next_hop v) = False"
| "ipv4_knows opt = True"

fun ethernet_knows :: "cli_option \<Rightarrow> bool" where
  "ethernet_knows Listen = False"
| "ethernet_knows (Loss_up rest v) = False"
| "ethernet_knows (Loss_down rest v) = False"
| "ethernet_knows opt = True"

section \<open>Comparing strings\<close>

definition c_string :: "string \<Rightarrow> bool" where
  "c_string s \<longleftrightarrow> CHR 0x00 \<notin> set s"

lemma c_char_0: "c_string s \<Longrightarrow> c_char s = 0 \<longleftrightarrow> s = []"
  using of_char_eq_iff [where 'a = int, of _ "CHR 0x00"] by (cases s) (auto simp: c_string_def)

lemma c_char_eq: "s \<noteq> [] \<Longrightarrow> t \<noteq> [] \<Longrightarrow> c_char s = c_char t \<longleftrightarrow> hd s = hd t"
  by (cases s; cases t) auto

lemma c_string_tl: "c_string s \<Longrightarrow> c_string (tl s)"
  by (cases s) (auto simp: c_string_def)

lemma strncmp_eq_0:
  "c_string s \<Longrightarrow> c_string t \<Longrightarrow> strncmp s t n = 0 \<longleftrightarrow> take n s = take n t"
proof (induction n arbitrary: s t)
  case (Suc n)
  then show ?case
    using c_char_0 [of s] c_char_0 [of t] c_char_eq [of s t] c_string_tl [of s] c_string_tl [of t]
    by (cases s; cases t) auto
qed simp

lemma short_option: "c_string arg \<Longrightarrow> c_string s \<Longrightarrow> length s = 2 \<Longrightarrow> strncmp s arg 3 = 0 \<longleftrightarrow> arg = s"
proof -
  assume "c_string arg" "c_string s" "length s = 2"
  then have "strncmp s arg 3 = 0 \<longleftrightarrow> s = take 3 arg" by (auto simp: strncmp_eq_0)
  also have "\<dots> \<longleftrightarrow> arg = s" using \<open>length s = 2\<close> by (auto simp: min_def split: if_splits)
  finally show ?thesis .
qed

lemma option_strings:
  assumes "c_string arg"
  shows "strncmp ''-l'' arg 3 = 0 \<longleftrightarrow> arg = ''-l''" "strncmp ''-a'' arg 3 = 0 \<longleftrightarrow> arg = ''-a''"
    "strncmp ''-s'' arg 3 = 0 \<longleftrightarrow> arg = ''-s''" "strncmp ''-n'' arg 3 = 0 \<longleftrightarrow> arg = ''-n''"
    "strncmp ''-w'' arg 3 = 0 \<longleftrightarrow> arg = ''-w''" "strncmp ''-t'' arg 3 = 0 \<longleftrightarrow> arg = ''-t''"
    "strncmp ''-d'' arg 3 = 0 \<longleftrightarrow> arg = ''-d''" "strncmp ''-h'' arg 3 = 0 \<longleftrightarrow> arg = ''-h''"
    "strncmp ''-Lu'' arg 3 = 0 \<longleftrightarrow> (\<exists>rest. arg = ''-Lu'' @ rest)" "strncmp ''-Ld'' arg 3 = 0 \<longleftrightarrow> (\<exists>rest. arg = ''-Ld'' @ rest)"
proof -
  have prefix: "strncmp s arg 3 = 0 \<longleftrightarrow> (\<exists>rest. arg = s @ rest)" if "c_string s" "length s = 3" for s
  proof -
    have "strncmp s arg 3 = 0 \<longleftrightarrow> s = take 3 arg" using strncmp_eq_0 [OF that(1) assms, of 3] that(2) by simp
    also have "\<dots> \<longleftrightarrow> (\<exists>rest. arg = s @ rest)" using append_take_drop_id [of 3 arg] that(2) by (metis append_eq_conv_conj)
    finally show ?thesis .
  qed
  show "strncmp ''-l'' arg 3 = 0 \<longleftrightarrow> arg = ''-l''" "strncmp ''-a'' arg 3 = 0 \<longleftrightarrow> arg = ''-a''"
    "strncmp ''-s'' arg 3 = 0 \<longleftrightarrow> arg = ''-s''" "strncmp ''-n'' arg 3 = 0 \<longleftrightarrow> arg = ''-n''"
    "strncmp ''-w'' arg 3 = 0 \<longleftrightarrow> arg = ''-w''" "strncmp ''-t'' arg 3 = 0 \<longleftrightarrow> arg = ''-t''"
    "strncmp ''-d'' arg 3 = 0 \<longleftrightarrow> arg = ''-d''" "strncmp ''-h'' arg 3 = 0 \<longleftrightarrow> arg = ''-h''"
    by (rule short_option [OF assms]; simp add: c_string_def)+
  show "strncmp ''-Lu'' arg 3 = 0 \<longleftrightarrow> (\<exists>rest. arg = ''-Lu'' @ rest)" "strncmp ''-Ld'' arg 3 = 0 \<longleftrightarrow> (\<exists>rest. arg = ''-Ld'' @ rest)"
    by (rule prefix; simp add: c_string_def)+
qed

section \<open>The contract of an option reader\<close>

text \<open>The option \<open>opt\<close> stands at position \<open>cur\<close>, and at least two arguments follow.\<close>

definition stands_at :: "cli_option \<Rightarrow> string list \<Rightarrow> nat \<Rightarrow> bool" where
  "stands_at opt argv cur \<longleftrightarrow> take (length (render opt)) (drop cur argv) = render opt \<and> cur + length (render opt) + 2 \<le> length argv"

lemma render_Suc: "\<exists>k. length (render opt) = Suc k"
  by (cases opt) simp_all

locale command_line =
  fixes body :: option_reader and loss_rate :: "string \<Rightarrow> u16 option" and knows :: "cli_option \<Rightarrow> bool"
  assumes reads: "\<forall>arg \<in> set argv. c_string arg \<Longrightarrow> knows opt \<Longrightarrow> stands_at opt argv cur \<Longrightarrow>
      body argv cur s = map_option (\<lambda>t. Goes (cur + length (render opt), t)) (apply_option loss_rate opt s)"
    and only: "\<forall>arg \<in> set argv. c_string arg \<Longrightarrow> cur + 2 < length argv \<Longrightarrow>
      (\<exists>opt. knows opt \<and> stands_at opt argv cur) \<or> (\<exists>code text. body argv cur s = Some (Exits code text))"
begin

lemma loop_reads:
  assumes "\<forall>opt \<in> set opts. knows opt" and "\<forall>arg \<in> set (front @ concat (map render opts) @ [host, port]). c_string arg"
  shows "config_loop body (front @ concat (map render opts) @ [host, port]) (length front) s =
    map_option (\<lambda>t. Goes (length front + length (concat (map render opts)), t)) (apply_options loss_rate opts s)"
  using assms
proof (induction opts arbitrary: front s)
  case Nil
  then show ?case by (simp add: config_loop.simps)
next
  case (Cons opt opts)
  let ?argv = "front @ concat (map render (opt # opts)) @ [host, port]"
  have at: "stands_at opt ?argv (length front)" by (simp add: stands_at_def)
  obtain k where k: "length (render opt) = Suc k" using render_Suc by blast
  have body: "body ?argv (length front) s =
      map_option (\<lambda>t. Goes (length front + length (render opt), t)) (apply_option loss_rate opt s)"
    using Cons.prems by (intro reads at) auto
  have next_: "config_loop body ?argv (length front + length (render opt)) t =
      map_option (\<lambda>t. Goes (length front + length (concat (map render (opt # opts))), t)) (apply_options loss_rate opts t)" for t
    using Cons.IH [of "front @ render opt" t] Cons.prems by (simp add: add.assoc)
  have "length ?argv - length front > 2" using k by simp
  then show ?case
    unfolding config_loop.simps [of body ?argv "length front" s] body
    by (cases "apply_option loss_rate opt s") (simp_all add: next_ [simplified])
qed

lemma loop_only:
  assumes "\<forall>arg \<in> set argv. c_string arg" and "config_loop body argv cur s = Some (Goes (cur', t))" and "cur + 2 \<le> length argv"
  obtains opts host port where "\<forall>opt \<in> set opts. knows opt" and "drop cur argv = concat (map render opts) @ [host, port]"
  using assms
proof (induction "length argv - cur" arbitrary: cur s thesis rule: less_induct)
  case less
  show ?case
  proof (cases "length argv - cur > 2")
    case False
    then have "length (drop cur argv) = 2" using less.prems(4) by simp
    then obtain host port where "drop cur argv = [host, port]" by (metis length_0_conv length_Suc_conv numeral_2_eq_2)
    then show ?thesis using less.prems(1) [of "[]" host port] by simp
  next
    case True
    then have long: "cur + 2 < length argv" by simp
    have loop: "Option.bind (body argv cur s) (\<lambda>r. case r of Exits code text \<Rightarrow> Some (Exits code text)
        | Goes next \<Rightarrow> config_loop body argv (fst next) (snd next)) = Some (Goes (cur', t))"
      using less.prems(3) True by (simp add: config_loop.simps [of body argv cur])
    then obtain opt where opt: "knows opt" "stands_at opt argv cur" using only [OF less.prems(2) long, of s] by auto
    then obtain s' where rest: "config_loop body argv (cur + length (render opt)) s' = Some (Goes (cur', t))"
      using loop reads [OF less.prems(2) opt, of s] by (cases "apply_option loss_rate opt s") auto
    obtain k where k: "length (render opt) = Suc k" using render_Suc by blast
    obtain opts host port where os: "\<forall>opt \<in> set opts. knows opt"
      "drop (cur + length (render opt)) argv = concat (map render opts) @ [host, port]"
      by (rule less.hyps [OF _ _ less.prems(2) rest]) (use long opt(2) in \<open>auto simp: stands_at_def k\<close>)
    have "drop cur argv = render opt @ drop (length (render opt)) (drop cur argv)"
      using opt(2) append_take_drop_id [of "length (render opt)" "drop cur argv"] by (simp add: stands_at_def)
    then have "drop cur argv = concat (map render (opt # opts)) @ [host, port]" using os(2) by (simp add: add.commute)
    then show ?thesis using less.prems(1) [of "opt # opts" host port] os(1) opt(1) by simp
  qed
qed

text \<open>A command line is accepted exactly when it is options followed by two arguments.\<close>

lemma loop_accepts:
  assumes "\<forall>arg \<in> set argv. c_string arg" and "3 \<le> length argv"
  shows "config_loop body argv 1 s = Some (Goes (cur, t)) \<longleftrightarrow>
    (\<exists>opts host port. argv = hd argv # concat (map render opts) @ [host, port] \<and> (\<forall>opt \<in> set opts. knows opt) \<and>
      apply_options loss_rate opts s = Some t \<and> cur + 2 = length argv)"
proof -
  obtain prog rest where argv: "argv = prog # rest" using assms(2) by (cases argv) simp_all
  have run: "config_loop body argv 1 s = map_option (\<lambda>t. Goes (length argv - 2, t)) (apply_options loss_rate opts s)"
    if "rest = concat (map render opts) @ [host, port]" "\<forall>opt \<in> set opts. knows opt" for opts host port
    using loop_reads [OF that(2), of "[prog]" host port s] assms(1) by (simp add: argv that(1))
  show ?thesis
  proof
    assume loop: "config_loop body argv 1 s = Some (Goes (cur, t))"
    obtain opts host port where o: "\<forall>opt \<in> set opts. knows opt" "rest = concat (map render opts) @ [host, port]"
      by (rule loop_only [OF assms(1) loop]) (use assms(2) in \<open>auto simp: argv\<close>)
    show "\<exists>opts host port. argv = hd argv # concat (map render opts) @ [host, port] \<and> (\<forall>opt \<in> set opts. knows opt) \<and>
        apply_options loss_rate opts s = Some t \<and> cur + 2 = length argv"
      using run [OF o(2,1)] loop o assms(2) by (intro exI [of _ opts] exI [of _ host] exI [of _ port]) (auto simp: argv)
  next
    assume "\<exists>opts host port. argv = hd argv # concat (map render opts) @ [host, port] \<and> (\<forall>opt \<in> set opts. knows opt) \<and>
        apply_options loss_rate opts s = Some t \<and> cur + 2 = length argv"
    then obtain opts host port where o: "rest = concat (map render opts) @ [host, port]" "\<forall>opt \<in> set opts. knows opt"
      "apply_options loss_rate opts s = Some t" "cur + 2 = length argv" unfolding argv by auto
    then show "config_loop body argv 1 s = Some (Goes (cur, t))" using run [OF o(1,2)] by simp
  qed
qed

text \<open>The loop ends, and it is undefined only where a loss rate is.\<close>

lemma loop_returns:
  assumes "\<forall>arg \<in> set argv. c_string arg" and "\<And>opt s. knows opt \<Longrightarrow> apply_option loss_rate opt s \<noteq> None"
    and "cur + 2 \<le> length argv"
  shows "config_loop body argv cur s \<noteq> None"
  using assms(3)
proof (induction "length argv - cur" arbitrary: cur s rule: less_induct)
  case less
  show ?case
  proof (cases "length argv - cur > 2")
    case True
    then have long: "cur + 2 < length argv" by simp
    show ?thesis using only [OF assms(1) long, of s]
    proof
      assume "\<exists>opt. knows opt \<and> stands_at opt argv cur"
      then obtain opt where opt: "knows opt" "stands_at opt argv cur" by auto
      obtain k where k: "length (render opt) = Suc k" using render_Suc by blast
      obtain t where "body argv cur s = Some (Goes (cur + length (render opt), t))"
        using reads [OF assms(1) opt, of s] assms(2) [OF opt(1), of s] by auto
      moreover have "config_loop body argv (cur + length (render opt)) t \<noteq> None"
        by (rule less.hyps) (use long opt(2) in \<open>auto simp: stands_at_def k\<close>)
      ultimately show ?thesis using True by (simp add: config_loop.simps [of body argv cur])
    qed (use True in \<open>auto simp: config_loop.simps [of body argv cur]\<close>)
  qed (simp add: config_loop.simps [of body argv cur])
qed

end

section \<open>The three readers keep the contract\<close>

lemma stands_at_argv:
  assumes "stands_at opt argv cur" and "i < length (render opt)"
  shows "argv_at argv (cur + i) = Some (render opt ! i)"
proof -
  have "take (length (render opt)) (drop cur argv) ! i = render opt ! i" "cur + i < length argv"
    using assms by (simp_all add: stands_at_def)
  then show ?thesis using assms by (simp add: argv_at_def)
qed

lemma stands_at_one: "render opt = [arg] \<Longrightarrow> cur + 2 < length argv \<Longrightarrow> argv_at argv cur = Some arg \<Longrightarrow> stands_at opt argv cur"
  by (simp add: stands_at_def argv_at_def flip: Cons_nth_drop_Suc)

lemma stands_at_two:
  "render opt = [arg, v] \<Longrightarrow> cur + 3 < length argv \<Longrightarrow> argv_at argv cur = Some arg \<Longrightarrow> argv_at argv (cur + 1) = Some v \<Longrightarrow>
    stands_at opt argv cur"
  by (simp add: stands_at_def argv_at_def flip: Cons_nth_drop_Suc)

text \<open>The first argument of an option, its value, and the check for the number of arguments.\<close>

lemma stands_at_args:
  assumes "stands_at opt argv cur" and "\<forall>arg \<in> set argv. c_string arg"
  shows "argv_at argv cur = Some (hd (render opt))" and "c_string (hd (render opt))"
    and "render opt = [arg, v] \<Longrightarrow> argv_at argv (Suc cur) = Some v \<and> \<not> length argv \<le> cur + 3"
proof -
  obtain k where k: "length (render opt) = Suc k" using render_Suc by blast
  then have "render opt ! 0 = hd (render opt)" by (cases "render opt") simp_all
  then show a: "argv_at argv cur = Some (hd (render opt))" using stands_at_argv [OF assms(1), of 0] k by simp
  then show "c_string (hd (render opt))" using assms(2) nth_mem by (fastforce simp: argv_at_def split: if_splits)
  show "argv_at argv (Suc cur) = Some v \<and> \<not> length argv \<le> cur + 3" if "render opt = [arg, v]"
    using stands_at_argv [OF assms(1), of 1] assms(1) that by (simp add: stands_at_def)
qed

text \<open>The other half of the contract: an option is handled when a known option stands there or the program exits.\<close>

definition reading :: "string list \<Rightarrow> nat \<Rightarrow> string \<Rightarrow> string \<Rightarrow> bool" where
  "reading argv cur arg v \<longleftrightarrow> argv_at argv cur = Some arg \<and> argv_at argv (cur + 1) = Some v \<and> c_string arg \<and> cur + 2 < length argv"

definition handled :: "(cli_option \<Rightarrow> bool) \<Rightarrow> string list \<Rightarrow> nat \<Rightarrow> 'a outcome option \<Rightarrow> bool" where
  "handled knows argv cur r \<longleftrightarrow> (\<exists>opt. knows opt \<and> stands_at opt argv cur) \<or> (\<exists>code text. r = Some (Exits code text))"

lemma reading:
  assumes "\<forall>arg \<in> set argv. c_string arg" and "cur + 2 < length argv"
  obtains arg v where "reading argv cur arg v"
proof -
  have "argv ! cur \<in> set argv" using assms(2) by simp
  then have "c_string (argv ! cur)" using assms(1) by blast
  then show ?thesis using assms(2) by (intro that [of "argv ! cur" "argv ! (cur + 1)"]) (simp add: reading_def argv_at_def)
qed

lemma handled_value:
  assumes "reading argv cur arg v" and "knows opt" and "render opt = [arg, v]"
  shows "handled knows argv cur (check_argc usage argv cur err rest)"
proof (cases "cur + 3 < length argv")
  case True
  then show ?thesis using assms stands_at_two [OF assms(3) True] by (auto simp: handled_def reading_def)
next
  case False
  then show ?thesis using assms(1) by (auto simp: handled_def reading_def check_argc_def exit_with_def argv_at_def)
qed

lemma handled_exit:
  assumes "reading argv cur arg v"
  shows "handled knows argv cur (exit_with usage argv code msg)" and "handled knows argv cur (unrecognized usage argv arg')"
  using assms by (auto simp: handled_def reading_def unrecognized_def exit_with_def argv_at_def)

lemma handled_if: "(b \<Longrightarrow> handled knows argv cur r) \<Longrightarrow> (\<not> b \<Longrightarrow> handled knows argv cur s) \<Longrightarrow> handled knows argv cur (if b then r else s)"
  by simp

lemma handled_options:
  assumes "reading argv cur arg v"
  shows "strncmp ''-l'' arg 3 = 0 \<Longrightarrow> knows Listen \<Longrightarrow> handled knows argv cur r"
    and "strncmp ''-a'' arg 3 = 0 \<Longrightarrow> knows (Source_address v) \<Longrightarrow> handled knows argv cur (check_argc usage argv cur err rest)"
    and "strncmp ''-s'' arg 3 = 0 \<Longrightarrow> knows (Source_port v) \<Longrightarrow> handled knows argv cur (check_argc usage argv cur err rest)"
    and "strncmp ''-n'' arg 3 = 0 \<Longrightarrow> knows (Next_hop v) \<Longrightarrow> handled knows argv cur (check_argc usage argv cur err rest)"
    and "strncmp ''-w'' arg 3 = 0 \<Longrightarrow> knows (Window v) \<Longrightarrow> handled knows argv cur (check_argc usage argv cur err rest)"
    and "strncmp ''-t'' arg 3 = 0 \<Longrightarrow> knows (Timeout v) \<Longrightarrow> handled knows argv cur (check_argc usage argv cur err rest)"
    and "strncmp ''-d'' arg 3 = 0 \<Longrightarrow> knows (Device v) \<Longrightarrow> handled knows argv cur (check_argc usage argv cur err rest)"
    and "strncmp ''-Lu'' arg 3 = 0 \<Longrightarrow> (\<And>rest. knows (Loss_up rest v)) \<Longrightarrow> handled knows argv cur (check_argc usage argv cur err rest)"
    and "strncmp ''-Ld'' arg 3 = 0 \<Longrightarrow> (\<And>rest. knows (Loss_down rest v)) \<Longrightarrow> handled knows argv cur (check_argc usage argv cur err rest)"
proof -
  have "c_string arg" using assms by (simp add: reading_def)
  note str = option_strings [OF this] and value_ = handled_value [OF assms]
  show "handled knows argv cur r" if "strncmp ''-l'' arg 3 = 0" "knows Listen"
    using that stands_at_one [of Listen arg cur argv] assms by (auto simp: str handled_def reading_def)
  show "handled knows argv cur (check_argc usage argv cur err rest)" if "strncmp ''-a'' arg 3 = 0" "knows (Source_address v)"
    by (rule value_ [of knows, OF that(2)]) (use that(1) in \<open>simp add: str\<close>)
  show "handled knows argv cur (check_argc usage argv cur err rest)" if "strncmp ''-s'' arg 3 = 0" "knows (Source_port v)"
    by (rule value_ [of knows, OF that(2)]) (use that(1) in \<open>simp add: str\<close>)
  show "handled knows argv cur (check_argc usage argv cur err rest)" if "strncmp ''-n'' arg 3 = 0" "knows (Next_hop v)"
    by (rule value_ [of knows, OF that(2)]) (use that(1) in \<open>simp add: str\<close>)
  show "handled knows argv cur (check_argc usage argv cur err rest)" if "strncmp ''-w'' arg 3 = 0" "knows (Window v)"
    by (rule value_ [of knows, OF that(2)]) (use that(1) in \<open>simp add: str\<close>)
  show "handled knows argv cur (check_argc usage argv cur err rest)" if "strncmp ''-t'' arg 3 = 0" "knows (Timeout v)"
    by (rule value_ [of knows, OF that(2)]) (use that(1) in \<open>simp add: str\<close>)
  show "handled knows argv cur (check_argc usage argv cur err rest)" if "strncmp ''-d'' arg 3 = 0" "knows (Device v)"
    by (rule value_ [of knows, OF that(2)]) (use that(1) in \<open>simp add: str\<close>)
  show "handled knows argv cur (check_argc usage argv cur err rest)" if "strncmp ''-Lu'' arg 3 = 0" "\<And>rest. knows (Loss_up rest v)"
    by (rule value_ [of knows, OF that(2) [of "drop 3 arg"]]) (use that(1) in \<open>auto simp: str\<close>)
  show "handled knows argv cur (check_argc usage argv cur err rest)" if "strncmp ''-Ld'' arg 3 = 0" "\<And>rest. knows (Loss_down rest v)"
    by (rule value_ [of knows, OF that(2) [of "drop 3 arg"]]) (use that(1) in \<open>auto simp: str\<close>)
qed

interpretation udp_line: command_line "udp_option loss_rate" loss_rate udp_knows
proof
  fix argv opt cur s
  assume argv: "\<forall>arg \<in> set argv. c_string arg" and opt: "udp_knows opt" "stands_at opt argv cur"
  show "udp_option loss_rate argv cur s =
      map_option (\<lambda>t. Goes (cur + length (render opt), t)) (apply_option loss_rate opt s)"
    using opt(1) stands_at_args [OF opt(2) argv]
    by (cases opt) (simp_all add: udp_option_def option_strings check_argc_def map_option_case split: option.split)
next
  fix argv cur s
  assume argv: "\<forall>arg \<in> set argv. c_string arg" "cur + 2 < length argv"
  obtain arg v where r: "reading argv cur arg v" by (rule reading [OF argv])
  then have arg: "argv_at argv cur = Some arg" by (simp add: reading_def)
  have "handled udp_knows argv cur (udp_option loss_rate argv cur s)"
    unfolding udp_option_def arg bind.bind_lunit
    by (intro handled_if; (erule handled_options [OF r] | rule handled_exit [OF r])?; simp?)
  then show "(\<exists>opt. udp_knows opt \<and> stands_at opt argv cur) \<or> (\<exists>code text. udp_option loss_rate argv cur s = Some (Exits code text))"
    by (simp add: handled_def)
qed

interpretation ipv4_line: command_line "ipv4_option loss_rate" loss_rate ipv4_knows
proof
  fix argv opt cur s
  assume argv: "\<forall>arg \<in> set argv. c_string arg" and opt: "ipv4_knows opt" "stands_at opt argv cur"
  show "ipv4_option loss_rate argv cur s =
      map_option (\<lambda>t. Goes (cur + length (render opt), t)) (apply_option loss_rate opt s)"
    using opt(1) stands_at_args [OF opt(2) argv]
    by (cases opt) (simp_all add: ipv4_option_def option_strings check_argc_def map_option_case split: option.split)
next
  fix argv cur s
  assume argv: "\<forall>arg \<in> set argv. c_string arg" "cur + 2 < length argv"
  obtain arg v where r: "reading argv cur arg v" by (rule reading [OF argv])
  then have arg: "argv_at argv cur = Some arg" by (simp add: reading_def)
  have "handled ipv4_knows argv cur (ipv4_option loss_rate argv cur s)"
    unfolding ipv4_option_def arg bind.bind_lunit
    by (intro handled_if; (erule handled_options [OF r] | rule handled_exit [OF r])?; simp?)
  then show "(\<exists>opt. ipv4_knows opt \<and> stands_at opt argv cur) \<or> (\<exists>code text. ipv4_option loss_rate argv cur s = Some (Exits code text))"
    by (simp add: handled_def)
qed

text \<open>The program over Ethernet has no loss rates.\<close>

interpretation ethernet_line: command_line ethernet_option "\<lambda>_. None" ethernet_knows
proof
  fix argv opt cur s
  assume argv: "\<forall>arg \<in> set argv. c_string arg" and opt: "ethernet_knows opt" "stands_at opt argv cur"
  show "ethernet_option argv cur s =
      map_option (\<lambda>t. Goes (cur + length (render opt), t)) (apply_option (\<lambda>_. None) opt s)"
    using opt(1) stands_at_args [OF opt(2) argv]
    by (cases opt) (simp_all add: ethernet_option_def option_strings check_argc_def)
next
  fix argv cur s
  assume argv: "\<forall>arg \<in> set argv. c_string arg" "cur + 2 < length argv"
  obtain arg v where r: "reading argv cur arg v" by (rule reading [OF argv])
  then have arg: "argv_at argv cur = Some arg" by (simp add: reading_def)
  have "handled ethernet_knows argv cur (ethernet_option argv cur s)"
    unfolding ethernet_option_def arg bind.bind_lunit
    by (intro handled_if; (erule handled_options [OF r] | rule handled_exit [OF r])?; simp?)
  then show "(\<exists>opt. ethernet_knows opt \<and> stands_at opt argv cur) \<or> (\<exists>code text. ethernet_option argv cur s = Some (Exits code text))"
    by (simp add: handled_def)
qed

section \<open>The arguments of udp\_tcpdump\<close>

definition dump_show_usage :: "string \<Rightarrow> string option \<Rightarrow> string" where
  "dump_show_usage arg0 errmsg =
     ''Usage: '' @ arg0 @ '' [-i <intf>] [-F <file>] [-h|--help] <expression>'' @ newline @ newline @
     ''  -i <intf>    only capture packets from <intf> (default: all)'' @ newline @ newline @
     ''  -F <file>    reads in a filter expression from <file>'' @ newline @
     ''               <expression> is ignored if -F is supplied.'' @ newline @ newline @ ''  -h, --help   show this message'' @
     newline @ newline @ ''  <expression> a filter expression in pcap-filter(7) syntax'' @ newline @
     (case errmsg of None \<Rightarrow> [] | Some errmsg \<Rightarrow> newline @ errmsg) @ newline"

definition check_arg :: "string list \<Rightarrow> nat \<Rightarrow> string \<Rightarrow> 'a outcome option \<Rightarrow> 'a outcome option" where
  "check_arg argv cur errmsg rest = (if cur + 1 \<ge> length argv then exit_with dump_show_usage argv 1 (Some errmsg) else rest)"

text \<open>The position of the filter expression and the device, if one is named.\<close>

function parse_arguments :: "string list \<Rightarrow> nat \<Rightarrow> string option \<Rightarrow> (nat \<times> string option) outcome option" where
  "parse_arguments argv cur dev =
     (if cur < length argv then do {
        arg \<leftarrow> argv_at argv cur;
        if strncmp ''-i'' arg 3 = 0 then check_arg argv cur ''ERROR: -i requires an argument'' (do {
          dev \<leftarrow> argv_at argv (cur + 1);
          parse_arguments argv (cur + 2) (Some dev)
        })
        else if strncmp ''-h'' arg 3 = 0 \<or> strncmp ''--help'' arg 7 = 0 then exit_with dump_show_usage argv 0 None
        else Some (Goes (cur, dev))
      }
      else Some (Goes (cur, dev)))"
  by pat_completeness auto
termination by (relation "measure (\<lambda>(argv, cur, _). length argv - cur)") auto

declare parse_arguments.simps [simp del]

text \<open>It returns for every list of arguments, inside it.\<close>

lemma parse_arguments_returns:
  assumes "argv \<noteq> []" and "cur \<le> length argv"
  shows "\<exists>r. parse_arguments argv cur dev = Some r \<and> (\<forall>start dev'. r = Goes (start, dev') \<longrightarrow> cur \<le> start \<and> start \<le> length argv)"
  using assms
proof (induction argv cur dev rule: parse_arguments.induct)
  case (1 argv cur dev)
  note e = parse_arguments.simps [of argv cur dev]
  show ?case
  proof (cases "cur + 1 < length argv \<and> strncmp ''-i'' (argv ! cur) 3 = 0")
    case True
    then have step: "parse_arguments argv cur dev = parse_arguments argv (cur + 2) (Some (argv ! (cur + 1)))"
      by (simp add: e argv_at_def check_arg_def)
    have "\<exists>r. parse_arguments argv (cur + 2) (Some (argv ! (cur + 1))) = Some r \<and>
        (\<forall>start dev'. r = Goes (start, dev') \<longrightarrow> cur + 2 \<le> start \<and> start \<le> length argv)"
      by (rule "1.IH") (use True "1.prems" in \<open>auto simp: argv_at_def\<close>)
    then show ?thesis unfolding step by fastforce
  next
    case False
    then show ?thesis using "1.prems" by (auto simp: e argv_at_def check_arg_def exit_with_def)
  qed
qed

section \<open>The property\<close>

text \<open>C40. A command line is accepted by the loop of \<open>get_config\<close> exactly when it is a sequence of options the
  program knows, with their values, followed by two more arguments, the host and the port, at which the loop
  stops; the configuration is then the result of applying the options in order. This holds for all
  three programs. The loop ends on every command line.\<close>

theorem get_config_accepts:
  assumes "\<forall>arg \<in> set argv. c_string arg" and "3 \<le> length argv"
  shows "(config_loop (udp_option loss_rate) argv 1 s = Some (Goes (cur, t)) \<longleftrightarrow>
      (\<exists>opts host port. argv = hd argv # concat (map render opts) @ [host, port] \<and> (\<forall>opt \<in> set opts. udp_knows opt) \<and>
        apply_options loss_rate opts s = Some t \<and> cur + 2 = length argv)) \<and>
    (config_loop (ipv4_option loss_rate) argv 1 s = Some (Goes (cur, t)) \<longleftrightarrow>
      (\<exists>opts host port. argv = hd argv # concat (map render opts) @ [host, port] \<and> (\<forall>opt \<in> set opts. ipv4_knows opt) \<and>
        apply_options loss_rate opts s = Some t \<and> cur + 2 = length argv)) \<and>
    (config_loop ethernet_option argv 1 s = Some (Goes (cur, t)) \<longleftrightarrow>
      (\<exists>opts host port. argv = hd argv # concat (map render opts) @ [host, port] \<and> (\<forall>opt \<in> set opts. ethernet_knows opt) \<and>
        apply_options (\<lambda>_. None) opts s = Some t \<and> cur + 2 = length argv)) \<and>
    ((\<forall>v. loss_rate v \<noteq> None) \<longrightarrow> config_loop (udp_option loss_rate) argv 1 s \<noteq> None \<and> config_loop (ipv4_option loss_rate) argv 1 s \<noteq> None) \<and>
    config_loop ethernet_option argv 1 s \<noteq> None"
proof (intro conjI impI)
  have total: "apply_option loss_rate opt s \<noteq> None" if "\<forall>v. loss_rate v \<noteq> None" for opt s
    using that by (cases opt) auto
  show "config_loop (udp_option loss_rate) argv 1 s \<noteq> None" "config_loop (ipv4_option loss_rate) argv 1 s \<noteq> None"
    if "\<forall>v. loss_rate v \<noteq> None"
    by (intro udp_line.loop_returns ipv4_line.loop_returns assms(1) total [OF that]; use assms(2) in simp)+
  have "apply_option (\<lambda>_. None) opt s \<noteq> None" if "ethernet_knows opt" for opt s using that by (cases opt) auto
  then show "config_loop ethernet_option argv 1 s \<noteq> None"
    using assms by (intro ethernet_line.loop_returns) auto
qed (rule udp_line.loop_accepts [OF assms] ipv4_line.loop_accepts [OF assms] ethernet_line.loop_accepts [OF assms])+

definition example_line :: "string list" where
  "example_line = [''tcp_ipv4'', ''-l'', ''-w'', ''0x10'', ''-Lux'', ''0.5'', ''host'', ''80'']"

definition example_start :: config_state where
  "example_start = config_start \<lparr>fc_source = ipv4_address 0 0, fc_destination = ipv4_address 0 0, fc_loss_rate_dn = 0,
     fc_loss_rate_up = 0\<rparr> None [] [] []"

theorem get_config_accepts_witness:
  "\<exists>t. config_loop (ipv4_option (\<lambda>_. Some 7)) example_line 1 example_start = Some (Goes (6, t)) \<and>
     cl_listen t \<and> cfg_recv_capacity (cl_fsm t) = 16 \<and> fc_loss_rate_up (cl_filt t) = 7"
proof -
  let ?opts = "[Listen, Window ''0x10'', Loss_up ''x'' ''0.5'']"
  have line: "\<forall>arg \<in> set example_line. c_string arg" "3 \<le> length example_line" by (simp_all add: example_line_def c_string_def)
  obtain t where t: "apply_options (\<lambda>_. Some 7) ?opts example_start = Some t" by simp
  have "example_line = hd example_line # concat (map render ?opts) @ [''host'', ''80'']" "\<forall>opt \<in> set ?opts. ipv4_knows opt"
    "6 + 2 = length example_line" by (simp_all add: example_line_def)
  then have "\<exists>opts host port. example_line = hd example_line # concat (map render opts) @ [host, port] \<and>
      (\<forall>opt \<in> set opts. ipv4_knows opt) \<and> apply_options (\<lambda>_. Some 7) opts example_start = Some t \<and> 6 + 2 = length example_line"
    using t by blast
  then have "config_loop (ipv4_option (\<lambda>_. Some 7)) example_line 1 example_start = Some (Goes (6, t))"
    by (rule get_config_accepts [OF line, of "\<lambda>_. Some 7" example_start 6 t, THEN conjunct2, THEN conjunct1, THEN iffD2])
  moreover have "strtol ''0x10'' = 16"
    by (simp add: strtol_def base_prefix_def is_base_digit_def base_digit_def is_space_def)
  ultimately show ?thesis using t by (auto simp: set_recv_capacity_def set_loss_rate_up_def)
qed

end
