(* ===== verification/Programs.thy ===== *)
theory Programs
  imports Sponge_System Sockets Command_Line
begin

unbundle bit_operations_syntax

text \<open>
  The programs from the command line to the connection: apps/tcp\_udp.cc, apps/tcp\_ipv4.cc,
  apps/tcp\_ip\_ethernet.cc, apps/tcp\_native.cc, apps/webget.cc and the main function of
  apps/udp\_tcpdump.cc, and the sockets CS144TCPSocket and FullStackSocket (libsponge/tcp\_helpers/tcp\_sponge\_socket.cc).
  The programs that use a TCPSpongeSocket are modelled up to the start of the connection, in the state that theory
  Sponge\_System goes on from; the copying of the standard streams is theory Stream\_Copy.
\<close>

section \<open>Constructing a TCPSpongeSocket\<close>

text \<open>What the system answers while a socket is constructed and a connection is started: the socket pair, the flags of
  its second end, the random numbers and the time.\<close>

record startup =
  su_socketpair :: "(int \<times> int) \<times> (int \<times> int)"
  su_getfl :: "int \<times> int"
  su_setfl :: "int \<Rightarrow> int \<times> int"
  su_calls :: system_calls
  su_isn :: u32
  su_port :: u16
  su_bytes :: bytes
  su_loss :: "u32 stream"
  su_time :: u64

definition TCPSpongeSocket_new :: "'k kernel \<Rightarrow> startup \<Rightarrow> 'a \<Rightarrow> 'k \<Rightarrow> 'a TCPSpongeSocket option" where
  "TCPSpongeSocket_new os su datagram_interface k = do {
     (first, second) \<leftarrow> socket_pair_helper (su_socketpair su);
     owner \<leftarrow> LocalStreamSocket_of_fd os first k;
     thread_data \<leftarrow> LocalStreamSocket_of_fd os second k;
     TCPSpongeSocket_init (su_getfl su) (su_setfl su) (owner, thread_data) datagram_interface (su_calls su)
   }"

text \<open>An adapter as it is constructed, over its device.\<close>

definition FdAdapterBase_init :: "resolver \<Rightarrow> FdAdapterBase option" where
  "FdAdapterBase_init rs = map_option (\<lambda>cfg. \<lparr>fa_cfg = cfg, fa_listen = False\<rparr>) (FdAdapterConfig_default rs)"

definition device_adapter_init :: "resolver \<Rightarrow> FDWrapper \<Rightarrow> FdAdapterBase device_adapter option" where
  "device_adapter_init rs fd = map_option (\<lambda>base. \<lparr>da_fd = fd, da_adapter = base\<rparr>) (FdAdapterBase_init rs)"

definition lossy_init :: "startup \<Rightarrow> 'a \<Rightarrow> 'a LossyFdAdapter" where
  "lossy_init su adapter = \<lparr>ly_rand = su_loss su, ly_adapter = adapter\<rparr>"

text \<open>The constructor of the Ethernet adapter writes a frame to the device.\<close>

definition ethernet_adapter_init ::
  "resolver \<Rightarrow> write_call \<Rightarrow> FDWrapper \<Rightarrow> EthernetAddress \<Rightarrow> Address \<Rightarrow> Address \<Rightarrow>
    (bytes list \<times> TCPOverIPv4OverEthernetAdapter device_adapter) option" where
  "ethernet_adapter_init rs writev tap eth_address ip_address next_hop = do {
     base \<leftarrow> FdAdapterBase_init rs;
     let (frames, adapter) = TCPOverIPv4OverEthernetAdapter_init base eth_address ip_address next_hop;
     (written, fd) \<leftarrow> write_frames writev frames tap;
     Some (written, \<lparr>da_fd = fd, da_adapter = adapter\<rparr>)
   }"

text \<open>A random address that is not owned by a manufacturer.\<close>

definition random_private_ethernet_address :: "bytes \<Rightarrow> EthernetAddress" where
  "random_private_ethernet_address random =
     (let addr = take 6 random in addr[0 := (addr ! 0 OR 0x02) AND 0xfe])"

section \<open>CS144TCPSocket and FullStackSocket\<close>

definition CS144TCPSocket_init :: "'k kernel \<Rightarrow> resolver \<Rightarrow> startup \<Rightarrow> 'k \<Rightarrow> (FdAdapterBase device_adapter TCPSpongeSocket \<times> 'k) option" where
  "CS144TCPSocket_init os rs su k = do {
     (tun, k) \<leftarrow> TunTapFD_init os ''tun144'' True k;
     adapter \<leftarrow> device_adapter_init rs tun;
     s \<leftarrow> TCPSpongeSocket_new os su adapter k;
     Some (s, k)
   }"

definition helper_config :: "resolver \<Rightarrow> string \<Rightarrow> u16 \<Rightarrow> Address \<Rightarrow> (TCPConfig \<times> FdAdapterConfig) option" where
  "helper_config rs local_address random_port address = do {
     multiplexer_config \<leftarrow> FdAdapterConfig_default rs;
     source \<leftarrow> Address_of_service rs local_address (dec_string (unat random_port));
     Some (TCPConfig_default\<lparr>cfg_rt_timeout := 100\<rparr>, multiplexer_config\<lparr>fc_source := source, fc_destination := address\<rparr>)
   }"

definition CS144TCPSocket_connect ::
  "resolver \<Rightarrow> startup \<Rightarrow> Address \<Rightarrow> FdAdapterBase device_adapter TCPSpongeSocket \<Rightarrow> FdAdapterBase device_adapter TCPSpongeSocket thread option" where
  "CS144TCPSocket_connect rs su address s = do {
     (tcp_config, multiplexer_config) \<leftarrow> helper_config rs ''169.254.144.9'' (su_port su) address;
     start rs (tun_adapter rs) False tcp_config multiplexer_config (su_isn su) (su_time su) s
   }"

definition LOCAL_TAP_IP_ADDRESS :: string where "LOCAL_TAP_IP_ADDRESS = ''169.254.10.9''"
definition LOCAL_TAP_NEXT_HOP_ADDRESS :: string where "LOCAL_TAP_NEXT_HOP_ADDRESS = ''169.254.10.1''"

definition FullStackSocket_init ::
  "'k kernel \<Rightarrow> resolver \<Rightarrow> write_call \<Rightarrow> startup \<Rightarrow> 'k \<Rightarrow> (TCPOverIPv4OverEthernetAdapter device_adapter TCPSpongeSocket \<times> 'k) option" where
  "FullStackSocket_init os rs writev su k = do {
     (tap, k) \<leftarrow> TunTapFD_init os ''tap10'' False k;
     ip_address \<leftarrow> Address_of_service rs LOCAL_TAP_IP_ADDRESS ''0'';
     next_hop \<leftarrow> Address_of_service rs LOCAL_TAP_NEXT_HOP_ADDRESS ''0'';
     (_, adapter) \<leftarrow> ethernet_adapter_init rs writev tap (random_private_ethernet_address (su_bytes su)) ip_address next_hop;
     s \<leftarrow> TCPSpongeSocket_new os su adapter k;
     Some (s, k)
   }"

definition FullStackSocket_connect ::
  "resolver \<Rightarrow> startup \<Rightarrow> Address \<Rightarrow> TCPOverIPv4OverEthernetAdapter device_adapter TCPSpongeSocket \<Rightarrow>
    TCPOverIPv4OverEthernetAdapter device_adapter TCPSpongeSocket thread option" where
  "FullStackSocket_connect rs su address s = do {
     (tcp_config, multiplexer_config) \<leftarrow> helper_config rs LOCAL_TAP_IP_ADDRESS (su_port su) address;
     start rs (ethernet_adapter rs) False tcp_config multiplexer_config (su_isn su) (su_time su) s
   }"

section \<open>The programs with a TCPSpongeSocket\<close>

abbreviation missing_arguments :: string where
  "missing_arguments \<equiv> ''ERROR: required arguments are missing.''"

definition tcp_udp_start ::
  "'k kernel \<Rightarrow> resolver \<Rightarrow> (string \<Rightarrow> u16 option) \<Rightarrow> startup \<Rightarrow> string list \<Rightarrow> 'k \<Rightarrow>
    (FdAdapterBase device_adapter LossyFdAdapter TCPSpongeSocket thread \<times> 'k) outcome option" where
  "tcp_udp_start os rs loss_rate su argv k =
     (if length argv < 3 then exit_with udp_show_usage argv 1 (Some missing_arguments)
      else do {
        r \<leftarrow> udp_get_config rs loss_rate argv;
        (case r of
           Exits code text \<Rightarrow> Some (Exits code text)
         | Goes (c_fsm, c_filt, listen) \<Rightarrow> do {
             (udp_sock, k) \<leftarrow> UDPSocket_init os k;
             k \<leftarrow> (if listen then Socket_bind os (fc_source c_filt) udp_sock k else Some k);
             adapter \<leftarrow> device_adapter_init rs udp_sock;
             s \<leftarrow> TCPSpongeSocket_new os su (lossy_init su adapter) k;
             thread \<leftarrow> start rs (lossy_adapter (udp_adapter rs)) listen c_fsm c_filt (su_isn su) (su_time su) s;
             Some (Goes (thread, k))
           })
      })"

definition tcp_ipv4_start ::
  "'k kernel \<Rightarrow> resolver \<Rightarrow> (string \<Rightarrow> u16 option) \<Rightarrow> startup \<Rightarrow> string list \<Rightarrow> 'k \<Rightarrow>
    (FdAdapterBase device_adapter LossyFdAdapter TCPSpongeSocket thread \<times> 'k) outcome option" where
  "tcp_ipv4_start os rs loss_rate su argv k =
     (if length argv < 3 then exit_with ipv4_show_usage argv 1 (Some missing_arguments)
      else do {
        r \<leftarrow> ipv4_get_config rs loss_rate (su_port su) argv;
        (case r of
           Exits code text \<Rightarrow> Some (Exits code text)
         | Goes (c_fsm, c_filt, listen, tun_dev_name) \<Rightarrow> do {
             (tun, k) \<leftarrow> TunTapFD_init os (case tun_dev_name of None \<Rightarrow> TUN_DFLT | Some name \<Rightarrow> name) True k;
             adapter \<leftarrow> device_adapter_init rs tun;
             s \<leftarrow> TCPSpongeSocket_new os su (lossy_init su adapter) k;
             thread \<leftarrow> start rs (lossy_adapter (tun_adapter rs)) listen c_fsm c_filt (su_isn su) (su_time su) s;
             Some (Goes (thread, k))
           })
      })"

definition tcp_ip_ethernet_start ::
  "'k kernel \<Rightarrow> resolver \<Rightarrow> write_call \<Rightarrow> startup \<Rightarrow> string list \<Rightarrow> 'k \<Rightarrow>
    (TCPOverIPv4OverEthernetAdapter device_adapter TCPSpongeSocket thread \<times> 'k) outcome option" where
  "tcp_ip_ethernet_start os rs writev su argv k =
     (if length argv < 3 then exit_with ethernet_show_usage argv 1 (Some missing_arguments)
      else do {
        let local_ethernet_address = random_private_ethernet_address (su_bytes su);
        r \<leftarrow> ethernet_get_config rs (su_port su) argv;
        (case r of
           Exits code text \<Rightarrow> Some (Exits code text)
         | Goes (c_fsm, c_filt, next_hop, tap_dev_name) \<Rightarrow> do {
             (tap, k) \<leftarrow> TunTapFD_init os tap_dev_name False k;
             (_, adapter) \<leftarrow> ethernet_adapter_init rs writev tap local_ethernet_address (fc_source c_filt) next_hop;
             s \<leftarrow> TCPSpongeSocket_new os su adapter k;
             thread \<leftarrow> start rs (ethernet_adapter rs) False c_fsm c_filt (su_isn su) (su_time su) s;
             Some (Goes (thread, k))
           })
      })"

section \<open>apps/tcp\_native.cc\<close>

definition native_show_usage :: "string \<Rightarrow> string option \<Rightarrow> string" where
  "native_show_usage argv0 msg = ''Usage: '' @ argv0 @ '' [-l] <host> <port>'' @ newline @ newline @
     ''  -l specifies listen mode; <host>:<port> is the listening address.'' @ newline"

text \<open>The socket of the program. The listening socket is destroyed when the connection was accepted.\<close>

definition native_socket :: "'k kernel \<Rightarrow> resolver \<Rightarrow> bool \<Rightarrow> string list \<Rightarrow> 'k \<Rightarrow> (FDWrapper \<times> 'k) option" where
  "native_socket os rs server_mode argv k =
     (if server_mode then do {
        (listening_socket, k) \<leftarrow> TCPSocket_init os k;
        k \<leftarrow> Socket_set_reuseaddr os listening_socket k;
        host \<leftarrow> argv_at argv 2;
        port \<leftarrow> argv_at argv 3;
        address \<leftarrow> Address_of_service rs host port;
        k \<leftarrow> Socket_bind os address listening_socket k;
        k \<leftarrow> TCPSocket_listen os 16 listening_socket k;
        (socket, listening_socket, k) \<leftarrow> TCPSocket_accept os listening_socket k;
        Some (socket, snd (sk_close os (fd_fd listening_socket) k))
      }
      else do {
        (connecting_socket, k) \<leftarrow> TCPSocket_init os k;
        host \<leftarrow> argv_at argv 1;
        port \<leftarrow> argv_at argv 2;
        address \<leftarrow> Address_of_service rs host port;
        k \<leftarrow> Socket_connect os address connecting_socket k;
        Some (connecting_socket, k)
      })"

definition tcp_native_start :: "'k kernel \<Rightarrow> resolver \<Rightarrow> string list \<Rightarrow> 'k \<Rightarrow> (FDWrapper \<times> 'k) outcome option" where
  "tcp_native_start os rs argv k =
     (if length argv < 3 then exit_with native_show_usage argv 1 None
      else do {
        arg \<leftarrow> argv_at argv 1;
        let server_mode = (strncmp ''-l'' arg 3 = 0);
        if server_mode \<and> length argv < 4 then exit_with native_show_usage argv 1 None
        else map_option Goes (native_socket os rs server_mode argv k)
      })"

section \<open>apps/webget.cc\<close>

definition kBufferSize :: nat where "kBufferSize = 1024"

abbreviation crlf :: string where
  "crlf \<equiv> [CHR 0x0D, CHR 0x0A]"

definition http_get :: "string \<Rightarrow> string \<Rightarrow> string" where
  "http_get host path = ''GET '' @ path @ '' HTTP/1.1'' @ crlf @ ''Host: '' @ host @ crlf @ ''Connection: close'' @ crlf @ crlf"

text \<open>\<open>snprintf\<close> cuts what does not fit the buffer with its terminating zero.\<close>

definition webget_request :: "string \<Rightarrow> string \<Rightarrow> bytes" where
  "webget_request host path = map of_char (take (kBufferSize - 1) (http_get host path))"

text \<open>The loop that reads to the end of the stream, given the answers of \<open>read\<close>: whether the end was reached, what was read,
  and the socket.\<close>

fun webget_read :: "(u64 \<Rightarrow> (int \<times> int) \<times> bytes) list \<Rightarrow> bytes \<Rightarrow> FDWrapper \<Rightarrow> (bool \<times> bytes \<times> FDWrapper) option" where
  "webget_read reads resp fd =
     (if fd_eof fd then Some (True, resp, fd)
      else (case reads of
        [] \<Rightarrow> Some (False, resp, fd)
      | sys_read # reads \<Rightarrow> do {
          (data, fd) \<leftarrow> FileDescriptor_read sys_read (2 ^ 64 - 1) fd;
          webget_read reads (resp @ data) fd
        }))"

declare webget_read.simps [simp del]

definition get_URL_connect ::
  "'k kernel \<Rightarrow> resolver \<Rightarrow> startup \<Rightarrow> string \<Rightarrow> 'k \<Rightarrow> (FdAdapterBase device_adapter TCPSpongeSocket thread \<times> 'k) option" where
  "get_URL_connect os rs su host k = do {
     (tcp_sock, k) \<leftarrow> CS144TCPSocket_init os rs su k;
     addr \<leftarrow> Address_of_service rs host ''http'';
     thread \<leftarrow> CS144TCPSocket_connect rs su addr tcp_sock;
     Some (thread, k)
   }"

text \<open>What the owner does with the connected socket: the bytes written and the response, printed after the connection
  was closed.\<close>

definition get_URL_exchange ::
  "write_call \<Rightarrow> int \<times> int \<Rightarrow> (u64 \<Rightarrow> (int \<times> int) \<times> bytes) list \<Rightarrow> string \<Rightarrow> string \<Rightarrow> FDWrapper \<Rightarrow> (bytes \<times> bool \<times> bytes \<times> FDWrapper) option" where
  "get_URL_exchange writev shutdown_result reads host path tcp_sock = do {
     ((_, written), tcp_sock) \<leftarrow> FileDescriptor_write writev (BufferViewList_of_view (webget_request host path)) True tcp_sock;
     tcp_sock \<leftarrow> Socket_shutdown shutdown_result SHUT_WR tcp_sock;
     (ended, resp, tcp_sock) \<leftarrow> webget_read reads [] tcp_sock;
     Some (written, ended, resp, tcp_sock)
   }"

text \<open>The arguments; without the name of the program the program aborts.\<close>

definition webget_show_usage :: "string \<Rightarrow> string option \<Rightarrow> string" where
  "webget_show_usage argv0 msg = ''Usage: '' @ argv0 @ '' HOST PATH'' @ newline @ [CHR 0x09] @ ''Example: '' @ argv0 @
     '' stanford.edu /class/cs144'' @ newline"

definition webget_arguments :: "string list \<Rightarrow> (string \<times> string) outcome option" where
  "webget_arguments argv =
     (if length argv = 0 then None
      else if length argv \<noteq> 3 then exit_with webget_show_usage argv 1 None
      else do {
        host \<leftarrow> argv_at argv 1;
        path \<leftarrow> argv_at argv 2;
        Some (Goes (host, path))
      })"

section \<open>The main function of apps/udp\_tcpdump.cc\<close>

text \<open>libpcap: opening gives an error text or a link type, compiling and setting the filter give an error text.\<close>

record pcap =
  pc_open_live :: "string option \<Rightarrow> string + int"
  pc_description :: "int \<Rightarrow> string"
  pc_compile :: "string \<Rightarrow> string option"
  pc_setfilter :: "string \<Rightarrow> string option"
  pc_next :: "(int \<times> bytes) list"
  pc_geterr :: string

definition capture_message :: "string option \<Rightarrow> string" where
  "capture_message dev = (case dev of Some dev \<Rightarrow> ''Capturing on interface '' @ dev | None \<Rightarrow> ''Capturing on all interfaces'')"

definition filter_expression :: "string list \<Rightarrow> nat \<Rightarrow> string" where
  "filter_expression argv exp_start = concat (map (\<lambda>arg. arg @ '' '') (drop exp_start argv))"

definition udp_tcpdump_main :: "pcap \<Rightarrow> (bytes \<Rightarrow> string option) \<Rightarrow> string list \<Rightarrow> (printed list \<times> int option) option" where
  "udp_tcpdump_main pc inet_ntop argv = do {
     r \<leftarrow> parse_arguments argv 1 None;
     (case r of
        Exits code text \<Rightarrow> Some ([Cout text], Some code)
      | Goes (exp_start, dev) \<Rightarrow>
          (let out = [Cout (capture_message dev)] in
           case pc_open_live pc dev of
             Inl errbuf \<Rightarrow> Some (out @ [Cout (newline @ ''Error initiating capture: '' @ errbuf @ newline)], Some 1)
           | Inr dlt \<Rightarrow>
               if \<not> supported_link dlt
               then Some (out @ [Cout (newline @ ''Error: unsupported datalink type '' @ pc_description pc dlt @ newline)], Some 1)
               else (let expression = filter_expression argv exp_start;
                         out = out @ [Cout ('' (type: '' @ pc_description pc dlt @ '')'' @ newline),
                           Cout (''Using filter expression: '' @ expression @ newline)] in
                 case pc_compile pc expression of
                   Some err \<Rightarrow> Some (out @ [Cout (''Error compiling filter expression: '' @ err @ newline)], Some 1)
                 | None \<Rightarrow> (case pc_setfilter pc expression of
                     Some err \<Rightarrow> Some (out @ [Cout (''Error configuring packet filter: '' @ err @ newline)], Some 1)
                   | None \<Rightarrow> do {
                       (printed, code) \<leftarrow> capture_loop inet_ntop dlt (pc_geterr pc) (pc_next pc);
                       Some (out @ printed, code)
                     }))))
   }"

section \<open>Properties of the parts\<close>

text \<open>The random Ethernet address is a unicast address that no manufacturer owns, so it is not the broadcast address.\<close>

lemma random_private_ethernet_address_private:
  assumes "6 \<le> length random"
  shows "length (random_private_ethernet_address random) = 6"
    and "random_private_ethernet_address random ! 0 AND 0x03 = 0x02"
    and "random_private_ethernet_address random \<noteq> ETHERNET_BROADCAST"
proof -
  let ?b = "(random ! 0 OR 0x02) AND 0xfe"
  have first: "random_private_ethernet_address random ! 0 = ?b" and len: "length (random_private_ethernet_address random) = 6"
    using assms by (simp_all add: random_private_ethernet_address_def Let_def)
  have "?b AND 0x03 = (random ! 0 OR 0x02) AND (0xfe AND 0x03)" by (simp only: and.assoc)
  also have "\<dots> = (random ! 0 OR 0x02) AND 0x02" by simp
  also have "\<dots> = 0x02" by (rule bit_word_eqI) (auto simp: bit_and_iff bit_or_iff)
  finally have bits: "?b AND 0x03 = 0x02" .
  show "length (random_private_ethernet_address random) = 6" by (rule len)
  show and3: "random_private_ethernet_address random ! 0 AND 0x03 = 0x02"
    unfolding first by (rule bits)
  show "random_private_ethernet_address random \<noteq> ETHERNET_BROADCAST"
    using and3 by (auto simp: ETHERNET_BROADCAST_def)
qed

text \<open>The socket of tcp\_native is made by steps of a program with sockets, so it is a TCP socket for the kernel.\<close>

lemma native_socket_steps:
  assumes "native_socket os rs server_mode argv k = Some (s, k')"
  shows "(socket_step os)\<^sup>*\<^sup>* (k, []) (k', [(TCP_socket, s)])"
proof (cases server_mode)
  case True
  obtain l k1 k2 k3 k4 address t k5 where l: "TCPSocket_init os k = Some (l, k1)" "Socket_set_reuseaddr os l k1 = Some k2"
    "Socket_bind os address l k2 = Some k3" "TCPSocket_listen os 16 l k3 = Some k4" "TCPSocket_accept os l k4 = Some (s, t, k5)"
    "k' = snd (sk_close os (fd_fd t) k5)"
    using assms True by (auto simp: native_socket_def bind_eq_Some_conv)
  have "socket_step os (k, []) (k1, [(TCP_socket, l)])" using l(1) unfolding TCPSocket_init_def by (rule socket_step.construct)
  moreover have "socket_step os (k1, [(TCP_socket, l)]) (k2, [(TCP_socket, l)])" by (rule socket_step.set_reuseaddr [OF _ l(2)]) simp
  moreover have "socket_step os (k2, [(TCP_socket, l)]) (k3, [(TCP_socket, l)])" by (rule socket_step.bind [OF _ l(3)]) simp
  moreover have "socket_step os (k3, [(TCP_socket, l)]) (k4, [(TCP_socket, l)])" by (rule socket_step.listen [OF _ l(4)]) simp
  moreover have "socket_step os (k4, [(TCP_socket, l)]) (k5, [(TCP_socket, s), (TCP_socket, t)])"
    using socket_step.accept [OF l(5), of "[]" "[]"] by simp
  moreover have "socket_step os (k5, [(TCP_socket, s), (TCP_socket, t)]) (k', [(TCP_socket, s)])"
    using socket_step.close [of os t k5 _ k' "[(TCP_socket, s)]" TCP_socket "[]"] l(6) by (metis append_Cons append_Nil prod.collapse)
  ultimately show ?thesis by (meson converse_rtranclp_into_rtranclp rtranclp.rtrancl_refl)
next
  case False
  then obtain k1 address where l: "TCPSocket_init os k = Some (s, k1)" "Socket_connect os address s k1 = Some k'"
    using assms by (auto simp: native_socket_def bind_eq_Some_conv)
  have "socket_step os (k, []) (k1, [(TCP_socket, s)])" using l(1) unfolding TCPSocket_init_def by (rule socket_step.construct)
  moreover have "socket_step os (k1, [(TCP_socket, s)]) (k', [(TCP_socket, s)])" by (rule socket_step.connect [OF _ l(2)]) simp
  ultimately show ?thesis by (meson converse_rtranclp_into_rtranclp rtranclp.rtrancl_refl)
qed

text \<open>The answers of a connection that delivers the pieces of a response and ends.\<close>

definition delivers :: "bytes list \<Rightarrow> (u64 \<Rightarrow> (int \<times> int) \<times> bytes) list" where
  "delivers pieces = map (\<lambda>piece n. ((int (length piece), 0), piece)) (pieces @ [[]])"

lemma length_http_get: "length (http_get host path) = 44 + length host + length path"
  by (simp add: http_get_def)

lemma webget_reads_all:
  assumes "\<forall>piece \<in> set pieces. 0 < length piece \<and> length piece \<le> READ_BUFFER_SIZE" and "\<not> fd_eof fd"
  shows "\<exists>fd'. webget_read (delivers pieces) resp fd = Some (True, resp @ concat pieces, fd')"
  using assms
proof (induction pieces arbitrary: resp fd)
  case Nil
  then show ?case
    by (simp add: delivers_def webget_read.simps [of "_ # _"] webget_read.simps [of "[]"] FileDescriptor_read_def SystemCall_def to_int32_def
      register_read_def)
next
  case (Cons piece pieces)
  have len: "length piece \<le> 1048576" "piece \<noteq> []" using Cons.prems(1) by (auto simp: READ_BUFFER_SIZE_def)
  then have i: "to_int32 (int (length piece)) = int (length piece)" by (simp add: to_int32_def)
  have "FileDescriptor_read (\<lambda>n. ((int (length piece), 0), piece)) (2 ^ 64 - 1) fd = Some (piece, register_read fd)"
    using len by (simp add: FileDescriptor_read_def SystemCall_def i READ_BUFFER_SIZE_def)
  moreover obtain fd' where "webget_read (delivers pieces) (resp @ piece) (register_read fd) = Some (True, (resp @ piece) @ concat pieces, fd')"
    using Cons.IH [of "register_read fd" "resp @ piece"] Cons.prems by (auto simp: register_read_def)
  ultimately show ?case using Cons.prems(2) by (simp add: delivers_def webget_read.simps [of "_ # _"])
qed

text \<open>A fetch sends the request, cut to 1023 characters, and shows everything the server sends until it closes the connection, in
  order. A request that fits is complete: it ends with an empty line.\<close>

theorem webget_fetches:
  assumes "writev_ok writev" and "0 \<le> fst shutdown_result" and "\<not> fd_eof tcp_sock"
    and "\<forall>piece \<in> set pieces. 0 < length piece \<and> length piece \<le> READ_BUFFER_SIZE"
  shows "\<exists>fd. get_URL_exchange writev shutdown_result (delivers pieces) host path tcp_sock =
      Some (map of_char (take 1023 (http_get host path)), True, concat pieces, fd) \<and>
    (if length host + length path \<le> 979 then take 1023 (http_get host path) = http_get host path else length (take 1023 (http_get host path)) = 1023)"
proof -
  let ?req = "webget_request host path"
  have len: "length ?req < 2 ^ 31" by (simp add: webget_request_def kBufferSize_def)
  obtain fd1 where w: "FileDescriptor_write writev (BufferViewList_of_view ?req) True tcp_sock = Some ((length ?req, ?req), fd1)"
    "fd_eof fd1 = fd_eof tcp_sock"
    using write_loop_returns [OF assms(1), of "BufferViewList_of_view ?req" 0 True 0 "[]" tcp_sock] len
    by (auto simp: FileDescriptor_write_def BufferViewList_of_view_def)
  have sh: "Socket_shutdown shutdown_result SHUT_WR fd1 = Some (register_write fd1)"
    using assms(2) by (simp add: Socket_shutdown_def SystemCall_def)
  obtain fd' where "webget_read (delivers pieces) [] (register_write fd1) = Some (True, [] @ concat pieces, fd')"
    using webget_reads_all [OF assms(4), of "register_write fd1" "[]"] w(2) assms(3) by (auto simp: register_write_def)
  then show ?thesis using w(1) sh
    by (simp add: get_URL_exchange_def webget_request_def kBufferSize_def length_http_get)
qed

theorem webget_fetches_witness:
  "\<exists>fd. get_URL_exchange (\<lambda>k iov. (int (sum_list (map snd iov)), 0)) (0, 0) (delivers [[72, 105], [33]]) ''h'' ''/p''
      \<lparr>fd_fd = 3, fd_eof = False, fd_closed = False, fd_read_count = 0, fd_write_count = 0\<rparr> =
    Some (map of_char (http_get ''h'' ''/p''), True, [72, 105, 33], fd)"
proof -
  have w: "writev_ok (\<lambda>k iov. (int (sum_list (map snd iov)), 0))" by (simp add: writev_ok_def)
  show ?thesis
    using webget_fetches [OF w, of "(0, 0)" "\<lparr>fd_fd = 3, fd_eof = False, fd_closed = False, fd_read_count = 0, fd_write_count = 0\<rparr>"
      "[[72, 105], [33]]" "''h''" "''/p''"] by (auto simp: READ_BUFFER_SIZE_def)
qed

end
