(* ===== verification/Spec2Isabelle.thy ===== *)
theory Spec2Isabelle
  imports Programs
begin

text \<open>
  Sponge, a TCP implementation in user space: a model of the library libsponge and of the programs in apps, with proofs of what
  they do.

  \<^bold>\<open>The program.\<close> A TCPConnection is a TCPSender and a TCPReceiver. The sender cuts a ByteStream into segments; the receiver
  puts segments together again with a StreamReassembler. A datagram adapter wraps segments into IPv4 datagrams for a TUN or
  TAP device or into UDP datagrams. A TCPSpongeSocket runs a connection in a thread: an EventLoop of four rules moves
  bytes and segments between the adapter and a stream socket that the owner holds. The programs read their command
  line, open a socket and copy the standard streams with bidirectional\_stream\_copy.

  \<^bold>\<open>Conventions.\<close> A class is a record of its fields and a method a definition named \<open>Class_method\<close> that takes and returns the
  object. Integers of 8, 16 and 32 bits are words; size\_t and uint64\_t are natural numbers with \<open>add64\<close>, \<open>sub64\<close>, \<open>mul64\<close>
  that wrap at 2 to the 64. A call that throws, reads or writes outside an array, divides by zero or fails an
  assertion is \<open>None\<close>; a build with NDEBUG drops the assertions, and the theorems that a call returns show
  that they hold there. What is not under src/ is an argument: the resolver, system calls, poll, random values, libpcap.
  What is relied on is a named predicate: \<open>numeric_resolver\<close>, \<open>writev_ok\<close>, \<open>read_ok\<close>, \<open>poll_ok\<close>, \<open>os_ok\<close>, \<open>calls_ok\<close>,
  \<open>takes_datagrams\<close>, \<open>gives_datagram\<close>, \<open>kernel_ok\<close>. A property that relies on one has a witness with an instance.

  \<^bold>\<open>Data.\<close>
  \<^item> \<open>Sponge_Prelude\<close>: machine integers, ring buffers as lists, the locales \<open>machine\<close> and \<open>monotone_machine\<close> for components
    that are driven by events, with their invariant and order.
  \<^item> \<open>Byte_Stream\<close> (byte\_stream.cc): the ring buffer as a queue of bytes. Locale \<open>byte_channel\<close>.
  \<^item> \<open>Unassemble_Buffer\<close>, \<open>Stream_Reassembler\<close> (stream\_reassembler.cc): the interval map and the reassembler. The output is the
    stream up to the first position not received, whatever the order and the overlap of the substrings in the window.
  \<^item> \<open>Wrapping_Integers\<close> (wrapping\_integers.cc): \<open>unwrap\<close> returns the closest number.
  \<^item> \<open>Buffers\<close> (util/buffer.cc), \<open>Net_Parser\<close> (util/parser.cc): Locale \<open>prefix_string\<close> for the three kinds of buffer.
  \<^item> \<open>TCP_Segment\<close>, \<open>IPv4\<close>, \<open>Ethernet\<close>, \<open>Text_Output\<close>, \<open>Hex_Dump\<close> (tcp\_header.cc, tcp\_segment.cc, ipv4\_header.cc, ipv4\_datagram.cc,
    ethernet\_header.cc, ethernet\_frame.cc, arp\_message.cc, util.cc): checksums, parsing, serialising, printing; round trips.
    \<open>Parser_Safety\<close>: the parsers return on any bytes.
  \<^item> \<open>Socket_Address\<close>, \<open>File_Descriptor\<close>, \<open>Sockets\<close>, \<open>Event_Loop\<close> (util/address.cc, file\_descriptor.cc, socket.cc, tun.cc, eventloop.cc):
    the wrappers of system calls. \<open>Sockets\<close> types the sockets; locale \<open>served_rules\<close> of \<open>Event_Loop\<close> is the contract
    under which a round of the loop does not throw.

  \<^bold>\<open>The connection.\<close>
  \<^item> \<open>Genuine_Segments\<close>: the segments that carry a given stream.
  \<^item> \<open>TCP_Receiver\<close>, \<open>TCP_Sender\<close>, \<open>TCP_State\<close>, \<open>TCP_Connection\<close> (tcp\_receiver.cc, tcp\_sender.cc, tcp\_helpers/tcp\_state.cc,
    tcp\_connection.cc): the classes, their invariants, and what each operation does on each branch.
  \<^item> \<open>TCP_Direction\<close>: the invariant of a sender, the receiver at the other end and all segments and acknowledgments
    ever sent. \<open>TCP_Endpoint\<close>: the calls of a connection keep it in both directions.
  \<^item> \<open>TCP_Network\<close>: two connections over a network that loses, repeats, delays and reorders segments, as a step relation. What is read
    is a prefix of what was written; no call fails; an acknowledged FIN means that all was delivered.
    \<open>TCP_Handshake\<close>: the handshake reaches ESTABLISHED. \<open>Segment_Bounds\<close>: every segment fits a datagram.

  \<^bold>\<open>Sockets and programs.\<close>
  \<^item> \<open>Adapters\<close>, \<open>Datagram_Adapters\<close> (fd\_adapter.cc, tcp\_over\_ip.cc, tuntap\_adapter.cc, lossy\_fd\_adapter.hh, network\_interface.cc):
    wrapping and unwrapping, and the locale \<open>datagram_adapter\<close> with its instances for TUN, UDP, TAP and the lossy adapters.
  \<^item> \<open>Sponge_Socket\<close>, \<open>Sponge_Network\<close>, \<open>Sponge_System\<close> (tcp\_sponge\_socket.cc): the four rules, the thread, and two
    programs that talk to each other. Their states refine those of \<open>TCP_Network\<close>, so that its theorems hold for the bytes
    that the owners write and read.
  \<^item> \<open>Stream_Copy\<close> (apps/bidirectional\_stream\_copy.cc): the copy loop loses and invents nothing.
  \<^item> \<open>Packet_Dump\<close>, \<open>Command_Line\<close>, \<open>Programs\<close> (apps/udp\_tcpdump.cc, tun.cc, tcp\_udp.cc, tcp\_ipv4.cc, tcp\_ip\_ethernet.cc, tcp\_native.cc,
    webget.cc): locale \<open>command_line\<close> for the three option loops, which accept exactly the lines described.

  \<^bold>\<open>Loops and bounds.\<close> The loop of fill\_window and the option loops are partial functions and are shown to return; the write
    loop of FileDescriptor, the folding of a checksum and the walk over extension headers are functions with a proof of termination. The loops that wait for the world (\<open>TCPSpongeSocket_tcp_loop\<close>, \<open>copy_loop\<close>, \<open>capture_loop\<close>, \<open>tun_loop\<close>,
    \<open>webget_read\<close>) take the answers they get, or the number of rounds, as an argument: their theorems hold for every
    number of rounds, and the loops run until that number is used up or the program leaves them. The theorems about a
    whole connection are about streams shorter than 2 to the 31, so that no sequence number is ambiguous however late a segment
    is; a program that captures packets gets at most 65535 bytes of each, so that its int never overflows.

  \<^bold>\<open>Interleaving.\<close> The two threads of \<open>Sponge_System\<close> interleave by rounds of their event loops; they share nothing but the
    datagrams. A thread and its owner share the stream socket and the abort flag, which are answers of the
    system to the thread in each round, different from round to round at will.

  \<^bold>\<open>Not modelled.\<close> apps/tcp\_benchmark.cc, which measures the throughput of two connections in one process: its calls are
    steps of \<open>TCP_Network\<close>. get\_random\_generator and the timestamps, which seed a random engine and read a clock: their values are
    arguments. The conversion of a loss rate from text, since there are no floats: it is an argument. Joining a thread and
    what is printed on the error stream for debugging. The classes of exceptions: an exception is \<open>None\<close>, whatever
    it says. doctests and tests, which only call the library. The NetworkInterface of the repository is a stub and is modelled
    as it stands.
\<close>

end
